(* ===== verification/Prelude.thy ===== *)
theory Prelude
  imports Main "HOL-Library.Word"
begin

text \<open>
  Shared vocabulary of the development: the machine integer types of the sources, the
  result type of operations that can end the process, records kept in a list under a
  unique key (the model of linked structures), cyclic search, and byte slices.
  \<^item> \<open>Inl e\<close> is a call that ended the process (or was refused) for the reason \<open>e\<close>,
    \<open>Inr s\<close> a call that returned.
  \<^item> \<open>upd_by\<close> and \<open>find_by\<close> stand for reading and writing a structure through a pointer:
    the key of a list element is the address of the structure.
\<close>

section \<open>Machine integers\<close>

type_synonym u8 = "8 word"
type_synonym u16 = "16 word"
type_synonym u32 = "32 word"
type_synonym u64 = "64 word"
type_synonym bytes = "8 word list"

section \<open>Results\<close>

definition sbind :: "'e + 'a \<Rightarrow> ('a \<Rightarrow> 'e + 'b) \<Rightarrow> 'e + 'b" where
  "sbind r f = (case r of Inl e \<Rightarrow> Inl e | Inr a \<Rightarrow> f a)"

lemma sbind_simps [simp]:
  "sbind (Inl e) f = Inl e"
  "sbind (Inr a) f = f a"
  by (simp_all add: sbind_def)

lemma sbind_eq_Inr: "sbind r f = Inr b \<longleftrightarrow> (\<exists>a. r = Inr a \<and> f a = Inr b)"
  by (cases r) auto

lemma sbind_eq_Inl: "sbind r f = Inl e \<longleftrightarrow> r = Inl e \<or> (\<exists>a. r = Inr a \<and> f a = Inl e)"
  by (cases r) auto

section \<open>Structures reached through pointers\<close>

definition upd_by :: "('a \<Rightarrow> 'k) \<Rightarrow> 'k \<Rightarrow> ('a \<Rightarrow> 'a) \<Rightarrow> 'a list \<Rightarrow> 'a list" where
  "upd_by key k f xs = map (\<lambda>x. if key x = k then f x else x) xs"

definition find_by :: "('a \<Rightarrow> 'k) \<Rightarrow> 'k \<Rightarrow> 'a list \<Rightarrow> 'a option" where
  "find_by key k xs = find (\<lambda>x. key x = k) xs"

lemma length_upd_by [simp]: "length (upd_by key k f xs) = length xs"
  by (simp add: upd_by_def)

lemma upd_by_Nil_iff [simp]: "upd_by key k f xs = [] \<longleftrightarrow> xs = []"
  by (simp add: upd_by_def)

lemma map_upd_by:
  assumes "\<And>x. g (f x) = g x"
  shows "map g (upd_by key k f xs) = map g xs"
  using assms by (auto simp: upd_by_def)

lemma set_upd_by:
  "set (upd_by key k f xs) = f ` {x \<in> set xs. key x = k} \<union> {x \<in> set xs. key x \<noteq> k}"
  by (auto simp: upd_by_def)

lemma find_by_Nil [simp]: "find_by key k [] = None"
  by (simp add: find_by_def)

lemma find_by_Cons:
  "find_by key k (x # xs) = (if key x = k then Some x else find_by key k xs)"
  by (simp add: find_by_def)

lemma find_by_SomeD: "find_by key k xs = Some x \<Longrightarrow> x \<in> set xs \<and> key x = k"
  by (induction xs) (auto simp: find_by_Cons split: if_splits)

lemma find_by_None_iff: "find_by key k xs = None \<longleftrightarrow> k \<notin> key ` set xs"
  by (induction xs) (auto simp: find_by_Cons)

lemma find_by_Some_iff:
  "distinct (map key xs) \<Longrightarrow> find_by key k xs = Some x \<longleftrightarrow> x \<in> set xs \<and> key x = k"
  by (induction xs) (auto simp: find_by_Cons)

lemma find_by_self:
  "distinct (map key xs) \<Longrightarrow> x \<in> set xs \<Longrightarrow> find_by key (key x) xs = Some x"
  by (simp add: find_by_Some_iff)

lemma find_by_ex: "k \<in> key ` set xs \<Longrightarrow> \<exists>x. find_by key k xs = Some x"
  by (cases "find_by key k xs") (auto simp: find_by_None_iff)

lemma find_by_map:
  assumes "\<And>x. key (g x) = key x"
  shows "find_by key k (map g xs) = map_option g (find_by key k xs)"
  using assms by (induction xs) (auto simp: find_by_Cons)

lemma find_by_upd_by:
  assumes "\<And>x. key (f x) = key x"
  shows "find_by key j (upd_by key k f xs) =
    (if j = k then map_option f (find_by key j xs) else find_by key j xs)"
  using assms by (induction xs) (auto simp: find_by_Cons upd_by_def)

lemma find_by_append:
  "find_by key k (xs @ ys) = (case find_by key k xs of None \<Rightarrow> find_by key k ys | Some x \<Rightarrow> Some x)"
  by (induction xs) (auto simp: find_by_Cons)

section \<open>Byte slices\<close>

text \<open>The bytes \<open>[off, off + n)\<close> of a file, cut at its end: what a read returns.\<close>

definition cut :: "nat \<Rightarrow> nat \<Rightarrow> 'a list \<Rightarrow> 'a list" where
  "cut off n xs = take n (drop off xs)"

lemma length_cut: "length (cut off n xs) = min n (length xs - off)"
  by (simp add: cut_def)

lemma cut_full: "cut 0 (length xs) xs = xs"
  by (simp add: cut_def)

lemma cut_beyond: "length xs \<le> off \<Longrightarrow> cut off n xs = []"
  by (simp add: cut_def)

lemma cut_min: "length xs = n \<Longrightarrow> cut off (min k (n - off)) xs = cut off k xs"
  by (auto simp: cut_def min_def)

lemma cut_cut:
  "cut a m (cut b n xs) = cut (b + a) (min m (n - a)) xs"
  by (simp add: cut_def drop_take min.commute add.commute)

lemma cut_append_cut: "cut off m xs @ cut (off + m) n xs = cut off (m + n) xs"
  by (simp add: cut_def take_add add.commute)

lemma nth_cut: "i < length (cut off n xs) \<Longrightarrow> cut off n xs ! i = xs ! (off + i)"
proof -
  assume "i < length (cut off n xs)"
  then have "off \<le> length xs" "i < n" by (auto simp: length_cut)
  then show ?thesis by (simp add: cut_def)
qed

section \<open>Growing and overwriting\<close>

text \<open>\<open>std::vector<u8>::resize\<close>, and a copy into a buffer at an offset.\<close>

definition resize :: "nat \<Rightarrow> bytes \<Rightarrow> bytes" where
  "resize n xs = take n xs @ replicate (n - length xs) 0"

definition splice :: "nat \<Rightarrow> 'a list \<Rightarrow> 'a list \<Rightarrow> 'a list" where
  "splice off b xs = take off xs @ b @ drop (off + length b) xs"

text \<open>A write at an offset: bytes past the end are made first, zero where nothing was written.\<close>

definition overwrite :: "nat \<Rightarrow> bytes \<Rightarrow> bytes \<Rightarrow> bytes" where
  "overwrite off b xs =
     splice off b (if off + length b > length xs then resize (off + length b) xs else xs)"

lemma length_resize [simp]: "length (resize n xs) = n"
  by (simp add: resize_def)

lemma resize_same [simp]: "resize (length xs) xs = xs"
  by (simp add: resize_def)

lemma resize_Nil [simp]: "resize n [] = replicate n 0"
  by (simp add: resize_def)

lemma length_splice: "off + length b \<le> length xs \<Longrightarrow> length (splice off b xs) = length xs"
  by (simp add: splice_def)

lemma splice_Nil [simp]: "splice off [] xs = xs"
  by (simp add: splice_def)

lemma take_splice: "off \<le> length xs \<Longrightarrow> take off (splice off b xs) = take off xs"
  by (simp add: splice_def)

lemma take_splice_end: "off \<le> length xs \<Longrightarrow> take (off + length b) (splice off b xs) = take off xs @ b"
  by (simp add: splice_def min_def)

lemma cut_splice: "off \<le> length xs \<Longrightarrow> cut off (length b) (splice off b xs) = b"
  by (simp add: splice_def cut_def min_def)

lemma cut_0: "cut 0 n xs = take n xs"
  by (simp add: cut_def)

lemma cut_eq_Nil: "cut off n xs = [] \<longleftrightarrow> n = 0 \<or> length xs \<le> off"
  by (auto simp: cut_def)

lemma length_overwrite: "length (overwrite off b xs) = max (length xs) (off + length b)"
  by (simp add: overwrite_def length_splice max_def)

lemma overwrite_append: "overwrite (length xs) b xs = xs @ b"
  by (simp add: overwrite_def splice_def resize_def)

lemma cut_overwrite: "cut off (length b) (overwrite off b xs) = b"
  by (simp add: overwrite_def cut_splice)

end
