(* ===== verification/VschedState.thy ===== *)
theory VschedState
  imports Prelude
begin

text \<open>
  The state of the virtual-time scheduler, \<open>waterbox/vsched.cpp\<close>, and the helpers its
  entry points are made of. A record \<open>vthread\<close> is a \<open>struct vthread\<close>; the record
  \<open>vsched\<close> holds the file's static variables, with \<open>ring\<close> the linked list from
  \<open>g_head\<close> to \<open>g_tail\<close> (the last element's successor is the head). A thread is named
  by \<open>vt_ref\<close>, which stands for the address of its structure; structures are never
  reused, as in the source, where they are leaked on purpose.

  What a thread is doing with its semaphore is its \<open>phase\<close>: \<open>Running\<close> code of its
  own, or stopped in one of the three \<open>sem_wait\<close> loops of the file. Nothing but that
  \<open>sem_wait\<close> follows a \<open>sem_post\<close>, so a call is atomic up to it.
\<close>

section \<open>Constants\<close>

definition PPU_INSTR_NS_Q10 :: u64 where "PPU_INSTR_NS_Q10 = 640"
definition SPU_INSTR_NS_Q10 :: u64 where "SPU_INSTR_NS_Q10 = 320"
definition RSX_CMD_NS_Q10 :: u64 where "RSX_CMD_NS_Q10 = 20480"
definition BUDGET_PER_SLICE :: int where "BUDGET_PER_SLICE = 80000"
definition BUDGET_PER_LOOK :: int where "BUDGET_PER_LOOK = 4000"
definition RSX_CMDS_PER_SLICE :: u32 where "RSX_CMDS_PER_SLICE = 2500"
definition YIELD_COST_NS :: u64 where "YIELD_COST_NS = 1000"
definition POLL_YIELD_MIN_NS :: u64 where "POLL_YIELD_MIN_NS = 1000"
definition ASIDE_LIMIT_NS :: u64 where "ASIDE_LIMIT_NS = 120 * 1000000000"
definition ASIDE_LIMIT_SWITCHES :: u64 where "ASIDE_LIMIT_SWITCHES = 200 * 1000 * 1000"
definition VSCHED_SLOTS :: nat where "VSCHED_SLOTS = 256"
definition VSCHED_INFINITE :: u64 where "VSCHED_INFINITE = - 1"

section \<open>Threads\<close>

datatype tstate = RUNNABLE | WAITING | DEAD

text \<open>A word a thread can wait on: one of the machine's, or the private
  word of \<open>vsched_sleep\<close>, which nobody writes.\<close>

datatype waddr = GuestWord u64 | NobodyWord

record wait_item =
  wi_addr :: waddr
  wi_old :: u32

text \<open>Where a thread's own code stands: running, or in the \<open>sem_wait\<close> of
  \<open>switch_to\<close> called from a yield, of \<open>switch_to\<close> called under \<open>vsched_wait\<close>, or of
  the trampoline a new thread starts in.\<close>

datatype phase = Running | InSwitch | InWait | InTrampoline

record vthread =
  vt_ref :: nat
  vt_sem :: nat
  vt_id :: u32
  vt_state :: tstate
  vt_deadline :: u64
  vt_wait_seq :: u64
  vt_items :: "wait_item list"
  vt_timed_out :: bool
  vt_mxcsr :: u32
  vt_fcw :: u16
  vt_fn :: nat
  vt_slot :: nat
  vt_cpu :: bool
  vt_held :: bool
  vt_aside_wait :: bool
  vt_phase :: phase

text \<open>Why the scheduler ended the process (\<open>die\<close>). \<open>Diverged\<close> is not a message of the
  source: it is the value of a loop that ran out of the fuel given to it here, and is
  shown unreachable.\<close>

datatype vdeath =
    OutOfSlots
  | EveryThreadWaiting
  | BatonDuplicated
  | DriverExit
  | TooManyResetters
  | TooManyExitHooks
  | Diverged

text \<open>A registered resetter: the thread-local variable it resets, and the
  value every thread starts from (\<open>waterbox/chimera_tls.h\<close>).\<close>

record tls_reset =
  tls_var :: nat
  tls_init :: int

record vsched =
  ring :: "vthread list"
  g_cur :: "nat option"
  g_now :: u64
  g_next_id :: u32
  g_wait_seq :: u64
  g_switches :: u64
  g_count :: nat
  vsched_budget :: int
  g_turn_run :: int
  g_rsx_idle :: "nat option"
  g_rsx_put :: u64
  g_rsx_put_seen :: u32
  rsx_commands :: u32
  g_slot_used :: "bool list"
  g_slot_resets :: "tls_reset list"
  g_thread_exits :: "nat list"
  tls :: "nat \<Rightarrow> nat \<Rightarrow> int"
  exit_log :: "(nat \<times> nat) list"
  g_aside :: "nat option"
  g_aside_then :: u64
  g_aside_switches :: u64
  g_aside_last_ns :: u64
  g_aside_given_up_count :: u64
  g_leave_hook :: "nat option"
  leave_log :: "(nat \<times> nat) list"
  fpu_mxcsr :: u32
  fpu_fcw :: u16
  next_ref :: nat

abbreviation refs :: "vsched \<Rightarrow> nat list" where
  "refs s \<equiv> map vt_ref (ring s)"

definition thread_of :: "vsched \<Rightarrow> nat \<Rightarrow> vthread option" where
  "thread_of s r = find_by vt_ref r (ring s)"

definition upd_thread :: "nat \<Rightarrow> (vthread \<Rightarrow> vthread) \<Rightarrow> vsched \<Rightarrow> vsched" where
  "upd_thread r f s = s\<lparr>ring := upd_by vt_ref r f (ring s)\<rparr>"

text \<open>\<open>*(const volatile uint32_t* )addr\<close>, with \<open>mem\<close> the words of the machine.\<close>

fun read_word :: "(u64 \<Rightarrow> u32) \<Rightarrow> waddr \<Rightarrow> u32" where
  "read_word mem (GuestWord a) = mem a"
| "read_word mem NobodyWord = 0"

text \<open>The state before \<open>vsched_init\<close>: the initial values of the static variables.\<close>

definition vs_static :: vsched where
  "vs_static = \<lparr>ring = [], g_cur = None, g_now = 0, g_next_id = 0, g_wait_seq = 0,
     g_switches = 0, g_count = 0, vsched_budget = BUDGET_PER_LOOK, g_turn_run = 0,
     g_rsx_idle = None, g_rsx_put = 0, g_rsx_put_seen = 0, rsx_commands = 0,
     g_slot_used = replicate VSCHED_SLOTS False, g_slot_resets = [], g_thread_exits = [],
     tls = (\<lambda>_ _. 0), exit_log = [], g_aside = None, g_aside_then = 0,
     g_aside_switches = 0, g_aside_last_ns = 0, g_aside_given_up_count = 0,
     g_leave_hook = None, leave_log = [], fpu_mxcsr = 0x1f80, fpu_fcw = 0x37f,
     next_ref = 0\<rparr>"

section \<open>Slots\<close>

text \<open>The first free slot, as the loop of \<open>take_slot\<close> finds it.\<close>

fun first_free :: "nat \<Rightarrow> bool list \<Rightarrow> nat option" where
  "first_free i [] = None"
| "first_free i (used # us) = (if \<not> used then Some i else first_free (Suc i) us)"

definition run_resets :: "tls_reset list \<Rightarrow> nat \<Rightarrow> (nat \<Rightarrow> nat \<Rightarrow> int) \<Rightarrow> nat \<Rightarrow> nat \<Rightarrow> int" where
  "run_resets rs slot m = fold (\<lambda>r m. m(tls_var r := (m (tls_var r))(slot := tls_init r))) rs m"

definition take_slot :: "vsched \<Rightarrow> vdeath + nat \<times> vsched" where
  "take_slot s =
     (case first_free 0 (g_slot_used s) of
        None \<Rightarrow> Inl OutOfSlots
      | Some i \<Rightarrow> Inr (i, s\<lparr>g_slot_used := (g_slot_used s)[i := True],
                          tls := run_resets (g_slot_resets s) i (tls s)\<rparr>))"

section \<open>The aside\<close>

text \<open>What \<open>aside_close\<close> does to one thread: a wait still running on the aside's clock
  has the rest of its time on the machine's.\<close>

definition aside_release :: "u64 \<Rightarrow> u64 \<Rightarrow> vthread \<Rightarrow> vthread" where
  "aside_release now start t =
     (let t1 = (if vt_state t = WAITING \<and> vt_aside_wait t \<and> vt_deadline t \<noteq> VSCHED_INFINITE
                then t\<lparr>vt_deadline := (if vt_deadline t > now then start + (vt_deadline t - now)
                                       else start)\<rparr>
                else t)
      in t1\<lparr>vt_held := False, vt_aside_wait := False\<rparr>)"

definition aside_close :: "bool \<Rightarrow> vsched \<Rightarrow> vsched" where
  "aside_close gave_up s =
     (if g_aside s = None then s
      else s\<lparr>ring := map (aside_release (g_now s) (g_aside_then s)) (ring s),
             g_now := g_aside_then s,
             g_aside_last_ns := g_now s - g_aside_then s,
             g_aside := None,
             g_aside_given_up_count :=
               (if gave_up then g_aside_given_up_count s + 1 else g_aside_given_up_count s)\<rparr>)"

definition vsched_aside_begin :: "vsched \<Rightarrow> vsched" where
  "vsched_aside_begin s =
     (if g_cur s = None \<or> g_aside s \<noteq> None then s
      else s\<lparr>g_aside := g_cur s, g_aside_then := g_now s, g_aside_switches := g_switches s,
             ring := map (\<lambda>t. t\<lparr>vt_held := (Some (vt_ref t) \<noteq> g_cur s
                                             \<and> (vt_state t = RUNNABLE \<or> vt_cpu t)),
                                 vt_aside_wait := False\<rparr>) (ring s)\<rparr>)"

definition vsched_aside_end :: "vsched \<Rightarrow> u64 \<times> vsched" where
  "vsched_aside_end s =
     (if g_aside s \<noteq> g_cur s then (0, s)
      else (let s' = aside_close False s in (g_aside_last_ns s', s')))"

definition vsched_aside_given_up :: "vsched \<Rightarrow> u64" where
  "vsched_aside_given_up s = g_aside_given_up_count s"

section \<open>Who runs next\<close>

definition wakes :: "vsched \<Rightarrow> vthread \<Rightarrow> bool" where
  "wakes s t \<longleftrightarrow> vt_state t = WAITING \<and> vt_deadline t \<le> g_now s
                  \<and> (g_aside s = None \<or> vt_aside_wait t)"

definition aside_overdue :: "vsched \<Rightarrow> bool" where
  "aside_overdue s \<longleftrightarrow> g_aside s \<noteq> None
     \<and> (g_now s - g_aside_then s > ASIDE_LIMIT_NS
        \<or> g_switches s - g_aside_switches s > ASIDE_LIMIT_SWITCHES)"

definition wake_expired :: "vsched \<Rightarrow> vsched" where
  "wake_expired s =
     (let s1 = (if aside_overdue s then aside_close True s else s)
      in s1\<lparr>ring := map (\<lambda>t. if wakes s1 t then t\<lparr>vt_state := RUNNABLE, vt_timed_out := True\<rparr>
                              else t) (ring s1)\<rparr>)"

text \<open>\<open>t->next ? t->next : g_head\<close>.\<close>

definition ring_next :: "vsched \<Rightarrow> nat \<Rightarrow> nat" where
  "ring_next s r =
     (case dropWhile (\<lambda>x. x \<noteq> r) (refs s) of
        _ # y # _ \<Rightarrow> y
      | _ \<Rightarrow> hd (refs s))"

definition can_run :: "vsched \<Rightarrow> vthread \<Rightarrow> bool" where
  "can_run s t \<longleftrightarrow> vt_state t = RUNNABLE \<and> \<not> (g_aside s \<noteq> None \<and> vt_held t)"

definition runs :: "vsched \<Rightarrow> nat \<Rightarrow> bool" where
  "runs s r \<longleftrightarrow> (case thread_of s r of None \<Rightarrow> False | Some t \<Rightarrow> can_run s t)"

fun next_loop :: "nat \<Rightarrow> vsched \<Rightarrow> nat \<Rightarrow> nat option" where
  "next_loop 0 s r = None"
| "next_loop (Suc n) s r = (if runs s r then Some r else next_loop n s (ring_next s r))"

definition next_runnable_after :: "vsched \<Rightarrow> nat \<Rightarrow> nat option" where
  "next_runnable_after s from = next_loop (g_count s) s (ring_next s from)"

text \<open>The earliest deadline somebody waits for (\<open>VSCHED_INFINITE\<close> for none).\<close>

definition timed_waiter :: "vsched \<Rightarrow> vthread \<Rightarrow> bool" where
  "timed_waiter s t \<longleftrightarrow> vt_state t = WAITING \<and> (g_aside s = None \<or> vt_aside_wait t)"

definition best_deadline :: "vsched \<Rightarrow> u64" where
  "best_deadline s =
     fold (\<lambda>t best. if timed_waiter s t \<and> vt_deadline t < best then vt_deadline t else best)
          (ring s) VSCHED_INFINITE"

definition advance_to_next_deadline :: "vsched \<Rightarrow> vdeath + vsched" where
  "advance_to_next_deadline s =
     (let best = best_deadline s in
      if best = VSCHED_INFINITE \<and> g_aside s \<noteq> None
      then Inr (wake_expired (aside_close True s))
      else if best = VSCHED_INFINITE then Inl EveryThreadWaiting
      else Inr (wake_expired (if best > g_now s then s\<lparr>g_now := best\<rparr> else s)))"

end
