(* ===== verification/VschedOps.thy ===== *)
theory VschedOps
  imports VschedState
begin

text \<open>
  The entry points of \<open>waterbox/vsched.cpp\<close>, one definition each, in the order of the
  file. A call that parks its thread ends at the \<open>sem_wait\<close> of \<open>switch_to\<close>; what the
  source does after that \<open>sem_wait\<close> is \<open>resume\<close>, which runs when the thread's
  semaphore has been posted. The relation \<open>vstep\<close> lets any thread do what its phase
  allows: the operating system decides the order, and that only one thread ever has a
  move is a theorem about the model, not part of it.
\<close>

section \<open>Handing the machine over\<close>

definition switch_to :: "phase \<Rightarrow> nat \<Rightarrow> vsched \<Rightarrow> vsched" where
  "switch_to park t s =
     (case g_cur s of
        None \<Rightarrow> s
      | Some self \<Rightarrow>
          if t = self then s
          else
            (let s1 = (case g_leave_hook s of
                         None \<Rightarrow> s
                       | Some h \<Rightarrow> s\<lparr>leave_log := leave_log s @ [(h, self)]\<rparr>);
                 s2 = upd_thread self
                        (\<lambda>x. x\<lparr>vt_mxcsr := fpu_mxcsr s1, vt_fcw := fpu_fcw s1, vt_phase := park\<rparr>) s1;
                 s3 = s2\<lparr>g_cur := Some t, g_switches := g_switches s2 + 1,
                         vsched_budget := BUDGET_PER_LOOK, g_turn_run := 0,
                         g_rsx_idle := (if g_rsx_idle s2 = Some t then None else g_rsx_idle s2)\<rparr>
             in upd_thread t (\<lambda>x. x\<lparr>vt_sem := vt_sem x + 1\<rparr>) s3))"

text \<open>The loop of \<open>schedule_away\<close>, entered with \<open>self\<close> no longer runnable. The fuel is
  the number of rounds; three are enough (\<open>schedule_away_total\<close> in \<open>VschedInv\<close>).\<close>

fun schedule_away :: "nat \<Rightarrow> nat \<Rightarrow> vsched \<Rightarrow> vdeath + vsched" where
  "schedule_away 0 self s = Inl Diverged"
| "schedule_away (Suc n) self s =
     (let s1 = wake_expired s in
      case next_runnable_after s1 self of
        Some t \<Rightarrow> Inr (switch_to InWait t s1)
      | None \<Rightarrow>
          if (case thread_of s1 self of None \<Rightarrow> False | Some x \<Rightarrow> vt_state x = RUNNABLE)
          then Inr s1
          else sbind (advance_to_next_deadline s1) (schedule_away n self))"

definition SCHEDULE_ROUNDS :: nat where "SCHEDULE_ROUNDS = 3"

section \<open>Starting the machine and making threads\<close>

definition new_thread :: "vsched \<Rightarrow> nat \<Rightarrow> nat \<Rightarrow> phase \<Rightarrow> vthread" where
  "new_thread s slot fn ph =
     \<lparr>vt_ref = next_ref s, vt_sem = 0, vt_id = g_next_id s, vt_state = RUNNABLE,
      vt_deadline = VSCHED_INFINITE, vt_wait_seq = 0, vt_items = [], vt_timed_out = False,
      vt_mxcsr = 0x1f80, vt_fcw = 0x37f, vt_fn = fn, vt_slot = slot, vt_cpu = False,
      vt_held = False, vt_aside_wait = False, vt_phase = ph\<rparr>"

definition vsched_init :: "vsched \<Rightarrow> vdeath + vsched" where
  "vsched_init s =
     sbind (take_slot s) (\<lambda>(slot, s1).
       let t = (new_thread s slot 0 Running)\<lparr>vt_mxcsr := fpu_mxcsr s, vt_fcw := fpu_fcw s\<rparr> in
       Inr (s1\<lparr>ring := [t], g_cur := Some (vt_ref t), g_count := 1, g_next_id := g_next_id s + 1,
               next_ref := next_ref s + 1, g_now := 1000000000\<rparr>))"

text \<open>\<open>rc\<close> is what \<open>pthread_create\<close> returns: 0 when the operating system made the
  thread.\<close>

definition vsched_create :: "nat \<Rightarrow> int \<Rightarrow> vsched \<Rightarrow> vdeath + int \<times> vsched" where
  "vsched_create fn rc s =
     (let s0 = s\<lparr>g_next_id := g_next_id s + 1, next_ref := next_ref s + 1\<rparr> in
      sbind (take_slot s0) (\<lambda>(slot, s1).
        if rc \<noteq> 0 then Inr (rc, s1\<lparr>g_slot_used := (g_slot_used s1)[slot := False]\<rparr>)
        else Inr (0, s1\<lparr>ring := ring s1 @ [new_thread s slot fn InTrampoline],
                        g_count := g_count s1 + 1\<rparr>)))"

section \<open>Leaving the machine\<close>

text \<open>The structure whose \<open>next\<close> is \<open>r\<close>, found by walking from the head.\<close>

definition ring_prev :: "vsched \<Rightarrow> nat \<Rightarrow> nat" where
  "ring_prev s r = last (takeWhile (\<lambda>x. x \<noteq> r) (refs s))"

text \<open>The loop that chooses the successor of a thread that has left.\<close>

fun exit_pick :: "nat \<Rightarrow> nat \<Rightarrow> vsched \<Rightarrow> vdeath + nat \<times> vsched" where
  "exit_pick 0 prev s = Inl Diverged"
| "exit_pick (Suc n) prev s =
     (let s1 = wake_expired s in
      case next_runnable_after s1 prev of
        Some t \<Rightarrow> Inr (t, s1)
      | None \<Rightarrow> sbind (advance_to_next_deadline s1) (exit_pick n prev))"

definition exit_unlink :: "vthread \<Rightarrow> vsched \<Rightarrow> vsched" where
  "exit_unlink self s =
     s\<lparr>exit_log := exit_log s @ map (\<lambda>h. (h, vt_slot self)) (g_thread_exits s),
       g_slot_used := (g_slot_used s)[vt_slot self := False],
       g_rsx_idle := (if g_rsx_idle s = Some (vt_ref self) then None else g_rsx_idle s),
       ring := filter (\<lambda>t. vt_ref t \<noteq> vt_ref self) (ring s),
       g_count := g_count s - 1\<rparr>"

definition exit_handover :: "nat \<Rightarrow> vsched \<Rightarrow> vsched" where
  "exit_handover t s =
     upd_thread t (\<lambda>x. x\<lparr>vt_sem := vt_sem x + 1\<rparr>)
       (s\<lparr>g_cur := Some t, g_switches := g_switches s + 1,
          vsched_budget := BUDGET_PER_LOOK, g_turn_run := 0,
          g_rsx_idle := (if g_rsx_idle s = Some t then None else g_rsx_idle s)\<rparr>)"

definition vsched_exit :: "vsched \<Rightarrow> vdeath + vsched" where
  "vsched_exit s =
     (case Option.bind (g_cur s) (thread_of s) of
        None \<Rightarrow> Inl DriverExit
      | Some self \<Rightarrow>
          if vt_ref self = hd (refs s) then Inl DriverExit
          else sbind (exit_pick SCHEDULE_ROUNDS (ring_prev s (vt_ref self)) (exit_unlink self s))
                 (\<lambda>(t, s1). Inr (exit_handover t s1)))"

section \<open>The clock, giving way, waiting\<close>

definition vsched_now_ns :: "vsched \<Rightarrow> u64" where
  "vsched_now_ns s = g_now s"

definition vsched_advance :: "u64 \<Rightarrow> vsched \<Rightarrow> vsched" where
  "vsched_advance ns s = s\<lparr>g_now := g_now s + ns\<rparr>"

definition vsched_yield :: "u64 \<Rightarrow> vsched \<Rightarrow> vsched" where
  "vsched_yield cost s =
     (case g_cur s of
        None \<Rightarrow> s
      | Some self \<Rightarrow>
          (let s1 = wake_expired (s\<lparr>g_now := g_now s + cost\<rparr>) in
           case next_runnable_after s1 self of
             None \<Rightarrow> s1
           | Some t \<Rightarrow> switch_to InSwitch t s1))"

definition vsched_yield_default :: "vsched \<Rightarrow> vsched" where
  "vsched_yield_default s = vsched_yield YIELD_COST_NS s"

text \<open>The rest of \<open>vsched_wait\<close> once its thread is running again.\<close>

definition wait_tail :: "nat \<Rightarrow> vsched \<Rightarrow> vsched" where
  "wait_tail self s =
     upd_thread self (\<lambda>x. x\<lparr>vt_state := RUNNABLE, vt_items := [], vt_deadline := VSCHED_INFINITE\<rparr>) s"

definition timed_out_of :: "vsched \<Rightarrow> nat \<Rightarrow> bool" where
  "timed_out_of s r = (case thread_of s r of None \<Rightarrow> False | Some x \<Rightarrow> vt_timed_out x)"

definition begin_wait :: "wait_item list \<Rightarrow> u64 \<Rightarrow> nat \<Rightarrow> vsched \<Rightarrow> vsched" where
  "begin_wait items timeout self s =
     (let s1 = s\<lparr>g_wait_seq := g_wait_seq s + 1\<rparr> in
      upd_thread self
        (\<lambda>x. x\<lparr>vt_items := items, vt_timed_out := False, vt_wait_seq := g_wait_seq s1,
               vt_deadline := (if timeout = VSCHED_INFINITE then VSCHED_INFINITE
                               else g_now s + timeout),
               vt_aside_wait := (g_aside s \<noteq> None), vt_state := WAITING\<rparr>) s1)"

text \<open>What a call gives its caller: nothing yet, when it parked, or its result.\<close>

definition vsched_wait ::
  "(u64 \<Rightarrow> u32) \<Rightarrow> wait_item list \<Rightarrow> u64 \<Rightarrow> vsched \<Rightarrow> vdeath + bool option \<times> vsched" where
  "vsched_wait mem items timeout s =
     (case g_cur s of
        None \<Rightarrow> Inr (Some False, s)
      | Some self \<Rightarrow>
          if list_ex (\<lambda>it. read_word mem (wi_addr it) \<noteq> wi_old it) items then Inr (Some False, s)
          else sbind (schedule_away SCHEDULE_ROUNDS self (begin_wait items timeout self s))
                 (\<lambda>s1. if g_cur s1 = Some self
                       then Inr (Some (timed_out_of s1 self), wait_tail self s1)
                       else Inr (None, s1)))"

definition parked_on :: "waddr \<Rightarrow> vthread \<Rightarrow> bool" where
  "parked_on a t \<longleftrightarrow> vt_state t = WAITING \<and> list_ex (\<lambda>it. wi_addr it = a) (vt_items t)"

definition best_waiter :: "waddr \<Rightarrow> vthread list \<Rightarrow> vthread option" where
  "best_waiter a ts =
     fold (\<lambda>t best. if parked_on a t
                     then (case best of
                             None \<Rightarrow> Some t
                           | Some b \<Rightarrow> if vt_wait_seq t < vt_wait_seq b then Some t else best)
                     else best) ts None"

definition notify_one :: "nat \<Rightarrow> vsched \<Rightarrow> vsched" where
  "notify_one r s = upd_thread r (\<lambda>x. x\<lparr>vt_state := RUNNABLE, vt_timed_out := False\<rparr>) s"

lemma best_waiter_in:
  "best_waiter a ts = Some b \<Longrightarrow> b \<in> set ts \<and> parked_on a b"
proof (induction ts arbitrary: b rule: rev_induct)
  case Nil
  then show ?case by (simp add: best_waiter_def)
next
  case (snoc t ts)
  then show ?case
    by (fastforce simp: best_waiter_def split: if_splits option.splits)
qed

function vsched_notify :: "waddr \<Rightarrow> bool \<Rightarrow> vsched \<Rightarrow> vsched" where
  "vsched_notify a all s =
     (case best_waiter a (ring s) of
        None \<Rightarrow> s
      | Some b \<Rightarrow> if all then vsched_notify a all (notify_one (vt_ref b) s)
                  else notify_one (vt_ref b) s)"
  by pat_completeness auto
termination
proof (relation "measure (\<lambda>(a, all, s). length (filter (\<lambda>t. vt_state t = WAITING) (ring s)))", simp)
  fix a :: waddr and all :: bool and s :: vsched and b :: vthread
  assume "best_waiter a (ring s) = Some b"
  then have b: "b \<in> set (ring s)" "vt_state b = WAITING"
    by (auto dest: best_waiter_in simp: parked_on_def)
  have count: "length (filter (\<lambda>t. vt_state t = WAITING)
      (upd_by vt_ref (vt_ref b) (\<lambda>x. x\<lparr>vt_state := RUNNABLE, vt_timed_out := False\<rparr>) ts))
      \<le> length (filter (\<lambda>t. vt_state t = WAITING) ts)" for ts
    by (induction ts) (auto simp: upd_by_def)
  have "length (filter (\<lambda>t. vt_state t = WAITING)
      (upd_by vt_ref (vt_ref b) (\<lambda>x. x\<lparr>vt_state := RUNNABLE, vt_timed_out := False\<rparr>) ts))
      < length (filter (\<lambda>t. vt_state t = WAITING) ts)" if "b \<in> set ts" for ts
    using that
  proof (induction ts)
    case (Cons t ts)
    then show ?case using b(2) count[of ts] by (auto simp: upd_by_def)
  qed simp
  from this[OF b(1)]
  show "((a, all, notify_one (vt_ref b) s), (a, all, s)) \<in>
      measure (\<lambda>(a, all, s). length (filter (\<lambda>t. vt_state t = WAITING) (ring s)))"
    by (simp add: notify_one_def upd_thread_def)
qed

declare vsched_notify.simps [simp del]

definition vsched_sleep :: "u64 \<Rightarrow> vsched \<Rightarrow> vdeath + bool option \<times> vsched" where
  "vsched_sleep ns s = vsched_wait (\<lambda>_. 0) [\<lparr>wi_addr = NobodyWord, wi_old = 0\<rparr>] ns s"

section \<open>Charging for work\<close>

datatype kind = VSCHED_PPU | VSCHED_SPU | VSCHED_RSX

definition vsched_budget_slice :: int where
  "vsched_budget_slice = BUDGET_PER_LOOK"

definition vsched_rsx_idle :: "(u64 \<Rightarrow> u32) \<Rightarrow> u64 \<Rightarrow> vsched \<Rightarrow> vsched" where
  "vsched_rsx_idle mem put s =
     (if g_cur s = None then s
      else vsched_yield YIELD_COST_NS
             (s\<lparr>g_rsx_idle := g_cur s, g_rsx_put := put, g_rsx_put_seen := mem put\<rparr>))"

definition vsched_rsx_step :: "vsched \<Rightarrow> vsched" where
  "vsched_rsx_step s =
     (let s1 = s\<lparr>g_now := g_now s + drop_bit 10 RSX_CMD_NS_Q10, rsx_commands := rsx_commands s + 1\<rparr> in
      if rsx_commands s1 \<ge> RSX_CMDS_PER_SLICE then vsched_yield 0 (s1\<lparr>rsx_commands := 0\<rparr>)
      else s1)"

definition poll_cost :: "kind \<Rightarrow> int \<Rightarrow> u64" where
  "poll_cost k used =
     (let q10 = (if k = VSCHED_PPU then PPU_INSTR_NS_Q10 else SPU_INSTR_NS_Q10);
          cost = (if used > 0 then drop_bit 10 (word_of_int used * q10) else 0)
      in if cost < POLL_YIELD_MIN_NS then POLL_YIELD_MIN_NS else cost)"

definition vsched_poll_yield :: "kind \<Rightarrow> int \<Rightarrow> vsched \<Rightarrow> bool \<times> vsched" where
  "vsched_poll_yield k used s =
     (case g_cur s of
        None \<Rightarrow> (False, s)
      | Some self \<Rightarrow>
          if g_aside s \<noteq> None then (False, s)
          else
            (case next_runnable_after s self of
               None \<Rightarrow> (False, s)
             | Some other \<Rightarrow>
                 if other = self then (False, s)
                 else (True,
                   vsched_yield (poll_cost k used)
                     ((upd_thread self (\<lambda>x. x\<lparr>vt_cpu := True\<rparr>) s)
                        \<lparr>vsched_budget := BUDGET_PER_LOOK, g_turn_run := 0\<rparr>))))"

definition instr_q10 :: "kind \<Rightarrow> u64" where
  "instr_q10 k = (if k = VSCHED_PPU then PPU_INSTR_NS_Q10
                  else if k = VSCHED_SPU then SPU_INSTR_NS_Q10 else RSX_CMD_NS_Q10)"

definition look_cost :: "kind \<Rightarrow> u64" where
  "look_cost k = drop_bit 10 (word_of_int BUDGET_PER_LOOK * instr_q10 k)"

definition rsx_has_work :: "(u64 \<Rightarrow> u32) \<Rightarrow> vsched \<Rightarrow> nat option" where
  "rsx_has_work mem s =
     (case g_rsx_idle s of
        None \<Rightarrow> None
      | Some rsx \<Rightarrow>
          if Some rsx \<noteq> g_cur s \<and> mem (g_rsx_put s) \<noteq> g_rsx_put_seen s \<and> runs s rsx
          then Some rsx else None)"

definition charge_look :: "kind \<Rightarrow> nat \<Rightarrow> vsched \<Rightarrow> vsched" where
  "charge_look k self s =
     (let s1 = (if k = VSCHED_PPU \<or> k = VSCHED_SPU
                then upd_thread self (\<lambda>x. x\<lparr>vt_cpu := True\<rparr>) s else s)
      in s1\<lparr>vsched_budget := BUDGET_PER_LOOK, g_now := g_now s + look_cost k,
            g_turn_run := g_turn_run s + BUDGET_PER_LOOK\<rparr>)"

definition vsched_budget_expired :: "(u64 \<Rightarrow> u32) \<Rightarrow> kind \<Rightarrow> vsched \<Rightarrow> vsched" where
  "vsched_budget_expired mem k s =
     (case g_cur s of
        None \<Rightarrow> s\<lparr>vsched_budget := BUDGET_PER_LOOK\<rparr>
      | Some self \<Rightarrow>
          (let s1 = charge_look k self s in
           case rsx_has_work mem s1 of
             Some rsx \<Rightarrow> switch_to InSwitch rsx (wake_expired s1)
           | None \<Rightarrow>
               if g_turn_run s1 < BUDGET_PER_SLICE then s1
               else vsched_yield 0 (s1\<lparr>g_turn_run := 0\<rparr>)))"

section \<open>Slots, hooks, diagnostics\<close>

definition vsched_slot :: "vsched \<Rightarrow> nat" where
  "vsched_slot s =
     (case Option.bind (g_cur s) (thread_of s) of None \<Rightarrow> 0 | Some t \<Rightarrow> vt_slot t)"

definition vsched_register_slot_reset :: "tls_reset \<Rightarrow> vsched \<Rightarrow> vdeath + vsched" where
  "vsched_register_slot_reset r s =
     (if length (g_slot_resets s) \<ge> 1024 then Inl TooManyResetters
      else Inr (s\<lparr>g_slot_resets := g_slot_resets s @ [r], tls := run_resets [r] 0 (tls s)\<rparr>))"

definition vsched_register_thread_exit :: "nat \<Rightarrow> vsched \<Rightarrow> vdeath + vsched" where
  "vsched_register_thread_exit h s =
     (if length (g_thread_exits s) \<ge> 64 then Inl TooManyExitHooks
      else Inr (s\<lparr>g_thread_exits := g_thread_exits s @ [h]\<rparr>))"

definition vsched_set_leave_hook :: "nat option \<Rightarrow> vsched \<Rightarrow> vsched" where
  "vsched_set_leave_hook h s = s\<lparr>g_leave_hook := h\<rparr>"

text \<open>\<open>CHIMERA_TLS(name)\<close>: the running thread's element of the variable's array.\<close>

definition tls_get :: "nat \<Rightarrow> vsched \<Rightarrow> int" where
  "tls_get v s = tls s v (vsched_slot s)"

definition tls_set :: "nat \<Rightarrow> int \<Rightarrow> vsched \<Rightarrow> vsched" where
  "tls_set v x s = s\<lparr>tls := (tls s)(v := (tls s v)(vsched_slot s := x))\<rparr>"

definition vsched_thread_count :: "vsched \<Rightarrow> nat" where
  "vsched_thread_count s = g_count s"

definition vsched_current_id :: "vsched \<Rightarrow> u32" where
  "vsched_current_id s =
     (case Option.bind (g_cur s) (thread_of s) of None \<Rightarrow> 0 | Some t \<Rightarrow> vt_id t)"

definition vsched_switch_count :: "vsched \<Rightarrow> u64" where
  "vsched_switch_count s = g_switches s"

section \<open>A thread goes on after its \<open>sem_wait\<close>\<close>

text \<open>The code after the three \<open>sem_wait\<close> loops: the check that the baton was not
  duplicated, the FPU state of the thread, and, under \<open>vsched_wait\<close>, the tail of that
  call with its result.\<close>

definition resume :: "nat \<Rightarrow> vsched \<Rightarrow> vdeath + bool option \<times> vsched" where
  "resume r s =
     (case thread_of s r of
        None \<Rightarrow> Inl BatonDuplicated
      | Some t \<Rightarrow>
          if g_cur s \<noteq> Some r then Inl BatonDuplicated
          else
            (let s1 = (upd_thread r (\<lambda>x. x\<lparr>vt_sem := vt_sem x - 1, vt_phase := Running\<rparr>) s)
                        \<lparr>fpu_mxcsr := vt_mxcsr t, fpu_fcw := vt_fcw t\<rparr>
             in if vt_phase t = InWait then Inr (Some (vt_timed_out t), wait_tail r s1)
                else Inr (None, s1)))"

section \<open>What threads do\<close>

text \<open>The calls a thread can make. \<open>CSetFpu\<close> and \<open>CTlsSet\<close> are the thread's own code
  between calls: it changes its rounding mode, or one of its thread-local variables.

  \<open>exec_call\<close> is a call up to its return or to the \<open>sem_wait\<close> it parks in. The check behind
  the \<open>sem_wait\<close> (the baton was not duplicated) is the beginning of the second half of a
  parked call, which is \<open>resume\<close>: it runs when the semaphore has been posted.\<close>

datatype call =
    CCreate nat int
  | CExit
  | CAdvance u64
  | CYield u64
  | CWait "u64 \<Rightarrow> u32" "wait_item list" u64
  | CSleep u64
  | CNotify waddr bool
  | CBudget "u64 \<Rightarrow> u32" kind
  | CPoll kind int
  | CRsxStep
  | CRsxIdle "u64 \<Rightarrow> u32" u64
  | CAsideBegin
  | CAsideEnd
  | CSetLeaveHook "nat option"
  | CRegisterReset tls_reset
  | CRegisterExit nat
  | CTlsSet nat int
  | CSetFpu u32 u16

fun exec_call :: "call \<Rightarrow> vsched \<Rightarrow> vdeath + vsched" where
  "exec_call (CCreate fn rc) s = map_sum id snd (vsched_create fn rc s)"
| "exec_call CExit s = vsched_exit s"
| "exec_call (CAdvance ns) s = Inr (vsched_advance ns s)"
| "exec_call (CYield ns) s = Inr (vsched_yield ns s)"
| "exec_call (CWait mem items timeout) s = map_sum id snd (vsched_wait mem items timeout s)"
| "exec_call (CSleep ns) s = map_sum id snd (vsched_sleep ns s)"
| "exec_call (CNotify a all) s = Inr (vsched_notify a all s)"
| "exec_call (CBudget mem k) s = Inr (vsched_budget_expired mem k s)"
| "exec_call (CPoll k used) s = Inr (snd (vsched_poll_yield k used s))"
| "exec_call CRsxStep s = Inr (vsched_rsx_step s)"
| "exec_call (CRsxIdle mem put) s = Inr (vsched_rsx_idle mem put s)"
| "exec_call CAsideBegin s = Inr (vsched_aside_begin s)"
| "exec_call CAsideEnd s = Inr (snd (vsched_aside_end s))"
| "exec_call (CSetLeaveHook h) s = Inr (vsched_set_leave_hook h s)"
| "exec_call (CRegisterReset r) s = vsched_register_slot_reset r s"
| "exec_call (CRegisterExit h) s = vsched_register_thread_exit h s"
| "exec_call (CTlsSet v x) s = Inr (tls_set v x s)"
| "exec_call (CSetFpu m f) s = Inr (s\<lparr>fpu_mxcsr := m, fpu_fcw := f\<rparr>)"

text \<open>One move of one operating-system thread: a running thread makes a call, or a
  thread in \<open>sem_wait\<close> whose semaphore has been posted goes on.\<close>

inductive vstep :: "vsched \<Rightarrow> vsched \<Rightarrow> bool" where
  call: "thread_of s r = Some t \<Longrightarrow> vt_phase t = Running \<Longrightarrow> exec_call c s = Inr s' \<Longrightarrow> vstep s s'"
| go_on: "thread_of s r = Some t \<Longrightarrow> vt_phase t \<noteq> Running \<Longrightarrow> 0 < vt_sem t \<Longrightarrow>
    resume r s = Inr (res, s') \<Longrightarrow> vstep s s'"

text \<open>The machine before \<open>vsched_init\<close> has only static initialisers, which register
  resetters and exit hooks; then \<open>vsched_init\<close>, then the threads.\<close>

inductive vreach :: "vsched \<Rightarrow> bool" where
  init: "length resets \<le> 1024 \<Longrightarrow> length hooks \<le> 64 \<Longrightarrow>
    vsched_init (vs_static\<lparr>g_slot_resets := resets, g_thread_exits := hooks, tls := m,
                           fpu_mxcsr := mx, fpu_fcw := fc\<rparr>) = Inr s \<Longrightarrow> vreach s"
| step: "vreach s \<Longrightarrow> vstep s s' \<Longrightarrow> vreach s'"

inductive_cases vstepE: "vstep s s'"

end
