(* ===== verification/VschedRing.thy ===== *)
theory VschedRing
  imports VschedOps
begin

text \<open>
  The ring as a cyclic order: \<open>next_runnable_after\<close>, which walks \<open>next\<close> pointers
  \<open>g_count\<close> times, finds the first thread that can run in the order that starts behind
  the given thread and ends with it.
\<close>

definition rot_after :: "'a \<Rightarrow> 'a list \<Rightarrow> 'a list" where
  "rot_after r xs = tl (dropWhile (\<lambda>x. x \<noteq> r) xs) @ takeWhile (\<lambda>x. x \<noteq> r) xs @ [r]"

definition ring_links :: "vsched \<Rightarrow> bool" where
  "ring_links s \<longleftrightarrow> distinct (refs s) \<and> ring s \<noteq> [] \<and> g_count s = length (ring s)
     \<and> (\<forall>t \<in> set (ring s). vt_ref t < next_ref s)"

definition ring_ok :: "vsched \<Rightarrow> bool" where
  "ring_ok s \<longleftrightarrow> ring_links s \<and> (\<exists>c. g_cur s = Some c \<and> c \<in> set (refs s))"

lemma ring_ok_links: "ring_ok s \<Longrightarrow> ring_links s"
  by (simp add: ring_ok_def)

lemma dropWhile_at:
  assumes "distinct xs" "k < length xs"
  shows "dropWhile (\<lambda>x. x \<noteq> xs ! k) xs = drop k xs"
    and "takeWhile (\<lambda>x. x \<noteq> xs ! k) xs = take k xs"
proof -
  have "takeWhile (\<lambda>x. x \<noteq> xs ! k) xs = take k xs"
    using assms by (intro takeWhile_eq_take_P_nth) (auto simp: nth_eq_iff_index_eq)
  moreover from this have "length (takeWhile (\<lambda>x. x \<noteq> xs ! k) xs) = k"
    using assms(2) by simp
  ultimately show "takeWhile (\<lambda>x. x \<noteq> xs ! k) xs = take k xs"
    and "dropWhile (\<lambda>x. x \<noteq> xs ! k) xs = drop k xs"
    by (simp_all add: dropWhile_eq_drop)
qed

lemma rot_after_nth:
  assumes "distinct xs" "k < length xs"
  shows "rot_after (xs ! k) xs = drop (Suc k) xs @ take (Suc k) xs"
  using assms by (simp add: rot_after_def dropWhile_at take_Suc_conv_app_nth tl_drop drop_Suc)

lemma rot_after_rotate:
  assumes "distinct xs" "k < length xs"
  shows "rot_after (xs ! k) xs = rotate (Suc k) xs"
proof (cases "Suc k = length xs")
  case True
  then show ?thesis using assms
    by (simp add: rot_after_nth rotate_drop_take)
next
  case False
  then show ?thesis using assms by (simp add: rot_after_nth rotate_drop_take)
qed

lemma set_rot_after: "distinct xs \<Longrightarrow> r \<in> set xs \<Longrightarrow> set (rot_after r xs) = set xs"
  by (auto simp: in_set_conv_nth rot_after_rotate)

lemma ring_next_nth:
  assumes "distinct (refs s)" "k < length (ring s)"
  shows "ring_next s (refs s ! k) = refs s ! (Suc k mod length (ring s))"
proof -
  let ?xs = "refs s"
  have k: "k < length ?xs" using assms(2) by simp
  have d: "dropWhile (\<lambda>x. x \<noteq> ?xs ! k) ?xs = drop k ?xs"
    by (rule dropWhile_at(1)[OF assms(1) k])
  show ?thesis
  proof (cases "Suc k < length ?xs")
    case True
    then have "drop k ?xs = ?xs ! k # ?xs ! Suc k # drop (Suc (Suc k)) ?xs"
      using k by (metis Cons_nth_drop_Suc)
    with True d show ?thesis by (simp add: ring_next_def)
  next
    case False
    then have e: "Suc k = length ?xs" using k by simp
    then have "drop k ?xs = [?xs ! k]"
      using k by (metis Cons_nth_drop_Suc drop_all order_refl)
    moreover have "hd ?xs = ?xs ! 0" using k by (intro hd_conv_nth) auto
    ultimately show ?thesis using d e by (simp add: ring_next_def)
  qed
qed

lemma next_loop_find:
  assumes "distinct (refs s)" "ring s \<noteq> []"
  shows "next_loop m s (refs s ! (j mod length (ring s))) =
    find (runs s) (map (\<lambda>i. refs s ! ((j + i) mod length (ring s))) [0..<m])"
proof (induction m arbitrary: j)
  case 0
  then show ?case by simp
next
  case (Suc m)
  have n: "0 < length (ring s)" using assms(2) by simp
  have m: "map (\<lambda>i. refs s ! ((j + i) mod length (ring s))) [0..<Suc m] =
      refs s ! (j mod length (ring s)) #
      map (\<lambda>i. refs s ! ((Suc j + i) mod length (ring s))) [0..<m]"
    by (simp only: map_upt_Suc add_0_right add_Suc add_Suc_right)
  have r: "ring_next s (refs s ! (j mod length (ring s))) = refs s ! (Suc j mod length (ring s))"
    using ring_next_nth[OF assms(1), of "j mod length (ring s)"] n by (simp only: mod_Suc_eq mod_less_divisor)
  show ?case unfolding m next_loop.simps r Suc.IH[of "Suc j"] by simp
qed

lemma next_runnable_after_find:
  assumes ok: "ring_links s" and r: "r \<in> set (refs s)"
  shows "next_runnable_after s r = find (runs s) (rot_after r (refs s))"
proof -
  from ok have d: "distinct (refs s)" and ne: "ring s \<noteq> []" and c: "g_count s = length (ring s)"
    by (auto simp: ring_links_def)
  from r obtain k where k: "k < length (ring s)" "r = refs s ! k"
    by (metis in_set_conv_nth length_map)
  have "next_runnable_after s r = next_loop (length (ring s)) s (refs s ! (Suc k mod length (ring s)))"
    unfolding next_runnable_after_def c k(2) ring_next_nth[OF d k(1)] ..
  also have "\<dots> = find (runs s)
      (map (\<lambda>i. refs s ! ((Suc k + i) mod length (ring s))) [0..<length (ring s)])"
    by (rule next_loop_find[OF d ne])
  also have "map (\<lambda>i. refs s ! ((Suc k + i) mod length (ring s))) [0..<length (ring s)] =
      rotate (Suc k) (refs s)"
    by (rule nth_equalityI) (simp_all add: nth_rotate del: upt_Suc rotate_Suc)
  also have "\<dots> = rot_after r (refs s)"
    using rot_after_rotate[OF d, of k] k by (simp only: length_map)
  finally show ?thesis .
qed

lemma next_runnable_runs:
  "next_runnable_after s r = Some t \<Longrightarrow> runs s t"
proof -
  have "next_loop n s x = Some t \<Longrightarrow> runs s t" for n x
    by (induction n arbitrary: x) (auto split: if_splits)
  then show "next_runnable_after s r = Some t \<Longrightarrow> runs s t"
    by (simp add: next_runnable_after_def)
qed

lemma runs_in_ring: "runs s r \<Longrightarrow> r \<in> set (refs s)"
  by (auto simp: runs_def thread_of_def dest: find_by_SomeD split: option.splits)

lemma next_runnable_ex:
  assumes "ring_links s" "r \<in> set (refs s)" "runs s x"
  shows "\<exists>t. next_runnable_after s r = Some t"
proof -
  from runs_in_ring[OF assms(3)] assms(1,2) have "x \<in> set (rot_after r (refs s))"
    by (simp add: set_rot_after ring_links_def)
  with assms show ?thesis
    by (cases "find (runs s) (rot_after r (refs s))")
      (auto simp: next_runnable_after_find find_None_iff)
qed

lemma next_runnable_None:
  assumes "ring_links s" "r \<in> set (refs s)" "next_runnable_after s r = None"
  shows "\<not> runs s x"
  using next_runnable_ex[OF assms(1,2)] assms(3) by force

end
