(* ===== verification/VschedInv.thy ===== *)
theory VschedInv
  imports VschedRing
begin

text \<open>
  The scheduler's invariant and its preservation by every call and every resumption.
  \<^item> \<open>ring_ok\<close> (from \<open>VschedRing\<close>): the list is well linked, counted by \<open>g_count\<close>, and
    holds the current thread;
  \<^item> \<open>slots_ok\<close>: the slots taken are exactly those of the threads, one each;
  \<^item> \<open>baton_ok\<close>: the current thread is either running or has its semaphore posted once,
    and every other thread is stopped with its semaphore at zero;
  \<^item> \<open>state_ok\<close>: what the threads' states say agrees with where their code stands.
\<close>

section \<open>The invariant\<close>

definition slots_ok :: "vsched \<Rightarrow> bool" where
  "slots_ok s \<longleftrightarrow> distinct (map vt_slot (ring s)) \<and> length (g_slot_used s) = VSCHED_SLOTS
     \<and> (\<forall>t \<in> set (ring s). vt_slot t < VSCHED_SLOTS)
     \<and> (\<forall>i < VSCHED_SLOTS. g_slot_used s ! i = (i \<in> vt_slot ` set (ring s)))"

definition baton_thread :: "nat option \<Rightarrow> vthread \<Rightarrow> bool" where
  "baton_thread cur t \<longleftrightarrow>
     (if cur = Some (vt_ref t) then vt_sem t = (if vt_phase t = Running then 0 else 1)
      else vt_sem t = 0 \<and> vt_phase t \<noteq> Running)"

definition baton_ok :: "vsched \<Rightarrow> bool" where
  "baton_ok s \<longleftrightarrow> (\<forall>t \<in> set (ring s). baton_thread (g_cur s) t)"

definition thread_ok :: "vsched \<Rightarrow> vthread \<Rightarrow> bool" where
  "thread_ok s t \<longleftrightarrow> vt_state t \<noteq> DEAD
     \<and> (vt_state t = WAITING \<and> g_cur s \<noteq> Some (vt_ref t) \<longrightarrow> vt_phase t = InWait)
     \<and> (g_aside s \<noteq> None \<and> (vt_aside_wait t \<or> g_cur s = Some (vt_ref t)) \<longrightarrow> \<not> vt_held t)"

definition state_ok :: "vsched \<Rightarrow> bool" where
  "state_ok s \<longleftrightarrow> (\<forall>t \<in> set (ring s). thread_ok s t)"

definition cur_runs :: "vsched \<Rightarrow> bool" where
  "cur_runs s \<longleftrightarrow> (\<exists>c. g_cur s = Some c \<and> runs s c)"

definition mid_inv :: "vsched \<Rightarrow> bool" where
  "mid_inv s \<longleftrightarrow> ring_ok s \<and> slots_ok s \<and> baton_ok s \<and> state_ok s"

definition vs_inv :: "vsched \<Rightarrow> bool" where
  "vs_inv s \<longleftrightarrow> mid_inv s \<and> cur_runs s"

definition cur_running :: "vsched \<Rightarrow> bool" where
  "cur_running s \<longleftrightarrow>
     (\<exists>c t. g_cur s = Some c \<and> thread_of s c = Some t \<and> vt_phase t = Running)"

section \<open>What an operation that only touches waiting and timing leaves alone\<close>

definition shape :: "vthread \<Rightarrow> nat \<times> phase \<times> nat \<times> nat" where
  "shape t = (vt_ref t, vt_phase t, vt_sem t, vt_slot t)"

definition same_frame :: "vsched \<Rightarrow> vsched \<Rightarrow> bool" where
  "same_frame s s' \<longleftrightarrow> map shape (ring s') = map shape (ring s) \<and> g_cur s' = g_cur s
     \<and> next_ref s' = next_ref s \<and> g_count s' = g_count s \<and> g_slot_used s' = g_slot_used s"

lemma same_frame_refl [simp]: "same_frame s s"
  by (simp add: same_frame_def)

lemma same_frame_trans: "same_frame s s' \<Longrightarrow> same_frame s' s'' \<Longrightarrow> same_frame s s''"
  by (simp add: same_frame_def)

lemma shape_list:
  assumes "map shape ts' = map shape ts"
  shows "map vt_ref ts' = map vt_ref ts" "map vt_slot ts' = map vt_slot ts"
    and "length ts' = length ts"
    and "(\<forall>t \<in> set ts'. P (vt_ref t) (vt_phase t) (vt_sem t) (vt_slot t)) =
         (\<forall>t \<in> set ts. P (vt_ref t) (vt_phase t) (vt_sem t) (vt_slot t))"
proof -
  have "map fst (map shape ts') = map fst (map shape ts)"
    "map (snd \<circ> snd \<circ> snd) (map shape ts') = map (snd \<circ> snd \<circ> snd) (map shape ts)"
    using assms by simp_all
  then show "map vt_ref ts' = map vt_ref ts" "map vt_slot ts' = map vt_slot ts"
    by (simp_all add: shape_def comp_def)
  show "length ts' = length ts" using assms map_eq_imp_length_eq by blast
  have "set (map shape ts') = set (map shape ts)" using assms by simp
  then have "(\<forall>(r, p, m, l) \<in> set (map shape ts'). P r p m l) =
      (\<forall>(r, p, m, l) \<in> set (map shape ts). P r p m l)" by (simp only:)
  then show "(\<forall>t \<in> set ts'. P (vt_ref t) (vt_phase t) (vt_sem t) (vt_slot t)) =
         (\<forall>t \<in> set ts. P (vt_ref t) (vt_phase t) (vt_sem t) (vt_slot t))"
    by (simp add: shape_def)
qed

lemma same_frame_refs: "same_frame s s' \<Longrightarrow> refs s' = refs s"
  unfolding same_frame_def by (blast intro: shape_list(1))

lemma same_frame_links:
  assumes "same_frame s s'" shows "ring_links s' = ring_links s"
proof -
  from assms have m: "map shape (ring s') = map shape (ring s)"
    and eqs: "g_cur s' = g_cur s" "next_ref s' = next_ref s" "g_count s' = g_count s"
    by (simp_all add: same_frame_def)
  have len: "length (ring s') = length (ring s)" by (rule shape_list(3)[OF m])
  then have ne: "(ring s' \<noteq> []) = (ring s \<noteq> [])" by (metis length_0_conv)
  have lt: "(\<forall>t \<in> set (ring s'). vt_ref t < next_ref s) = (\<forall>t \<in> set (ring s). vt_ref t < next_ref s)"
    by (rule shape_list(4)[OF m, of "\<lambda>r _ _ _. r < next_ref s"])
  show ?thesis
    unfolding ring_links_def eqs same_frame_refs[OF assms] ne lt len ..
qed

lemma same_frame_ring_ok:
  assumes "same_frame s s'" shows "ring_ok s' = ring_ok s"
  using assms by (simp add: ring_ok_def same_frame_links same_frame_refs) (simp add: same_frame_def)

lemma same_frame_slots_ok:
  assumes "same_frame s s'"
  shows "slots_ok s' = slots_ok s"
proof -
  from assms have m: "map shape (ring s') = map shape (ring s)"
    and g: "g_slot_used s' = g_slot_used s"
    by (simp_all add: same_frame_def)
  have "set (map vt_slot (ring s')) = set (map vt_slot (ring s))"
    using shape_list(2)[OF m] by simp
  then have "vt_slot ` set (ring s') = vt_slot ` set (ring s)" by simp
  then show ?thesis
    using shape_list(2)[OF m] shape_list(4)[OF m, of "\<lambda>_ _ _ l. l < VSCHED_SLOTS"]
    by (simp add: slots_ok_def g)
qed

lemma same_frame_baton_ok:
  assumes "same_frame s s'"
  shows "baton_ok s' = baton_ok s"
proof -
  from assms have m: "map shape (ring s') = map shape (ring s)" and g: "g_cur s' = g_cur s"
    by (simp_all add: same_frame_def)
  show ?thesis
    unfolding baton_ok_def baton_thread_def g
    by (rule shape_list(4)[OF m, of "\<lambda>r p m _. if g_cur s = Some r
        then m = (if p = Running then 0 else 1) else m = 0 \<and> p \<noteq> Running"])
qed

lemma same_frame_mid_inv:
  "same_frame s s' \<Longrightarrow> mid_inv s \<Longrightarrow> state_ok s' \<Longrightarrow> mid_inv s'"
  by (simp add: mid_inv_def same_frame_ring_ok same_frame_slots_ok same_frame_baton_ok)

lemma map_frame:
  assumes "\<And>t. shape (f t) = shape t"
  shows "map shape (map f ts) = map shape ts"
  using assms by simp

lemma upd_frame:
  assumes "\<And>t. shape (f t) = shape t"
  shows "same_frame s (upd_thread r f s)"
  using assms by (simp add: same_frame_def upd_thread_def map_upd_by)

lemma thread_of_upd:
  assumes "\<And>t. vt_ref (f t) = vt_ref t"
  shows "thread_of (upd_thread r f s) x = (if x = r then map_option f (thread_of s x) else thread_of s x)"
  using assms by (simp add: thread_of_def upd_thread_def find_by_upd_by)

lemma thread_of_in: "thread_of s r = Some t \<Longrightarrow> t \<in> set (ring s) \<and> vt_ref t = r"
  by (auto simp: thread_of_def dest: find_by_SomeD)

lemma thread_of_iff: "ring_links s \<Longrightarrow> thread_of s r = Some t \<longleftrightarrow> t \<in> set (ring s) \<and> vt_ref t = r"
  by (simp add: thread_of_def ring_links_def find_by_Some_iff)

lemma thread_of_cur: "ring_ok s \<Longrightarrow> g_cur s = Some c \<Longrightarrow> \<exists>t. thread_of s c = Some t"
  unfolding thread_of_def by (rule find_by_ex) (auto simp: ring_ok_def)

lemma upd_thread_fields [simp]:
  "g_cur (upd_thread r f s) = g_cur s" "g_now (upd_thread r f s) = g_now s"
  "g_aside (upd_thread r f s) = g_aside s" "g_count (upd_thread r f s) = g_count s"
  "next_ref (upd_thread r f s) = next_ref s" "g_slot_used (upd_thread r f s) = g_slot_used s"
  "g_rsx_idle (upd_thread r f s) = g_rsx_idle s" "g_leave_hook (upd_thread r f s) = g_leave_hook s"
  "ring (upd_thread r f s) = upd_by vt_ref r f (ring s)"
  by (simp_all add: upd_thread_def)

lemma runs_upd:
  assumes "\<And>t. vt_ref (f t) = vt_ref t"
    and "\<And>t. thread_of s r = Some t \<Longrightarrow> x = r \<Longrightarrow> can_run s t \<Longrightarrow> can_run s (f t)"
    and "runs s x"
  shows "runs (upd_thread r f s) x"
  using assms by (auto simp: runs_def thread_of_upd can_run_def split: option.splits)

section \<open>Waking and closing the aside\<close>

lemma shape_aside_release [simp]: "shape (aside_release now st t) = shape t"
  by (simp add: aside_release_def shape_def Let_def)

lemma aside_release_fields [simp]:
  "vt_ref (aside_release now st t) = vt_ref t"
  "vt_state (aside_release now st t) = vt_state t"
  "vt_phase (aside_release now st t) = vt_phase t"
  "vt_held (aside_release now st t) = False"
  "vt_aside_wait (aside_release now st t) = False"
  by (simp_all add: aside_release_def Let_def)

lemma aside_close_frame: "same_frame s (aside_close b s)"
  by (simp add: aside_close_def same_frame_def)

lemma aside_close_aside [simp]: "g_aside (aside_close b s) = None"
  by (simp add: aside_close_def)

lemma aside_close_state_ok: "state_ok s \<Longrightarrow> state_ok (aside_close b s)"
  by (auto simp: aside_close_def state_ok_def thread_ok_def)

lemma aside_close_runs: "runs s x \<Longrightarrow> runs (aside_close b s) x"
  by (auto simp: aside_close_def runs_def thread_of_def find_by_map can_run_def split: option.splits)

definition wake1 :: "vsched \<Rightarrow> vthread \<Rightarrow> vthread" where
  "wake1 s t = (if wakes s t then t\<lparr>vt_state := RUNNABLE, vt_timed_out := True\<rparr> else t)"

definition overdue_closed :: "vsched \<Rightarrow> vsched" where
  "overdue_closed s = (if aside_overdue s then aside_close True s else s)"

lemma wake_expired_alt:
  "wake_expired s = (overdue_closed s)\<lparr>ring := map (wake1 (overdue_closed s)) (ring (overdue_closed s))\<rparr>"
  by (simp add: wake_expired_def wake1_def overdue_closed_def Let_def)

lemma wake1_fields [simp]:
  "vt_ref (wake1 s t) = vt_ref t" "shape (wake1 s t) = shape t" "vt_phase (wake1 s t) = vt_phase t"
  "vt_held (wake1 s t) = vt_held t" "vt_aside_wait (wake1 s t) = vt_aside_wait t"
  "vt_state (wake1 s t) = (if wakes s t then RUNNABLE else vt_state t)"
  by (simp_all add: wake1_def shape_def)

lemma wake_expired_frame: "same_frame s (wake_expired s)"
proof -
  have "same_frame s (overdue_closed s)" by (simp add: overdue_closed_def aside_close_frame)
  moreover have "same_frame (overdue_closed s) (wake_expired s)"
    by (simp add: same_frame_def wake_expired_alt)
  ultimately show ?thesis by (rule same_frame_trans)
qed

lemma wake_expired_state_ok:
  assumes "state_ok s" shows "state_ok (wake_expired s)"
proof -
  have "state_ok (overdue_closed s)"
    using assms by (simp add: overdue_closed_def aside_close_state_ok)
  then show ?thesis by (auto simp: wake_expired_alt state_ok_def thread_ok_def)
qed

lemma wake_expired_runs:
  assumes "runs s x" shows "runs (wake_expired s) x"
proof -
  have "runs (overdue_closed s) x"
    using assms by (simp add: overdue_closed_def aside_close_runs)
  then show ?thesis
    by (auto simp: wake_expired_alt runs_def thread_of_def find_by_map can_run_def split: option.splits)
qed

lemma wake_expired_mid_inv: "mid_inv s \<Longrightarrow> mid_inv (wake_expired s)"
  by (rule same_frame_mid_inv[OF wake_expired_frame]) (auto simp: mid_inv_def wake_expired_state_ok)

lemma wake_expired_cur [simp]: "g_cur (wake_expired s) = g_cur s"
  using wake_expired_frame[of s] by (simp add: same_frame_def)

lemma same_frame_cur_running:
  assumes "same_frame s s'" "ring_ok s" "cur_running s"
  shows "cur_running s'"
proof -
  from assms(3) obtain c t where c: "g_cur s = Some c" "thread_of s c = Some t" "vt_phase t = Running"
    by (auto simp: cur_running_def)
  have "\<exists>t' \<in> set (ring s'). vt_ref t' = c \<and> vt_phase t' = Running"
  proof -
    have "shape t \<in> set (map shape (ring s'))"
      using assms(1) thread_of_in[OF c(2)] by (simp add: same_frame_def)
    then show ?thesis using c thread_of_in[OF c(2)] by (auto simp: shape_def)
  qed
  moreover have "ring_ok s'" using assms by (simp add: same_frame_ring_ok)
  moreover have "g_cur s' = Some c" using assms(1) c by (simp add: same_frame_def)
  ultimately show ?thesis by (auto simp: cur_running_def thread_of_iff ring_ok_links)
qed

end
