(* ===== verification/VschedPick.thy ===== *)
theory VschedPick
  imports VschedSafety
begin

text \<open>
  The two loops that look for a thread to run, \<open>schedule_away\<close> and the one in
  \<open>vsched_exit\<close>: the thread they settle on can run, they leave the invariant alone, and
  three rounds are always enough for them to settle or to find that every thread waits
  for good.
\<close>

section \<open>One round\<close>

lemma state_ok_clock [simp]: "state_ok (s\<lparr>g_now := n\<rparr>) = state_ok s"
  by (simp add: state_ok_def thread_ok_def)

lemma same_frame_clock [simp]: "same_frame s (s\<lparr>g_now := n\<rparr>)"
  by (simp add: same_frame_def)

lemma runs_clock [simp]: "runs (s\<lparr>g_now := n\<rparr>) x = runs s x"
  by (auto simp: runs_def thread_of_def can_run_def split: option.splits)

definition advanced :: "vsched \<Rightarrow> vsched" where
  "advanced s = (if best_deadline s > g_now s then s\<lparr>g_now := best_deadline s\<rparr> else s)"

lemma advance_cases:
  assumes "advance_to_next_deadline s = Inr s'"
  obtains (closed) "best_deadline s = VSCHED_INFINITE" "g_aside s \<noteq> None"
      "s' = wake_expired (aside_close True s)"
    | (jumped) "best_deadline s \<noteq> VSCHED_INFINITE" "s' = wake_expired (advanced s)"
  using assms by (auto simp: advance_to_next_deadline_def Let_def advanced_def split: if_splits)

lemma advance_frame:
  assumes "advance_to_next_deadline s = Inr s'"
  shows "same_frame s s'" and "state_ok s \<Longrightarrow> state_ok s'"
  using assms
  by (cases rule: advance_cases;
      auto simp: advanced_def intro: same_frame_trans wake_expired_frame aside_close_frame
        wake_expired_state_ok aside_close_state_ok same_frame_trans[OF same_frame_clock])+

lemma aside_cleared:
  "g_aside s = None \<Longrightarrow> g_aside (wake_expired s) = None"
  by (simp add: wake_expired_def Let_def aside_overdue_def)

lemma can_run_woken:
  assumes "t \<in> set (ring s)" "ring_links s" "state_ok s" "timed_waiter s t"
    "vt_deadline t \<le> g_now s" "vt_deadline t \<noteq> VSCHED_INFINITE"
  shows "runs (wake_expired s) (vt_ref t)"
proof -
  let ?u = "overdue_closed s"
  define t' where "t' = (if aside_overdue s then aside_release (g_now s) (g_aside_then s) t else t)"
  have t': "t' \<in> set (ring ?u)" "vt_ref t' = vt_ref t"
    using assms(1) by (auto simp: t'_def overdue_closed_def aside_close_def aside_overdue_def)
  have w: "wakes ?u t'"
  proof (cases "aside_overdue s")
    case True
    then have "g_aside s \<noteq> None" by (simp add: aside_overdue_def)
    with True assms(4-6) show ?thesis
      by (auto simp: t'_def overdue_closed_def wakes_def aside_close_def timed_waiter_def
          aside_release_def Let_def)
  next
    case False
    with assms(4,5) show ?thesis
      by (simp add: t'_def overdue_closed_def wakes_def timed_waiter_def)
  qed
  have h: "\<not> (g_aside ?u \<noteq> None \<and> vt_held t')"
    using assms(1,3,4)
    by (auto simp: overdue_closed_def t'_def state_ok_def thread_ok_def timed_waiter_def)
  have "ring_links ?u"
    using same_frame_links[OF aside_close_frame] assms(2) by (simp add: overdue_closed_def)
  then have "thread_of ?u (vt_ref t) = Some t'" using t' by (simp add: thread_of_iff)
  then show ?thesis
    using w h by (simp add: wake_expired_alt runs_def thread_of_def find_by_map can_run_def)
qed

lemma advance_progress:
  assumes "ring_links s" "state_ok s" "advance_to_next_deadline s = Inr s'"
  shows "(\<exists>x. runs s' x) \<or> g_aside s \<noteq> None \<and> g_aside s' = None"
  using assms(3)
proof (cases rule: advance_cases)
  case closed
  then show ?thesis by (simp add: aside_cleared)
next
  case jumped
  from jumped(1) best_deadline_attained[of s] obtain t where
    t: "t \<in> set (ring s)" "timed_waiter s t" "vt_deadline t = best_deadline s" by auto
  have "runs (wake_expired (advanced s)) (vt_ref t)"
  proof (rule can_run_woken)
    show "t \<in> set (ring (advanced s))" using t by (simp add: advanced_def)
    show "ring_links (advanced s)" using assms(1) by (simp add: advanced_def ring_links_def)
    show "state_ok (advanced s)" using assms(2) by (simp add: advanced_def)
    show "timed_waiter (advanced s) t" using t by (simp add: advanced_def timed_waiter_def)
    show "vt_deadline t \<le> g_now (advanced s)" using t by (simp add: advanced_def not_less)
    show "vt_deadline t \<noteq> VSCHED_INFINITE" using t jumped(1) by simp
  qed
  with jumped(2) show ?thesis by blast
qed

section \<open>The loop\<close>

lemma exit_pick_inv:
  assumes "exit_pick n r s = Inr (t, s1)" "state_ok s"
  shows "same_frame s s1 \<and> state_ok s1 \<and> runs s1 t"
  using assms
proof (induction n arbitrary: s)
  case 0
  then show ?case by simp
next
  case (Suc n)
  let ?w = "wake_expired s"
  have w: "same_frame s ?w" "state_ok ?w"
    using Suc.prems(2) by (simp_all add: wake_expired_frame wake_expired_state_ok)
  show ?case
  proof (cases "next_runnable_after ?w r")
    case None
    with Suc.prems(1) obtain s2 where s2: "advance_to_next_deadline ?w = Inr s2"
      and "exit_pick n r s2 = Inr (t, s1)"
      by (auto simp: Let_def sbind_eq_Inr)
    with Suc.IH advance_frame[OF s2] w show ?thesis by (blast intro: same_frame_trans)
  next
    case (Some x)
    with Suc.prems(1) w show ?thesis by (auto simp: Let_def dest: next_runnable_runs)
  qed
qed

lemma exit_pick_found:
  assumes "ring_links s" "r \<in> set (refs s)" "runs s x"
  shows "exit_pick (Suc n) r s \<noteq> Inl Diverged"
proof -
  have "ring_links (wake_expired s)" "r \<in> set (refs (wake_expired s))"
    using assms same_frame_links[OF wake_expired_frame] same_frame_refs[OF wake_expired_frame]
    by simp_all
  from next_runnable_ex[OF this wake_expired_runs[OF assms(3)]] show ?thesis
    by (auto simp: Let_def)
qed

lemma advance_not_diverged: "advance_to_next_deadline s \<noteq> Inl Diverged"
  by (simp add: advance_to_next_deadline_def Let_def)

lemma exit_pick_step:
  assumes "ring_links s" "state_ok s" "r \<in> set (refs s)"
    and next_round: "\<And>s2. ring_links s2 \<Longrightarrow> state_ok s2 \<Longrightarrow> r \<in> set (refs s2) \<Longrightarrow>
      (\<exists>x. runs s2 x) \<or> (g_aside s \<noteq> None \<and> g_aside s2 = None) \<Longrightarrow> exit_pick n r s2 \<noteq> Inl Diverged"
  shows "exit_pick (Suc n) r s \<noteq> Inl Diverged"
proof -
  let ?w = "wake_expired s"
  have w: "ring_links ?w" "state_ok ?w" "r \<in> set (refs ?w)"
    using assms same_frame_links[OF wake_expired_frame] same_frame_refs[OF wake_expired_frame]
    by (simp_all add: wake_expired_state_ok)
  have "sbind (advance_to_next_deadline ?w) (exit_pick n r) \<noteq> Inl Diverged"
  proof (cases "advance_to_next_deadline ?w")
    case (Inl e)
    then show ?thesis using advance_not_diverged[of ?w] by auto
  next
    case (Inr s2)
    have "(\<exists>x. runs s2 x) \<or> (g_aside s \<noteq> None \<and> g_aside s2 = None)"
      using advance_progress[OF w(1,2) Inr] aside_cleared[of s] by auto
    moreover have "ring_links s2" "state_ok s2" "r \<in> set (refs s2)"
      using advance_frame[OF Inr] w same_frame_links same_frame_refs by auto
    ultimately show ?thesis using next_round Inr by simp
  qed
  then show ?thesis by (auto simp: Let_def split: option.splits)
qed

lemma exit_pick_total:
  assumes "ring_links s" "state_ok s" "r \<in> set (refs s)"
  shows "exit_pick SCHEDULE_ROUNDS r s \<noteq> Inl Diverged"
proof -
  have two: "exit_pick (Suc (Suc n)) r s2 \<noteq> Inl Diverged"
    if "ring_links s2" "state_ok s2" "r \<in> set (refs s2)" "g_aside s2 = None" for n s2
    by (rule exit_pick_step[OF that(1-3)]) (use that(4) exit_pick_found in blast)
  have "exit_pick (Suc (Suc (Suc 0))) r s \<noteq> Inl Diverged"
    by (rule exit_pick_step[OF assms]) (use two exit_pick_found in blast)
  then show ?thesis by (simp add: SCHEDULE_ROUNDS_def numeral_3_eq_3 del: exit_pick.simps)
qed

text \<open>\<open>schedule_away\<close> is that loop from the current thread, which it cannot find
  runnable again except as the thread it picks.\<close>

lemma schedule_away_pick:
  assumes "mid_inv s" "g_cur s = Some self"
  shows "schedule_away n self s = map_sum id (\<lambda>(t, s1). switch_to InWait t s1) (exit_pick n self s)"
  using assms
proof (induction n arbitrary: s)
  case 0
  then show ?case by simp
next
  case (Suc n)
  let ?w = "wake_expired s"
  have w: "mid_inv ?w" "g_cur ?w = Some self" using Suc.prems by (simp_all add: wake_expired_mid_inv)
  then have ok: "ring_ok ?w" "state_ok ?w" by (auto simp: mid_inv_def)
  then have mem: "self \<in> set (refs ?w)" using w(2) by (auto simp: ring_ok_def)
  show ?case
  proof (cases "next_runnable_after ?w self")
    case None
    then have nr: "\<not> runs ?w self" by (rule next_runnable_None[OF ring_ok_links[OF ok(1)] mem])
    obtain x where x: "thread_of ?w self = Some x" using thread_of_cur[OF ok(1) w(2)] by blast
    then have "thread_ok ?w x" using ok(2) thread_of_in[OF x] by (simp add: state_ok_def)
    then have "vt_state x \<noteq> RUNNABLE"
      using nr x thread_of_in[OF x] w(2) by (auto simp: runs_def can_run_def thread_ok_def)
    then have "schedule_away (Suc n) self s = sbind (advance_to_next_deadline ?w) (schedule_away n self)"
      using None x by (simp add: Let_def)
    also have "\<dots> = sbind (advance_to_next_deadline ?w)
        (\<lambda>s2. map_sum id (\<lambda>(t, s1). switch_to InWait t s1) (exit_pick n self s2))"
    proof (cases "advance_to_next_deadline ?w")
      case (Inr s2)
      note fr = advance_frame[OF Inr]
      have "mid_inv s2" using same_frame_mid_inv[OF fr(1) w(1)] fr(2) ok(2) by blast
      moreover have "g_cur s2 = Some self" using fr(1) w(2) by (simp add: same_frame_def)
      ultimately have "schedule_away n self s2 =
          map_sum id (\<lambda>(t, s1). switch_to InWait t s1) (exit_pick n self s2)" by (rule Suc.IH)
      then show ?thesis by (simp only: Inr sbind_simps)
    qed simp
    also have "\<dots> = map_sum id (\<lambda>(t, s1). switch_to InWait t s1)
        (sbind (advance_to_next_deadline ?w) (exit_pick n self))"
      by (cases "advance_to_next_deadline ?w") simp_all
    also have "sbind (advance_to_next_deadline ?w) (exit_pick n self) = exit_pick (Suc n) self s"
      using None by (simp add: Let_def)
    finally show ?thesis .
  next
    case (Some t)
    then show ?thesis by (simp add: Let_def)
  qed
qed

lemma schedule_away_total:
  assumes "mid_inv s" "g_cur s = Some self"
  shows "schedule_away SCHEDULE_ROUNDS self s \<noteq> Inl Diverged"
proof -
  from assms have "ring_links s" "state_ok s" "self \<in> set (refs s)"
    by (auto simp: mid_inv_def ring_ok_def)
  from exit_pick_total[OF this] show ?thesis
    unfolding schedule_away_pick[OF assms]
    by (cases "exit_pick SCHEDULE_ROUNDS self s") auto
qed

lemma schedule_away_inv:
  assumes "mid_inv s" "g_cur s = Some self" "cur_running s"
    and "schedule_away n self s = Inr s'"
  shows "vs_inv s'"
proof -
  from assms obtain t s1 where p: "exit_pick n self s = Inr (t, s1)" "s' = switch_to InWait t s1"
    by (cases "exit_pick n self s") (auto simp: schedule_away_pick)
  have "state_ok s" using assms(1) by (simp add: mid_inv_def)
  from exit_pick_inv[OF p(1) this] have f: "same_frame s s1" "state_ok s1" "runs s1 t" by auto
  have "mid_inv s1" using same_frame_mid_inv[OF f(1) assms(1) f(2)] .
  moreover have "g_cur s1 = Some self" using f(1) assms(2) by (simp add: same_frame_def)
  moreover have "cur_running s1"
    using same_frame_cur_running[OF f(1) _ assms(3)] assms(1) by (simp add: mid_inv_def)
  ultimately show ?thesis unfolding p(2) by (intro switch_to_inv) (auto intro: f(3))
qed

end
