(* ===== verification/VschedCalls.thy ===== *)
theory VschedCalls
  imports VschedPick
begin

text \<open>
  The invariant is kept by every call and by a thread going on after its \<open>sem_wait\<close>;
  it holds of every reachable state.
\<close>

named_theorems vs_keep \<open>operations that keep the scheduler's invariant\<close>

lemma vs_invI: "mid_inv s \<Longrightarrow> g_cur s = Some c \<Longrightarrow> runs s c \<Longrightarrow> vs_inv s"
  by (auto simp: vs_inv_def cur_runs_def)

lemma vs_invD:
  assumes "vs_inv s"
  shows "mid_inv s" "ring_ok s" "ring_links s" "slots_ok s" "baton_ok s" "state_ok s" "cur_runs s"
  using assms by (auto simp: vs_inv_def mid_inv_def ring_ok_def)

lemma vs_invE:
  assumes "vs_inv s"
  obtains c t where "g_cur s = Some c" "runs s c" "thread_of s c = Some t" "can_run s t"
    "c \<in> set (refs s)"
proof -
  from vs_invD(7)[OF assms] obtain c where c: "g_cur s = Some c" "runs s c"
    by (auto simp: cur_runs_def)
  moreover from c(2) obtain t where "thread_of s c = Some t" "can_run s t"
    by (auto simp: runs_def split: option.splits)
  ultimately show ?thesis using that runs_in_ring by blast
qed

section \<open>Operations within a thread's turn\<close>

lemma frame_keeps:
  assumes "vs_inv s" "same_frame s s'" "state_ok s'" "\<And>c. runs s c \<Longrightarrow> runs s' c"
  shows "vs_inv s'"
  using assms
  by (auto simp: vs_inv_def cur_runs_def intro: same_frame_mid_inv) (auto simp: same_frame_def)

lemma other_fields:
  assumes "ring s' = ring s" "g_cur s' = g_cur s" "g_aside s' = g_aside s"
  shows "state_ok s' = state_ok s" "runs s' = runs s" "thread_of s' = thread_of s"
  using assms
  by (auto simp: state_ok_def thread_ok_def runs_def thread_of_def can_run_def fun_eq_iff
      split: option.splits)

lemma quiet_keeps:
  assumes "vs_inv s" "ring s' = ring s" "g_cur s' = g_cur s" "g_aside s' = g_aside s"
    "next_ref s' = next_ref s" "g_count s' = g_count s" "g_slot_used s' = g_slot_used s"
  shows "vs_inv s'"
proof (rule frame_keeps[OF assms(1)])
  show "same_frame s s'" using assms(2-) by (simp add: same_frame_def)
  show "state_ok s'" unfolding other_fields(1)[OF assms(2,3,4)] by (rule vs_invD(6)[OF assms(1)])
  show "\<And>c. runs s c \<Longrightarrow> runs s' c" unfolding other_fields(2)[OF assms(2,3,4)] .
qed

lemma wake_expired_keeps [vs_keep]: "vs_inv s \<Longrightarrow> vs_inv (wake_expired s)"
  by (rule frame_keeps[OF _ wake_expired_frame])
    (auto intro: wake_expired_state_ok wake_expired_runs vs_invD(6))

lemma advance_keeps [vs_keep]: "vs_inv s \<Longrightarrow> vs_inv (vsched_advance ns s)"
  by (rule quiet_keeps) (simp_all add: vsched_advance_def)

lemma aside_close_keeps: "vs_inv s \<Longrightarrow> vs_inv (aside_close b s)"
  by (rule frame_keeps[OF _ aside_close_frame])
    (auto intro: aside_close_state_ok aside_close_runs vs_invD(6))

lemma aside_end_keeps [vs_keep]: "vs_inv s \<Longrightarrow> vs_inv (snd (vsched_aside_end s))"
  by (simp add: vsched_aside_end_def Let_def aside_close_keeps)

lemma aside_begin_keeps [vs_keep]:
  assumes "vs_inv s" shows "vs_inv (vsched_aside_begin s)"
proof (cases "g_aside s = None")
  case True
  obtain c where c: "g_cur s = Some c" "runs s c" "state_ok s"
    using vs_invE[OF assms] vs_invD(6)[OF assms] by metis
  let ?s = "vsched_aside_begin s"
  have f: "same_frame s ?s"
    by (simp add: same_frame_def vsched_aside_begin_def shape_def comp_def)
  moreover have "state_ok ?s"
    using c True by (auto simp: vsched_aside_begin_def state_ok_def thread_ok_def)
  moreover have "runs ?s c"
    using c True
    by (auto simp: vsched_aside_begin_def runs_def thread_of_def find_by_map can_run_def
        split: option.splits dest: find_by_SomeD)
  ultimately show ?thesis
    using assms c by (auto simp: vs_inv_def cur_runs_def intro: same_frame_mid_inv)
      (auto simp: same_frame_def)
qed (use assms in \<open>simp add: vsched_aside_begin_def\<close>)

lemma upd_state_keeps:
  assumes "vs_inv s" "\<And>t. shape (f t) = shape t"
    and "\<And>t. t \<in> set (ring s) \<Longrightarrow> vt_ref t = r \<Longrightarrow> thread_ok s t \<Longrightarrow> thread_ok s (f t)"
    and "\<And>t. can_run s t \<Longrightarrow> can_run s (f t)"
  shows "vs_inv (upd_thread r f s)"
proof (rule frame_keeps[OF assms(1) upd_frame[OF assms(2)]])
  have ok: "state_ok s" by (rule vs_invD(6)[OF assms(1)])
  have e: "thread_ok (upd_thread r f s) t = thread_ok s t" for t by (simp add: thread_ok_def)
  show "state_ok (upd_thread r f s)"
    using ok assms(3) unfolding state_ok_def e by (auto simp: set_upd_by)
  have rf: "vt_ref (f t) = vt_ref t" for t using assms(2)[of t] by (simp add: shape_def)
  fix c assume "runs s c"
  then show "runs (upd_thread r f s) c" by (intro runs_upd) (auto simp: rf intro: assms(4))
qed

lemma notify_one_keeps: "vs_inv s \<Longrightarrow> vs_inv (notify_one r s)"
  unfolding notify_one_def
  by (rule upd_state_keeps) (auto simp: shape_def thread_ok_def can_run_def)

lemma notify_keeps [vs_keep]: "vs_inv s \<Longrightarrow> vs_inv (vsched_notify a all s)"
proof (induction a all s rule: vsched_notify.induct)
  case (1 a all s)
  then show ?case
    by (subst vsched_notify.simps) (auto split: option.splits intro: notify_one_keeps)
qed

lemma cpu_keeps: "vs_inv s \<Longrightarrow> vs_inv (upd_thread r (\<lambda>x. x\<lparr>vt_cpu := True\<rparr>) s)"
  by (rule upd_state_keeps) (auto simp: shape_def thread_ok_def can_run_def)

section \<open>Giving way\<close>

lemma cur_running_upd:
  assumes "cur_running s" "\<And>t. shape (f t) = shape t"
  shows "cur_running (upd_thread r f s)"
proof -
  have f: "vt_ref (f t) = vt_ref t" "vt_phase (f t) = vt_phase t" for t
    using assms(2)[of t] by (auto simp: shape_def)
  from assms(1) show ?thesis by (auto simp: cur_running_def thread_of_upd f)
qed

lemma cur_running_fields:
  "ring s' = ring s \<Longrightarrow> g_cur s' = g_cur s \<Longrightarrow> cur_running s' = cur_running s"
  by (simp add: cur_running_def thread_of_def)

lemma runnable_not_waiting:
  "runs s c \<Longrightarrow> thread_of s c = Some x \<Longrightarrow> vt_state x \<noteq> WAITING"
  by (auto simp: runs_def can_run_def)

lemma give_way_keeps:
  assumes "vs_inv s" "cur_running s" "runs s t"
  shows "vs_inv (switch_to InSwitch t s)"
proof -
  obtain c where c: "mid_inv s" "g_cur s = Some c" "runs s c"
    using vs_invE[OF assms(1)] vs_invD(1)[OF assms(1)] by metis
  show ?thesis
    by (rule switch_to_inv[OF c(1,2) assms(2,3)]) (auto dest: runnable_not_waiting[OF c(3)])
qed

lemma wake_expired_cur_running:
  "vs_inv s \<Longrightarrow> cur_running s \<Longrightarrow> cur_running (wake_expired s)"
  by (rule same_frame_cur_running[OF wake_expired_frame vs_invD(2)])

lemma yield_keeps [vs_keep]:
  assumes "vs_inv s" "cur_running s"
  shows "vs_inv (vsched_yield cost s)"
proof -
  obtain c where c: "g_cur s = Some c" using vs_invE[OF assms(1)] .
  let ?s = "s\<lparr>g_now := g_now s + cost\<rparr>"
  have s: "vs_inv ?s" by (rule quiet_keeps[OF assms(1)]) simp_all
  have r: "cur_running ?s" using assms(2) by (simp add: cur_running_fields[of ?s s])
  have "vs_inv (wake_expired ?s)" "cur_running (wake_expired ?s)"
    using s r by (auto intro: wake_expired_keeps wake_expired_cur_running)
  then show ?thesis
    using c by (auto simp: vsched_yield_def Let_def split: option.splits
        intro: give_way_keeps next_runnable_runs)
qed

lemma rsx_idle_keeps [vs_keep]:
  assumes "vs_inv s" "cur_running s"
  shows "vs_inv (vsched_rsx_idle mem put s)"
proof -
  let ?s = "s\<lparr>g_rsx_idle := g_cur s, g_rsx_put := put, g_rsx_put_seen := mem put\<rparr>"
  have "vs_inv ?s" by (rule quiet_keeps[OF assms(1)]) simp_all
  moreover have "cur_running ?s" using assms(2) by (simp add: cur_running_fields[of ?s s])
  ultimately show ?thesis using assms(1) by (simp add: vsched_rsx_idle_def yield_keeps)
qed

lemma rsx_step_keeps [vs_keep]:
  assumes "vs_inv s" "cur_running s"
  shows "vs_inv (vsched_rsx_step s)"
proof -
  have k: "vs_inv (s\<lparr>g_now := n, rsx_commands := k\<rparr>)" for n k
    by (rule quiet_keeps[OF assms(1)]) simp_all
  have r: "cur_running (s\<lparr>g_now := n, rsx_commands := k\<rparr>)" for n k
    using assms(2) by (subst cur_running_fields) simp_all
  show ?thesis by (simp add: vsched_rsx_step_def Let_def k yield_keeps[OF k r])
qed

lemma poll_yield_keeps [vs_keep]:
  assumes "vs_inv s" "cur_running s"
  shows "vs_inv (snd (vsched_poll_yield k used s))"
proof -
  have y: "vs_inv (vsched_yield n ((upd_thread c (\<lambda>x. x\<lparr>vt_cpu := True\<rparr>) s)
      \<lparr>vsched_budget := b, g_turn_run := 0\<rparr>))" for c b n
  proof (rule yield_keeps)
    show "vs_inv ((upd_thread c (\<lambda>x. x\<lparr>vt_cpu := True\<rparr>) s)\<lparr>vsched_budget := b, g_turn_run := 0\<rparr>)"
      by (rule quiet_keeps[OF cpu_keeps[OF assms(1)]]) simp_all
    have "cur_running (upd_thread c (\<lambda>x. x\<lparr>vt_cpu := True\<rparr>) s)"
      by (rule cur_running_upd[OF assms(2)]) (simp add: shape_def)
    then show "cur_running ((upd_thread c (\<lambda>x. x\<lparr>vt_cpu := True\<rparr>) s)
        \<lparr>vsched_budget := b, g_turn_run := 0\<rparr>)"
      by (subst cur_running_fields) simp_all
  qed
  show ?thesis
    unfolding vsched_poll_yield_def using assms(1)
    by (auto split: option.split intro: y)
qed

lemma charge_look_keeps:
  assumes "vs_inv s" "cur_running s"
  shows "vs_inv (charge_look k c s)" "cur_running (charge_look k c s)"
proof -
  define s1 where "s1 = (if k = VSCHED_PPU \<or> k = VSCHED_SPU
      then upd_thread c (\<lambda>x. x\<lparr>vt_cpu := True\<rparr>) s else s)"
  have s1: "vs_inv s1" "cur_running s1"
    using assms cpu_keeps cur_running_upd[OF assms(2)] by (auto simp: s1_def shape_def)
  have e: "charge_look k c s = s1\<lparr>vsched_budget := BUDGET_PER_LOOK, g_now := g_now s + look_cost k,
            g_turn_run := g_turn_run s + BUDGET_PER_LOOK\<rparr>"
    by (simp add: charge_look_def s1_def Let_def upd_thread_def)
  show "vs_inv (charge_look k c s)" unfolding e by (rule quiet_keeps[OF s1(1)]) simp_all
  show "cur_running (charge_look k c s)" unfolding e using s1(2) by (subst cur_running_fields) simp_all
qed

lemma rsx_has_work_runs: "rsx_has_work mem s = Some r \<Longrightarrow> runs s r"
  by (auto simp: rsx_has_work_def split: option.splits if_splits)

lemma budget_keeps [vs_keep]:
  assumes "vs_inv s" "cur_running s"
  shows "vs_inv (vsched_budget_expired mem k s)"
proof -
  obtain c where c: "g_cur s = Some c" using vs_invE[OF assms(1)] .
  let ?s = "charge_look k c s"
  note s = charge_look_keeps[OF assms, of k c]
  have z: "vs_inv (?s\<lparr>g_turn_run := 0\<rparr>)" by (rule quiet_keeps[OF s(1)]) simp_all
  have zr: "cur_running (?s\<lparr>g_turn_run := 0\<rparr>)" using s(2) by (subst cur_running_fields) simp_all
  have w: "vs_inv (switch_to InSwitch r (wake_expired ?s))" if "rsx_has_work mem ?s = Some r" for r
    using give_way_keeps[OF wake_expired_keeps[OF s(1)] wake_expired_cur_running[OF s]]
      wake_expired_runs[OF rsx_has_work_runs[OF that]] by blast
  show ?thesis
    unfolding vsched_budget_expired_def Let_def
    by (auto simp: c s(1) yield_keeps[OF z zr] split: option.split intro: w)
qed

section \<open>Waiting\<close>

lemma begin_wait_mid:
  assumes "vs_inv s" "cur_running s" "g_cur s = Some self"
  shows "mid_inv (begin_wait items timeout self s)"
    "cur_running (begin_wait items timeout self s)"
    "g_cur (begin_wait items timeout self s) = Some self"
proof -
  define s1 where "s1 = s\<lparr>g_wait_seq := g_wait_seq s + 1\<rparr>"
  define f where "f = (\<lambda>x::vthread. x\<lparr>vt_items := items, vt_timed_out := False, vt_wait_seq := g_wait_seq s1,
               vt_deadline := (if timeout = VSCHED_INFINITE then VSCHED_INFINITE
                               else g_now s + timeout),
               vt_aside_wait := (g_aside s \<noteq> None), vt_state := WAITING\<rparr>)"
  have e: "begin_wait items timeout self s = upd_thread self f s1"
    by (simp add: begin_wait_def s1_def f_def Let_def)
  have sf: "shape (f t) = shape t" for t by (simp add: f_def shape_def)
  have s1: "vs_inv s1" "g_cur s1 = Some self" unfolding s1_def
    by (rule quiet_keeps[OF assms(1)]) (simp_all add: assms(3))
  have s1r: "cur_running s1" using assms(2) unfolding s1_def by (subst cur_running_fields) simp_all
  have ok: "mid_inv s1" "state_ok s1" by (rule vs_invD[OF s1(1)])+
  have "state_ok (upd_thread self f s1)"
  proof -
    have "thread_ok s1 (f t)" if "thread_ok s1 t" "vt_ref t = self" for t
      using that s1(2) by (simp add: thread_ok_def f_def)
    moreover have "thread_ok (upd_thread self f s1) t = thread_ok s1 t" for t
      by (simp add: thread_ok_def)
    ultimately show ?thesis using ok(2) by (simp add: state_ok_def set_upd_by ball_Un)
  qed
  then show "mid_inv (begin_wait items timeout self s)"
    unfolding e by (rule same_frame_mid_inv[OF upd_frame[OF sf] ok(1)])
  show "cur_running (begin_wait items timeout self s)"
    unfolding e by (rule cur_running_upd[OF s1r sf])
  show "g_cur (begin_wait items timeout self s) = Some self" unfolding e using s1 by simp
qed

lemma wait_tail_keeps: "vs_inv s \<Longrightarrow> vs_inv (wait_tail r s)"
  unfolding wait_tail_def
  by (rule upd_state_keeps) (auto simp: shape_def thread_ok_def can_run_def)

lemma wait_keeps [vs_keep]:
  assumes "vs_inv s" "cur_running s" "vsched_wait mem items timeout s = Inr (res, s')"
  shows "vs_inv s'"
proof -
  obtain c where c: "g_cur s = Some c" using vs_invE[OF assms(1)] .
  show ?thesis
  proof (cases "list_ex (\<lambda>it. read_word mem (wi_addr it) \<noteq> wi_old it) items")
    case True
    then show ?thesis using assms c by (simp add: vsched_wait_def)
  next
    case False
    note b = begin_wait_mid[OF assms(1,2) c, of items timeout]
    from False assms(3) c obtain s1 where s1:
      "schedule_away SCHEDULE_ROUNDS c (begin_wait items timeout c s) = Inr s1"
      "s' = wait_tail c s1 \<or> s' = s1"
      by (auto simp: vsched_wait_def sbind_eq_Inr split: if_splits)
    have "vs_inv s1" by (rule schedule_away_inv[OF b(1,3,2) s1(1)])
    then show ?thesis using s1(2) by (auto intro: wait_tail_keeps)
  qed
qed

lemma wait_total:
  assumes "vs_inv s" "cur_running s"
  shows "vsched_wait mem items timeout s \<noteq> Inl Diverged"
proof -
  obtain c where c: "g_cur s = Some c" using vs_invE[OF assms(1)] .
  note b = begin_wait_mid[OF assms c, of items timeout]
  from schedule_away_total[OF b(1,3)] c show ?thesis
    by (auto simp: vsched_wait_def sbind_eq_Inl split: if_splits)
qed

end
