(* ===== verification/VschedReach.thy ===== *)
theory VschedReach
  imports VschedCalls
begin

text \<open>
  Creating and leaving threads, going on after \<open>sem_wait\<close>, and the invariant of the
  reachable states.
\<close>

section \<open>Slots\<close>

lemma first_free_some:
  "first_free i us = Some k \<Longrightarrow> i \<le> k \<and> k - i < length us \<and> \<not> us ! (k - i)
     \<and> (\<forall>j < k - i. us ! j)"
proof (induction us arbitrary: i)
  case (Cons u us)
  show ?case
  proof (cases u)
    case True
    with Cons.prems have "first_free (Suc i) us = Some k" by simp
    from Cons.IH[OF this] True show ?thesis
      by (auto simp: nth_Cons' Suc_diff_le less_diff_conv2)
  qed (use Cons.prems in simp)
qed simp

lemma first_free_none: "first_free i us = None \<longleftrightarrow> (\<forall>u \<in> set us. u)"
  by (induction us arbitrary: i) auto

lemma take_slot_spec:
  assumes "take_slot s = Inr (i, s')" "slots_ok s"
  shows "i < VSCHED_SLOTS" "\<not> g_slot_used s ! i" "i \<notin> vt_slot ` set (ring s)"
    "s' = s\<lparr>g_slot_used := (g_slot_used s)[i := True], tls := run_resets (g_slot_resets s) i (tls s)\<rparr>"
proof -
  from assms(1) have f: "first_free 0 (g_slot_used s) = Some i"
    and s': "s' = s\<lparr>g_slot_used := (g_slot_used s)[i := True], tls := run_resets (g_slot_resets s) i (tls s)\<rparr>"
    by (auto simp: take_slot_def split: option.splits)
  from first_free_some[OF f] assms(2) show "i < VSCHED_SLOTS" and n: "\<not> g_slot_used s ! i"
    by (auto simp: slots_ok_def)
  with assms(2) show "i \<notin> vt_slot ` set (ring s)" by (auto simp: slots_ok_def)
  show "s' = s\<lparr>g_slot_used := (g_slot_used s)[i := True], tls := run_resets (g_slot_resets s) i (tls s)\<rparr>"
    by (rule s')
qed

section \<open>Creating a thread\<close>

lemma new_thread_fields [simp]:
  "vt_ref (new_thread s l fn p) = next_ref s" "vt_sem (new_thread s l fn p) = 0"
  "vt_slot (new_thread s l fn p) = l" "vt_phase (new_thread s l fn p) = p"
  "vt_state (new_thread s l fn p) = RUNNABLE" "vt_held (new_thread s l fn p) = False"
  "vt_aside_wait (new_thread s l fn p) = False"
  by (simp_all add: new_thread_def)

lemma create_keeps [vs_keep]:
  assumes inv: "vs_inv s" and cr: "vsched_create fn rc s = Inr (res, s')"
  shows "vs_inv s'"
proof -
  let ?s0 = "s\<lparr>g_next_id := g_next_id s + 1, next_ref := next_ref s + 1\<rparr>"
  note D = vs_invD[OF inv]
  obtain c t where c: "g_cur s = Some c" "runs s c" "c \<in> set (refs s)" using vs_invE[OF inv] by metis
  have sl: "slots_ok ?s0" using D(4) by (simp add: slots_ok_def)
  from cr obtain i s1 where ts: "take_slot ?s0 = Inr (i, s1)"
    and res: "s' = (if rc \<noteq> 0 then s1\<lparr>g_slot_used := (g_slot_used s1)[i := False]\<rparr>
        else s1\<lparr>ring := ring s1 @ [new_thread s i fn InTrampoline], g_count := g_count s1 + 1\<rparr>)"
    by (auto simp: vsched_create_def Let_def sbind_eq_Inr split: if_splits)
  note T = take_slot_spec[OF ts sl]
  have refs_lt: "\<forall>t \<in> set (ring s). vt_ref t < next_ref s" using D(3) by (simp add: ring_links_def)
  show ?thesis
  proof (cases "rc = 0")
    case True
    with res T(4) have s': "ring s' = ring s @ [new_thread s i fn InTrampoline]"
      "g_count s' = g_count s + 1" "g_cur s' = g_cur s" "next_ref s' = next_ref s + 1"
      "g_slot_used s' = (g_slot_used s)[i := True]" "g_aside s' = g_aside s"
      by simp_all
    have l: "ring_ok s'"
      using D(3) c refs_lt by (auto simp: ring_ok_def ring_links_def s' less_Suc_eq)
    have "distinct (map vt_slot (ring s'))" using D(4) T(3) by (auto simp: s' slots_ok_def)
    then have sk: "slots_ok s'"
      using D(4) T(1) by (auto simp: slots_ok_def s' nth_list_update)
    have b: "baton_ok s'"
      using D(5) c refs_lt by (auto simp: baton_ok_def s' baton_thread_def)
    have st: "state_ok s'" using D(6) by (auto simp: state_ok_def s' thread_ok_def)
    have "runs s' c" using c(2)
      by (auto simp: runs_def thread_of_def s' find_by_append can_run_def split: option.splits)
    with l sk b st c show ?thesis by (auto simp: s' intro!: vs_invI simp: mid_inv_def)
  next
    case False
    have us: "(g_slot_used s)[i := False] = g_slot_used s"
      using T(1,2) D(4) by (simp add: list_update_same_conv slots_ok_def)
    from False res T(4) have s': "ring s' = ring s" "g_count s' = g_count s" "g_cur s' = g_cur s"
      "next_ref s' = next_ref s + 1" "g_slot_used s' = g_slot_used s" "g_aside s' = g_aside s"
      by (simp_all add: us)
    note o = other_fields[OF s'(1,3,6)]
    have "ring_ok s'" using D(3) c refs_lt by (auto simp: ring_ok_def ring_links_def s' less_Suc_eq)
    moreover have "slots_ok s'" using D(4) by (simp add: slots_ok_def s')
    moreover have "baton_ok s'" using D(5) by (simp add: baton_ok_def s')
    moreover have "state_ok s'" using D(6) o by simp
    moreover have "runs s' c" using c(2) o by simp
    ultimately show ?thesis using c by (auto simp: s' intro!: vs_invI simp: mid_inv_def)
  qed
qed

section \<open>A thread leaves\<close>

lemma exit_unlink_links:
  assumes inv: "vs_inv s" and self: "x \<in> set (ring s)" "vt_ref x \<noteq> hd (refs s)"
    and cur: "g_cur s = Some (vt_ref x)"
  shows "ring_links (exit_unlink x s)" "state_ok (exit_unlink x s)" "slots_ok (exit_unlink x s)"
    "ring_prev s (vt_ref x) \<in> set (refs (exit_unlink x s))"
    "\<forall>t \<in> set (ring (exit_unlink x s)). vt_sem t = 0 \<and> vt_phase t \<noteq> Running"
proof -
  note D = vs_invD[OF inv]
  let ?s = "exit_unlink x s" and ?xs = "filter (\<lambda>t. vt_ref t \<noteq> vt_ref x) (ring s)"
  have r: "ring ?s = ?xs" "g_count ?s = g_count s - 1" "next_ref ?s = next_ref s"
    "g_cur ?s = g_cur s" "g_aside ?s = g_aside s" "g_slot_used ?s = (g_slot_used s)[vt_slot x := False]"
    by (simp_all add: exit_unlink_def)
  have d: "distinct (refs s)" using D(3) by (simp add: ring_links_def)
  have only: "t = x" if "t \<in> set (ring s)" "vt_ref t = vt_ref x" for t
    using d that self by (metis find_by_self option.inject)
  have rm: "?xs = remove1 x (ring s)"
    using d self(1) only by (simp add: distinct_remove1_removeAll distinct_map)
      (auto simp: removeAll_filter_not_eq intro!: filter_cong)
  have ne: "?xs \<noteq> []"
  proof -
    obtain h where h: "h \<in> set (ring s)" "vt_ref h = hd (refs s)"
      using D(3) by (cases "ring s") (auto simp: ring_links_def)
    with self(2) have "h \<in> set ?xs" by simp
    then show ?thesis by (metis empty_iff list.set(1))
  qed
  show "ring_links ?s"
  proof -
    have "length ?xs = length (ring s) - 1" using self(1) by (simp add: rm length_remove1)
    moreover have "distinct (map vt_ref ?xs)" using d by (rule distinct_map_filter)
    ultimately show ?thesis using D(3) ne by (simp add: ring_links_def r)
  qed
  show "state_ok ?s" using D(6) by (auto simp: state_ok_def thread_ok_def r)
  show "slots_ok ?s"
  proof -
    have ds: "distinct (map vt_slot (ring s))" using D(4) by (simp add: slots_ok_def)
    have dx: "distinct (map vt_slot ?xs)" using ds by (rule distinct_map_filter)
    have im: "vt_slot ` set ?xs = vt_slot ` set (ring s) - {vt_slot x}"
      using ds self(1) only by (auto simp: distinct_map inj_on_def)
    show ?thesis
      using D(4) dx self(1) unfolding slots_ok_def r im by (auto simp: nth_list_update)
  qed
  have "takeWhile (\<lambda>y. y \<noteq> vt_ref x) (refs s) \<noteq> []"
    using self(2) D(3) by (cases "ring s") (auto simp: ring_links_def)
  then have p: "ring_prev s (vt_ref x) \<in> set (takeWhile (\<lambda>y. y \<noteq> vt_ref x) (refs s))"
    unfolding ring_prev_def by (rule last_in_set)
  from set_takeWhileD[OF p] show "ring_prev s (vt_ref x) \<in> set (refs ?s)" by (auto simp: r)
  show "\<forall>t \<in> set (ring ?s). vt_sem t = 0 \<and> vt_phase t \<noteq> Running"
    using D(5) cur by (auto simp: r baton_ok_def baton_thread_def)
qed

lemma exit_handover_inv:
  assumes "ring_links s" "state_ok s" "slots_ok s" "runs s t"
    and "\<forall>x \<in> set (ring s). vt_sem x = 0 \<and> vt_phase x \<noteq> Running"
    and "\<forall>x \<in> set (ring s). g_cur s \<noteq> Some (vt_ref x)"
  shows "vs_inv (exit_handover t s)"
proof -
  let ?s = "exit_handover t s"
  have r: "ring ?s = upd_by vt_ref t posted (ring s)" "g_cur ?s = Some t" "g_aside ?s = g_aside s"
    "g_count ?s = g_count s" "next_ref ?s = next_ref s" "g_slot_used ?s = g_slot_used s"
    by (simp_all add: exit_handover_def posted_def[abs_def])
  have m: "map vt_ref (ring ?s) = refs s" "map vt_slot (ring ?s) = map vt_slot (ring s)"
    unfolding r by (simp_all add: map_upd_by)
  have "ring_ok ?s"
    by (rule ring_ok_upd[OF assms(1) m(1) r(4,5,2) runs_in_ring[OF assms(4)]])
  moreover have "slots_ok ?s" by (rule slots_ok_upd[OF assms(3) m(2) r(6)])
  moreover have "baton_thread (Some t) y \<and> thread_ok ?s y" if y: "y \<in> set (ring ?s)" for y
  proof -
    from y consider (tgt) x where "x \<in> set (ring s)" "vt_ref x = t" "y = posted x"
      | (other) "y \<in> set (ring s)" "vt_ref y \<noteq> t"
      unfolding r(1) set_upd_by by blast
    then show ?thesis
    proof cases
      case tgt
      then have "thread_of s t = Some x" using thread_of_iff[OF assms(1)] by blast
      then have "can_run s x" using assms(4) by (simp add: runs_def)
      then show ?thesis using tgt assms(5)
        by (auto simp: baton_thread_def thread_ok_def r(2,3) can_run_def)
    next
      case other
      then have "thread_ok s y" using assms(2) by (simp add: state_ok_def)
      moreover have "vt_sem y = 0" "vt_phase y \<noteq> Running" "g_cur s \<noteq> Some (vt_ref y)"
        using other assms(5,6) by auto
      ultimately show ?thesis using other
        by (auto simp: baton_thread_def thread_ok_def r(2,3))
    qed
  qed
  then have "baton_ok ?s" "state_ok ?s" unfolding baton_ok_def state_ok_def r(2) by blast+
  moreover have "runs ?s t"
    using assms(4) by (auto simp: runs_def thread_of_def r find_by_upd_by can_run_def split: option.splits)
  ultimately show ?thesis using r(2) by (intro vs_invI[of _ t]) (simp_all add: mid_inv_def)
qed

lemma exit_keeps [vs_keep]:
  assumes inv: "vs_inv s" and ex: "vsched_exit s = Inr s'"
  shows "vs_inv s'"
proof -
  obtain c x where c: "g_cur s = Some c" "thread_of s c = Some x" using vs_invE[OF inv] by metis
  then have x: "x \<in> set (ring s)" "vt_ref x = c" using thread_of_in by blast+
  with c ex have h: "vt_ref x \<noteq> hd (refs s)" by (auto simp: vsched_exit_def split: if_splits)
  have gc: "g_cur s = Some (vt_ref x)" using c x by simp
  note U = exit_unlink_links[OF inv x(1) h gc]
  let ?u = "exit_unlink x s"
  from c ex h obtain t s1 where p: "exit_pick SCHEDULE_ROUNDS (ring_prev s (vt_ref x)) ?u = Inr (t, s1)"
    and s': "s' = exit_handover t s1"
    by (auto simp: vsched_exit_def sbind_eq_Inr split: if_splits)
  from exit_pick_inv[OF p U(2)] have f: "same_frame ?u s1" "state_ok s1" "runs s1 t" by auto
  have m: "map shape (ring s1) = map shape (ring ?u)" using f(1) by (simp add: same_frame_def)
  have "\<forall>y \<in> set (ring s1). vt_sem y = 0 \<and> vt_phase y \<noteq> Running"
    using U(5) shape_list(4)[OF m, of "\<lambda>_ p k _. k = 0 \<and> p \<noteq> Running"] by blast
  moreover have "\<forall>y \<in> set (ring s1). g_cur s1 \<noteq> Some (vt_ref y)"
  proof -
    have "\<forall>y \<in> set (ring ?u). g_cur s \<noteq> Some (vt_ref y)" by (auto simp: exit_unlink_def gc)
    then have "\<forall>y \<in> set (ring s1). g_cur s \<noteq> Some (vt_ref y)"
      using shape_list(4)[OF m, of "\<lambda>r _ _ _. g_cur s \<noteq> Some r"] by blast
    moreover have "g_cur s1 = g_cur s" using f(1) by (simp add: same_frame_def exit_unlink_def)
    ultimately show ?thesis by simp
  qed
  ultimately show ?thesis
    unfolding s' using U f same_frame_links[OF f(1)] same_frame_slots_ok[OF f(1)]
    by (intro exit_handover_inv) auto
qed

lemma exit_total:
  assumes inv: "vs_inv s" shows "vsched_exit s \<noteq> Inl Diverged"
proof -
  obtain c x where c: "g_cur s = Some c" "thread_of s c = Some x" using vs_invE[OF inv] by metis
  then have x: "x \<in> set (ring s)" "vt_ref x = c" using thread_of_in by blast+
  show ?thesis
  proof (cases "vt_ref x = hd (refs s)")
    case True
    then show ?thesis using c by (simp add: vsched_exit_def)
  next
    case False
    have gc: "g_cur s = Some (vt_ref x)" using c x by simp
    note U = exit_unlink_links[OF inv x(1) False gc]
    from exit_pick_total[OF U(1,2,4)] show ?thesis
      using c False by (auto simp: vsched_exit_def sbind_eq_Inl)
  qed
qed

section \<open>Going on after the semaphore\<close>

lemma posted_is_current:
  assumes "baton_ok s" "thread_of s r = Some t" "0 < vt_sem t"
  shows "g_cur s = Some r" "vt_phase t \<noteq> Running" "vt_sem t = 1"
proof -
  have t: "t \<in> set (ring s)" "vt_ref t = r" using thread_of_in[OF assms(2)] by auto
  then have b: "baton_thread (g_cur s) t" using assms(1) by (simp add: baton_ok_def)
  then show "g_cur s = Some r" "vt_phase t \<noteq> Running" "vt_sem t = 1"
    using assms(3) t(2) by (auto simp: baton_thread_def split: if_splits)
qed

lemma go_on_upd_keeps:
  assumes inv: "vs_inv s" and t: "thread_of s r = Some t" and sem: "0 < vt_sem t"
  shows "vs_inv (upd_thread r (\<lambda>x. x\<lparr>vt_sem := vt_sem x - 1, vt_phase := Running\<rparr>) s)"
proof -
  note D = vs_invD[OF inv]
  note cur = posted_is_current[OF D(5) t sem]
  define f where "f = (\<lambda>x::vthread. x\<lparr>vt_sem := vt_sem x - 1, vt_phase := Running\<rparr>)"
  have ff: "vt_ref (f x) = vt_ref x" "vt_slot (f x) = vt_slot x" "vt_sem (f x) = vt_sem x - 1"
    "vt_phase (f x) = Running" "vt_state (f x) = vt_state x" "vt_held (f x) = vt_held x"
    "vt_aside_wait (f x) = vt_aside_wait x" for x
    by (simp_all add: f_def)
  let ?s = "upd_thread r f s"
  have rmem: "r \<in> set (refs s)" using thread_of_in[OF t] by auto
  have gc: "g_cur ?s = Some r" using cur(1) by simp
  have m: "map vt_ref (ring ?s) = refs s" "map vt_slot (ring ?s) = map vt_slot (ring s)"
    by (simp_all add: map_upd_by ff)
  have "ring_ok ?s" by (rule ring_ok_upd[OF D(3) m(1) _ _ gc rmem]) simp_all
  moreover have "slots_ok ?s" by (rule slots_ok_upd[OF D(4) m(2)]) simp
  moreover have one: "baton_thread (Some r) y \<and> thread_ok ?s y" if y: "y \<in> set (ring ?s)" for y
  proof -
    from y consider (tgt) x where "x \<in> set (ring s)" "vt_ref x = r" "y = f x"
      | (other) "y \<in> set (ring s)" "vt_ref y \<noteq> r"
      by (auto simp: set_upd_by)
    then show ?thesis
    proof cases
      case tgt
      then have "x = t" using thread_of_iff[OF D(3), of r x] t by simp
      moreover have "thread_ok s x" using D(6) tgt(1) by (simp add: state_ok_def)
      ultimately show ?thesis using tgt cur
        by (simp add: baton_thread_def thread_ok_def ff)
    next
      case other
      have "baton_thread (g_cur s) y" "thread_ok s y"
        using D(5,6) other(1) by (simp_all add: baton_ok_def state_ok_def)
      then show ?thesis using cur(1) by (simp add: thread_ok_def)
    qed
  qed
  then have "baton_ok ?s" "state_ok ?s" unfolding baton_ok_def state_ok_def gc by blast+
  moreover have "runs ?s r"
  proof -
    have "runs s r" using D(7) cur(1) by (simp add: cur_runs_def)
    then show ?thesis by (intro runs_upd) (auto simp: ff can_run_def)
  qed
  ultimately show ?thesis unfolding f_def[symmetric] by (intro vs_invI[OF _ gc]) (simp_all add: mid_inv_def)
qed

lemma resume_keeps [vs_keep]:
  assumes inv: "vs_inv s" and t: "thread_of s r = Some t" "0 < vt_sem t"
    and res: "resume r s = Inr (v, s')"
  shows "vs_inv s'"
proof -
  let ?u = "upd_thread r (\<lambda>x. x\<lparr>vt_sem := vt_sem x - 1, vt_phase := Running\<rparr>) s"
  have cur: "g_cur s = Some r" by (rule posted_is_current(1)[OF vs_invD(5)[OF inv] t])
  have "vs_inv (?u\<lparr>fpu_mxcsr := a, fpu_fcw := b\<rparr>)" for a b
    by (rule quiet_keeps[OF go_on_upd_keeps[OF inv t]]) simp_all
  then show ?thesis
    using res t(1) cur by (auto simp: resume_def Let_def wait_tail_keeps split: if_splits)
qed

lemma resume_total:
  assumes "vs_inv s" "thread_of s r = Some t" "0 < vt_sem t"
  shows "\<exists>v s'. resume r s = Inr (v, s')"
  using assms(2) posted_is_current(1)[OF vs_invD(5)[OF assms(1)] assms(2,3)]
  by (simp add: resume_def Let_def)

section \<open>Every call\<close>

lemma exec_call_keeps:
  assumes inv: "vs_inv s" "cur_running s" and c: "exec_call c s = Inr s'"
  shows "vs_inv s'"
proof (cases c)
  case (CCreate fn rc)
  with c obtain res where "vsched_create fn rc s = Inr (res, s')"
    by (cases "vsched_create fn rc s") auto
  then show ?thesis by (rule create_keeps[OF inv(1)])
next
  case CExit
  with c exit_keeps[OF inv(1)] show ?thesis by simp
next
  case (CWait mem items timeout)
  with c obtain res where "vsched_wait mem items timeout s = Inr (res, s')"
    by (cases "vsched_wait mem items timeout s") auto
  then show ?thesis by (rule wait_keeps[OF inv])
next
  case (CSleep ns)
  with c obtain res where "vsched_sleep ns s = Inr (res, s')"
    by (cases "vsched_sleep ns s") auto
  then show ?thesis unfolding vsched_sleep_def by (rule wait_keeps[OF inv])
next
  case (CRegisterReset r)
  with c have "s' = s\<lparr>g_slot_resets := g_slot_resets s @ [r], tls := run_resets [r] 0 (tls s)\<rparr>"
    by (simp add: vsched_register_slot_reset_def split: if_splits)
  then show ?thesis by (auto intro: quiet_keeps[OF inv(1)])
next
  case (CRegisterExit h)
  with c have "s' = s\<lparr>g_thread_exits := g_thread_exits s @ [h]\<rparr>"
    by (simp add: vsched_register_thread_exit_def split: if_splits)
  then show ?thesis by (auto intro: quiet_keeps[OF inv(1)])
next
  case (CSetLeaveHook h)
  with c show ?thesis by (auto simp: vsched_set_leave_hook_def intro: quiet_keeps[OF inv(1)])
next
  case (CTlsSet v x)
  with c show ?thesis by (auto simp: tls_set_def intro: quiet_keeps[OF inv(1)])
next
  case (CSetFpu m f)
  with c show ?thesis by (auto intro: quiet_keeps[OF inv(1)])
qed (use c inv in \<open>auto intro: vs_keep\<close>)

text \<open>No call of the running thread loops for good.\<close>

lemma call_settles:
  assumes inv: "vs_inv s" and run: "cur_running s"
  shows "exec_call c s \<noteq> Inl Diverged"
proof (cases c)
  case (CCreate fn rc)
  have "take_slot x = Inl e \<Longrightarrow> e = OutOfSlots" for x e
    by (auto simp: take_slot_def split: option.splits)
  then show ?thesis using CCreate
    by (auto simp: vsched_create_def Let_def map_sum_def sbind_eq_Inl split: sum.splits if_splits)
next
  case CExit
  then show ?thesis using exit_total[OF inv] by simp
next
  case (CWait mem items timeout)
  then show ?thesis using wait_total[OF inv run, of mem items timeout]
    by (cases "vsched_wait mem items timeout s") auto
next
  case (CSleep ns)
  then show ?thesis
    using wait_total[OF inv run, of "\<lambda>_. 0" "[\<lparr>wi_addr = NobodyWord, wi_old = 0\<rparr>]" ns]
    by (cases "vsched_sleep ns s") (auto simp: vsched_sleep_def)
qed (auto simp: vsched_register_slot_reset_def vsched_register_thread_exit_def)

lemma running_is_current:
  assumes "baton_ok s" "thread_of s r = Some t" "vt_phase t = Running"
  shows "g_cur s = Some r"
proof -
  have t: "t \<in> set (ring s)" "vt_ref t = r" using thread_of_in[OF assms(2)] by auto
  then have "baton_thread (g_cur s) t" using assms(1) by (simp add: baton_ok_def)
  then show ?thesis using assms(3) t(2) by (auto simp: baton_thread_def split: if_splits)
qed

lemma vstep_keeps:
  assumes "vstep s s'" "vs_inv s"
  shows "vs_inv s'"
  using assms
proof (cases rule: vstep.cases)
  case (call r t c)
  have "g_cur s = Some r" by (rule running_is_current[OF vs_invD(5)[OF assms(2)] call(1,2)])
  with call have "cur_running s" by (auto simp: cur_running_def)
  then show ?thesis by (rule exec_call_keeps[OF assms(2) _ call(3)])
next
  case (go_on r t res)
  then show ?thesis by (intro resume_keeps[OF assms(2)])
qed

section \<open>The start\<close>

lemma init_shape:
  assumes "vsched_init (vs_static\<lparr>g_slot_resets := rs, g_thread_exits := hs, tls := m,
             fpu_mxcsr := mx, fpu_fcw := fc\<rparr>) = Inr s"
  shows "ring s = [(new_thread vs_static 0 0 Running)\<lparr>vt_mxcsr := mx, vt_fcw := fc\<rparr>]"
    "g_cur s = Some 0" "g_count s = 1" "next_ref s = 1" "g_aside s = None"
    "g_slot_used s = (replicate VSCHED_SLOTS False)[0 := True]" "g_now s = 1000000000"
    "tls s = run_resets rs 0 m"
proof -
  have f: "first_free 0 (replicate VSCHED_SLOTS False) = Some 0"
    by (simp add: VSCHED_SLOTS_def numeral_eq_Suc)
  from assms show "ring s = [(new_thread vs_static 0 0 Running)\<lparr>vt_mxcsr := mx, vt_fcw := fc\<rparr>]"
    "g_cur s = Some 0" "g_count s = 1" "next_ref s = 1" "g_aside s = None"
    "g_slot_used s = (replicate VSCHED_SLOTS False)[0 := True]" "g_now s = 1000000000"
    "tls s = run_resets rs 0 m"
    by (auto simp: vsched_init_def take_slot_def vs_static_def f new_thread_def)
qed

lemma init_inv:
  assumes "vsched_init (vs_static\<lparr>g_slot_resets := rs, g_thread_exits := hs, tls := m,
             fpu_mxcsr := mx, fpu_fcw := fc\<rparr>) = Inr s"
  shows "vs_inv s"
proof -
  note S = init_shape[OF assms]
  have nr: "next_ref vs_static = 0" by (simp add: vs_static_def)
  have "ring_ok s" by (simp add: ring_ok_def ring_links_def S nr)
  moreover have "slots_ok s"
    by (auto simp: slots_ok_def S nth_list_update VSCHED_SLOTS_def)
  moreover have "baton_ok s" by (simp add: baton_ok_def S baton_thread_def nr)
  moreover have "state_ok s" by (simp add: state_ok_def S thread_ok_def)
  moreover have "runs s 0"
    by (simp add: runs_def thread_of_def S find_by_Cons can_run_def nr)
  ultimately show ?thesis using S(2) by (intro vs_invI[of _ 0]) (simp_all add: mid_inv_def)
qed

lemma vreach_inv: "vreach s \<Longrightarrow> vs_inv s"
  by (induction rule: vreach.induct) (auto intro: init_inv vstep_keeps)

end
