(* ===== verification/VschedTurns.thy ===== *)
theory VschedTurns
  imports VschedReach
begin

text \<open>
  Turns: a thread that gives way and the thread that goes on in its place, seen as one
  step of the machine. The lemmas here measure how far a thread is from its turn.
\<close>

text \<open>The current thread calls \<open>vsched_yield\<close>, and whoever holds the machine afterwards
  goes on with its own code.\<close>

definition yield_turn :: "u64 \<Rightarrow> vsched \<Rightarrow> vsched" where
  "yield_turn cost s =
     (let s1 = vsched_yield cost s in
      case Option.bind (g_cur s1) (thread_of s1) of
        None \<Rightarrow> s1
      | Some t \<Rightarrow> if vt_phase t = Running then s1
                  else (case resume (vt_ref t) s1 of Inl _ \<Rightarrow> s1 | Inr (_, s2) \<Rightarrow> s2))"

lemma switch_to_refs: "refs (switch_to park t s) = refs s"
  by (auto simp: switch_to_def Let_def map_upd_by split: option.splits)

lemma switch_to_runs:
  assumes "runs s x" shows "runs (switch_to park t s) x"
proof (cases "g_cur s")
  case (Some c)
  show ?thesis
  proof (cases "t = c")
    case False
    note sw = switch_to_ring[OF Some False, of park]
    show ?thesis using assms
      by (auto simp: runs_def thread_of_def sw find_by_upd_by can_run_def split: option.splits)
  qed (use assms Some in \<open>simp add: switch_to_self\<close>)
qed (use assms in \<open>simp add: switch_to_def\<close>)

lemma switch_to_cur: "g_cur s = Some c \<Longrightarrow> g_cur (switch_to park t s) = Some t"
  by (cases "t = c") (simp_all add: switch_to_self switch_to_ring)

lemma yield_next:
  assumes inv: "vs_inv s" and c: "g_cur s = Some c"
  obtains s1 t where "s1 = wake_expired (s\<lparr>g_now := g_now s + cost\<rparr>)"
    "next_runnable_after s1 c = Some t" "vsched_yield cost s = switch_to InSwitch t s1"
    "ring_links s1" "refs s1 = refs s" "g_cur s1 = Some c" "\<And>x. runs s x \<Longrightarrow> runs s1 x"
proof -
  let ?s1 = "wake_expired (s\<lparr>g_now := g_now s + cost\<rparr>)"
  have "vs_inv (s\<lparr>g_now := g_now s + cost\<rparr>)" by (rule quiet_keeps[OF inv]) simp_all
  then have i1: "vs_inv ?s1" by (rule wake_expired_keeps)
  have r1: "refs ?s1 = refs s" using same_frame_refs[OF wake_expired_frame] by simp
  have c1: "g_cur ?s1 = Some c" using c by simp
  have m: "runs s x \<Longrightarrow> runs ?s1 x" for x by (intro wake_expired_runs) simp
  have "runs ?s1 c" using vs_invD(7)[OF i1] c1 by (simp add: cur_runs_def)
  moreover from this have "c \<in> set (refs ?s1)" by (rule runs_in_ring)
  ultimately obtain t where t: "next_runnable_after ?s1 c = Some t"
    using next_runnable_ex[OF vs_invD(3)[OF i1]] by blast
  show ?thesis
    by (rule that[OF refl t _ vs_invD(3)[OF i1] r1 c1 m])
      (simp_all add: vsched_yield_def c Let_def t)
qed

lemma resume_state:
  assumes "resume r s = Inr (v, s')"
  shows "refs s' = refs s" "g_cur s' = g_cur s" "\<And>x. runs s x \<Longrightarrow> runs s' x"
proof -
  define f where "f = (\<lambda>x::vthread. x\<lparr>vt_sem := vt_sem x - 1, vt_phase := Running\<rparr>)"
  define g where "g = (\<lambda>x::vthread. x\<lparr>vt_state := RUNNABLE, vt_items := [], vt_deadline := VSCHED_INFINITE\<rparr>)"
  have fg: "vt_ref (f x) = vt_ref x" "vt_ref (g x) = vt_ref x"
    "vt_state (f x) = vt_state x" "vt_held (f x) = vt_held x" "vt_state (g x) = RUNNABLE"
    "vt_held (g x) = vt_held x" for x
    by (simp_all add: f_def g_def)
  from assms obtain t where t: "thread_of s r = Some t" and
    s': "s' = (upd_thread r f s)\<lparr>fpu_mxcsr := vt_mxcsr t, fpu_fcw := vt_fcw t\<rparr>
       \<or> s' = upd_thread r g ((upd_thread r f s)\<lparr>fpu_mxcsr := vt_mxcsr t, fpu_fcw := vt_fcw t\<rparr>)"
    unfolding f_def g_def
    by (auto simp: resume_def Let_def wait_tail_def split: option.splits if_splits)
  let ?u = "(upd_thread r f s)\<lparr>fpu_mxcsr := vt_mxcsr t, fpu_fcw := vt_fcw t\<rparr>"
  have u: "refs ?u = refs s" "g_cur ?u = g_cur s" by (simp_all add: map_upd_by fg)
  have ru: "runs ?u x" if "runs s x" for x
  proof -
    have "runs (upd_thread r f s) x"
      using that by (intro runs_upd) (auto simp: fg can_run_def)
    then show ?thesis by (auto simp: runs_def thread_of_def can_run_def split: option.splits)
  qed
  have g: "refs (upd_thread r g ?u) = refs s" "g_cur (upd_thread r g ?u) = g_cur s"
    using u by (simp_all add: map_upd_by fg)
  have rg: "runs (upd_thread r g ?u) x" if "runs s x" for x
    using ru[OF that] by (intro runs_upd) (auto simp: fg can_run_def)
  show "refs s' = refs s" "g_cur s' = g_cur s" using s' u g by auto
  fix x assume "runs s x"
  then show "runs s' x" using s' ru rg by blast
qed

lemma yield_turn_spec:
  assumes inv: "vs_inv s" and run: "cur_running s" and c: "g_cur s = Some c"
  shows "vs_inv (yield_turn cost s)" "cur_running (yield_turn cost s)"
    "refs (yield_turn cost s) = refs s"
    "\<And>x. runs s x \<Longrightarrow> runs (yield_turn cost s) x"
    "\<exists>s1 t. refs s1 = refs s \<and> ring_links s1 \<and> (\<forall>x. runs s x \<longrightarrow> runs s1 x) \<and>
       next_runnable_after s1 c = Some t \<and> g_cur (yield_turn cost s) = Some t"
proof -
  obtain s1 t where y: "s1 = wake_expired (s\<lparr>g_now := g_now s + cost\<rparr>)"
    "next_runnable_after s1 c = Some t" "vsched_yield cost s = switch_to InSwitch t s1"
    "ring_links s1" "refs s1 = refs s" "g_cur s1 = Some c" "\<And>x. runs s x \<Longrightarrow> runs s1 x"
    using yield_next[OF inv c] by blast
  let ?y = "vsched_yield cost s"
  have iy: "vs_inv ?y" by (rule yield_keeps[OF inv run])
  have cy: "g_cur ?y = Some t" unfolding y(3) by (rule switch_to_cur[OF y(6)])
  have ry: "refs ?y = refs s" unfolding y(3) by (simp only: switch_to_refs y(5))
  have my: "runs ?y x" if "runs s x" for x unfolding y(3) by (intro switch_to_runs y(7) that)
  obtain x where x: "thread_of ?y t = Some x" using thread_of_cur[OF vs_invD(2)[OF iy] cy] by blast
  have xr: "vt_ref x = t" using thread_of_in[OF x] by simp
  have main: "vs_inv (yield_turn cost s) \<and> cur_running (yield_turn cost s) \<and>
      refs (yield_turn cost s) = refs s \<and> g_cur (yield_turn cost s) = Some t \<and>
      (\<forall>z. runs s z \<longrightarrow> runs (yield_turn cost s) z)"
  proof (cases "vt_phase x = Running")
    case True
    then have "yield_turn cost s = ?y" by (simp add: yield_turn_def Let_def cy x)
    then show ?thesis using True iy cy ry my x by (auto simp: cur_running_def)
  next
    case False
    have "baton_thread (g_cur ?y) x"
      using vs_invD(5)[OF iy] thread_of_in[OF x] by (simp add: baton_ok_def)
    then have sem: "0 < vt_sem x" using False cy xr by (simp add: baton_thread_def)
    obtain v s2 where res: "resume t ?y = Inr (v, s2)" using resume_total[OF iy x sem] by blast
    have e: "yield_turn cost s = s2"
      using False by (simp add: yield_turn_def Let_def cy x xr res)
    note R = resume_state[OF res]
    have "\<exists>x2. thread_of s2 t = Some x2 \<and> vt_phase x2 = Running"
      using res x cy
      by (auto simp: resume_def Let_def wait_tail_def thread_of_def find_by_upd_by upd_thread_def
          split: if_splits)
    then have "cur_running s2" using R(2) cy by (simp add: cur_running_def)
    then show ?thesis
      using resume_keeps[OF iy x sem res] R ry cy my by (simp add: e)
  qed
  then show "vs_inv (yield_turn cost s)" "cur_running (yield_turn cost s)"
    "refs (yield_turn cost s) = refs s" "\<And>x. runs s x \<Longrightarrow> runs (yield_turn cost s) x"
    by auto
  show "\<exists>s1 t. refs s1 = refs s \<and> ring_links s1 \<and> (\<forall>x. runs s x \<longrightarrow> runs s1 x) \<and>
       next_runnable_after s1 c = Some t \<and> g_cur (yield_turn cost s) = Some t"
    using y main by blast
qed

lemma next_runnable_at:
  assumes ok: "ring_links s" and k: "k < length (ring s)" and d: "0 < d" "d < length (ring s)"
    and run: "runs s (refs s ! ((k + d) mod length (ring s)))"
    and nx: "next_runnable_after s (refs s ! k) = Some t"
  shows "\<exists>e. 0 < e \<and> e \<le> d \<and> t = refs s ! ((k + e) mod length (ring s))"
proof -
  let ?n = "length (ring s)"
  let ?f = "\<lambda>i. refs s ! ((Suc k + i) mod ?n)"
  have dist: "distinct (refs s)" "ring s \<noteq> []" "g_count s = ?n"
    using ok by (auto simp: ring_links_def)
  have "find (runs s) (map ?f [0..<?n]) = Some t"
    using nx next_loop_find[OF dist(1,2), of ?n "Suc k"]
    by (simp only: next_runnable_after_def dist(3) ring_next_nth[OF dist(1) k])
  then obtain i where i: "i < ?n" "t = ?f i" "\<And>j. j < i \<Longrightarrow> \<not> runs s (?f j)"
    by (auto simp: find_Some_iff simp del: upt_Suc)
  have "\<not> d - 1 < i"
  proof
    assume "d - 1 < i"
    then have "\<not> runs s (?f (d - 1))" by (rule i(3))
    moreover have "Suc k + (d - 1) = k + d" using d by simp
    ultimately show False using run by simp
  qed
  then show ?thesis using i(2) d by (intro exI[of _ "Suc i"]) auto
qed

lemma turn_comes:
  assumes "vs_inv s" "cur_running s" "g_cur s = Some (refs s ! k)" "k < length (ring s)"
    "d < length (ring s)" "runs s (refs s ! ((k + d) mod length (ring s)))"
  shows "\<exists>j \<le> d. g_cur ((yield_turn cost ^^ j) s) = Some (refs s ! ((k + d) mod length (ring s)))"
  using assms
proof (induction d arbitrary: s k rule: less_induct)
  case (less d)
  let ?n = "length (ring s)"
  show ?case
  proof (cases "d = 0")
    case True
    then show ?thesis using less.prems by (intro exI[of _ 0]) simp
  next
    case False
    let ?s = "yield_turn cost s"
    note Y = yield_turn_spec[OF less.prems(1-3), where cost = cost]
    have n: "length (ring ?s) = ?n" using Y(3) by (metis length_map)
    obtain s1 t where st: "refs s1 = refs s" "ring_links s1" "\<forall>x. runs s x \<longrightarrow> runs s1 x"
      "next_runnable_after s1 (refs s ! k) = Some t" "g_cur ?s = Some t" using Y(5) by blast
    have n1: "length (ring s1) = ?n" using st(1) by (metis length_map)
    obtain e where e: "0 < e" "e \<le> d" "t = refs s ! ((k + e) mod ?n)"
      using next_runnable_at[OF st(2), of k d t] st(1,3,4) less.prems(4-6) False n1 by auto
    have km: "(k + e) mod ?n < ?n" using less.prems(4) by (intro mod_less_divisor) linarith
    have de: "k + e + (d - e) = k + d" using e by simp
    have kd: "((k + e) mod ?n + (d - e)) mod ?n = (k + d) mod ?n"
      unfolding mod_add_left_eq de ..
    have "\<exists>j \<le> d - e. g_cur ((yield_turn cost ^^ j) ?s) =
        Some (refs ?s ! (((k + e) mod ?n + (d - e)) mod length (ring ?s)))"
    proof (rule less.IH)
      show "d - e < d" using e by simp
      show "g_cur ?s = Some (refs ?s ! ((k + e) mod ?n))" using st(5) e(3) Y(3) by simp
      show "runs ?s (refs ?s ! (((k + e) mod ?n + (d - e)) mod length (ring ?s)))"
        unfolding n kd Y(3) by (rule Y(4)[OF less.prems(6)])
    qed (use Y(1,2) km less.prems(5) n in auto)
    then obtain j where j: "j \<le> d - e"
      "g_cur ((yield_turn cost ^^ j) ?s) = Some (refs s ! ((k + d) mod ?n))"
      unfolding n kd Y(3) by blast
    then show ?thesis using e
      by (intro exI[of _ "Suc j"]) (auto simp: funpow_Suc_right simp del: funpow.simps)
  qed
qed

end
