(* ===== verification/VschedProps.thy ===== *)
theory VschedProps
  imports VschedTurns
begin

text \<open>
  The properties of the scheduler, each with a run of the machine that shows its
  hypotheses can hold: \<open>boot1\<close> is the machine after \<open>vsched_init\<close>, \<open>boot2\<close> after the
  driver has made one thread, \<open>boot3\<close> after that thread has been given the machine.
\<close>

section \<open>A small machine\<close>

definition boot1 :: vsched where
  "boot1 = (vs_static\<lparr>ring := [(new_thread vs_static 0 0 Running)\<lparr>vt_mxcsr := 0x1f80, vt_fcw := 0x37f\<rparr>],
      g_cur := Some 0, g_count := 1, g_next_id := 1, next_ref := 1, g_now := 1000000000,
      g_slot_used := (replicate VSCHED_SLOTS False)[0 := True]\<rparr>)"

definition boot2 :: vsched where
  "boot2 = boot1\<lparr>g_next_id := 2, next_ref := 2, g_count := 2,
      ring := ring boot1 @ [new_thread boot1 1 7 InTrampoline],
      g_slot_used := (g_slot_used boot1)[1 := True]\<rparr>"

lemma slots256: "replicate VSCHED_SLOTS False = False # False # replicate 254 False"
  by (simp add: VSCHED_SLOTS_def numeral_eq_Suc)

lemma init_boot1: "vsched_init vs_static = Inr boot1"
  by (simp add: vsched_init_def take_slot_def boot1_def vs_static_def slots256 new_thread_def
      run_resets_def)

lemma vreach_boot1: "vreach boot1"
proof -
  have e: "vs_static = vs_static\<lparr>g_slot_resets := [], g_thread_exits := [], tls := (\<lambda>_ _. 0),
      fpu_mxcsr := 0x1f80, fpu_fcw := 0x37f\<rparr>" by (simp add: vs_static_def)
  show ?thesis
    by (rule vreach.init[where resets = "[]" and hooks = "[]" and m = "\<lambda>_ _. 0"
          and mx = "0x1f80" and fc = "0x37f"])
      (simp_all add: init_boot1 flip: e)
qed

lemmas boot_defs = boot1_def boot2_def vs_static_def new_thread_def

lemma create_boot2: "vsched_create 7 0 boot1 = Inr (0, boot2)"
  by (simp add: vsched_create_def take_slot_def boot_defs slots256 run_resets_def)

lemma boot1_cur:
  "g_cur boot1 = Some 0" "thread_of boot1 0 = Some (hd (ring boot1))"
  "vt_phase (hd (ring boot1)) = Running" "refs boot1 = [0]"
  by (simp_all add: boot_defs thread_of_def find_by_Cons)

lemma vreach_boot2: "vreach boot2"
  by (rule vreach.step[OF vreach_boot1], rule vstep.call[OF boot1_cur(2,3), of "CCreate 7 0"])
    (simp add: create_boot2)

lemma boot2_cur:
  "g_cur boot2 = Some 0" "thread_of boot2 0 = Some (hd (ring boot1))"
  "thread_of boot2 1 = Some (new_thread boot1 1 7 InTrampoline)" "refs boot2 = [0, 1]"
  "cur_running boot2" "runs boot2 1"
  by (simp_all add: boot_defs thread_of_def find_by_Cons cur_running_def runs_def can_run_def)

lemma boot2_inv: "vs_inv boot2"
  by (rule vreach_inv[OF vreach_boot2])

section \<open>One thread at a time\<close>

definition has_move :: "vthread \<Rightarrow> bool" where
  "has_move t \<longleftrightarrow> vt_phase t = Running \<or> 0 < vt_sem t"

text \<open>C1. In every reachable state of the machine, however the operating system orders its
  threads, at most one of them can move: the one the scheduler names as current, which
  either runs its own code or has had its semaphore posted (and then only once).\<close>

theorem one_thread_at_a_time:
  assumes "vreach s" "thread_of s r = Some t" "has_move t"
  shows "g_cur s = Some r \<and> vt_sem t = (if vt_phase t = Running then 0 else 1)"
proof -
  have b: "baton_ok s" by (rule vs_invD(5)[OF vreach_inv[OF assms(1)]])
  have t: "t \<in> set (ring s)" "vt_ref t = r" using thread_of_in[OF assms(2)] by auto
  then have "baton_thread (g_cur s) t" using b by (simp add: baton_ok_def)
  then show ?thesis using assms(3) t(2) by (auto simp: baton_thread_def has_move_def split: if_splits)
qed

theorem one_thread_at_a_time_witness:
  "vreach boot2 \<and> has_move (hd (ring boot1)) \<and> g_cur boot2 = Some 0"
  using one_thread_at_a_time[OF vreach_boot2 boot2_cur(2)] vreach_boot2
  by (simp add: has_move_def boot1_cur)

text \<open>The machine always goes on: in every reachable state the current thread either
  runs, or its semaphore is posted and it goes on past the check that the baton was not
  duplicated, which therefore never ends the process.\<close>

theorem baton_never_duplicated:
  assumes "vreach s"
  shows "\<exists>c t. g_cur s = Some c \<and> thread_of s c = Some t \<and>
    (vt_phase t = Running \<or> (0 < vt_sem t \<and> (\<exists>v s'. resume c s = Inr (v, s'))))"
proof -
  note inv = vreach_inv[OF assms]
  obtain c t where c: "g_cur s = Some c" "thread_of s c = Some t" using vs_invE[OF inv] by metis
  have "baton_thread (g_cur s) t"
    using vs_invD(5)[OF inv] thread_of_in[OF c(2)] by (simp add: baton_ok_def)
  then have "vt_phase t = Running \<or> 0 < vt_sem t"
    using c thread_of_in[OF c(2)] by (auto simp: baton_thread_def)
  then show ?thesis using resume_total[OF inv c(2)] c by blast
qed

theorem baton_never_duplicated_witness:
  "\<exists>c t. g_cur boot2 = Some c \<and> thread_of boot2 c = Some t \<and>
    (vt_phase t = Running \<or> (0 < vt_sem t \<and> (\<exists>v s'. resume c boot2 = Inr (v, s'))))"
  by (rule baton_never_duplicated[OF vreach_boot2])

text \<open>C3. In no reachable state does the scheduler loop or find the baton duplicated: a call of a
  running thread always settles (the searches of \<open>schedule_away\<close> and \<open>vsched_exit\<close> for
  a thread to run settle, or find that every thread waits for good, within three rounds),
  and a parked thread whose semaphore has been posted always goes on past the check behind its
  \<open>sem_wait\<close>, which would end the process if it were not the current thread.\<close>

theorem scheduling_settles:
  assumes "vreach s" "thread_of s r = Some t"
  shows "(vt_phase t = Running \<longrightarrow> exec_call c s \<noteq> Inl Diverged)
    \<and> (vt_phase t \<noteq> Running \<and> 0 < vt_sem t \<longrightarrow> (\<exists>v s'. resume r s = Inr (v, s')))"
proof -
  note inv = vreach_inv[OF assms(1)]
  have "exec_call c s \<noteq> Inl Diverged" if r: "vt_phase t = Running"
  proof -
    have "g_cur s = Some r" by (rule running_is_current[OF vs_invD(5)[OF inv] assms(2) r])
    then have run: "cur_running s" using assms r by (auto simp: cur_running_def)
    show ?thesis by (rule call_settles[OF inv run])
  qed
  then show ?thesis using resume_total[OF inv assms(2)] by blast
qed

definition boot3 :: vsched where
  "boot3 = vsched_yield 1000 boot2"

lemma boot3_posted: "\<exists>t. thread_of boot3 1 = Some t \<and> vt_phase t \<noteq> Running \<and> 0 < vt_sem t"
  by (simp add: boot3_def vsched_yield_def wake_expired_def aside_overdue_def wakes_def boot_defs
      next_runnable_after_def ring_next_def runs_def can_run_def thread_of_def find_by_Cons
      switch_to_def upd_thread_def upd_by_def Let_def numeral_2_eq_2)

lemma vreach_boot3: "vreach boot3"
  by (rule vreach.step[OF vreach_boot2], rule vstep.call[OF boot2_cur(2) boot1_cur(3), of "CYield 1000"])
    (simp add: boot3_def)

theorem scheduling_settles_witness:
  "exec_call (CSleep 5) boot2 \<noteq> Inl Diverged \<and> (\<exists>v s'. resume 1 boot3 = Inr (v, s'))"
proof -
  obtain t where "thread_of boot3 1 = Some t" "vt_phase t \<noteq> Running" "0 < vt_sem t"
    using boot3_posted by blast
  then show ?thesis
    using scheduling_settles[OF vreach_boot2 boot2_cur(2), of "CSleep 5"] boot1_cur(3)
      scheduling_settles[OF vreach_boot3, of 1 t "CAdvance 0"] by blast
qed

section \<open>Whose turn it is\<close>

text \<open>C5. Threads are scheduled round robin in creation order: walking \<open>next\<close> pointers
  from a thread of the ring, \<open>next_runnable_after\<close> finds the first thread that can run in
  the order that starts behind that thread, goes once around, and ends with it.\<close>

theorem round_robin_order:
  assumes "ring_links s" "r \<in> set (refs s)"
  shows "next_runnable_after s r = find (runs s) (rot_after r (refs s))"
  by (rule next_runnable_after_find[OF assms])

theorem round_robin_order_witness:
  "next_runnable_after boot2 0 = find (runs boot2) (rot_after 0 [0, 1]) \<and>
   next_runnable_after boot2 0 = Some 1"
proof -
  have l: "ring_links boot2" by (rule vs_invD(3)[OF boot2_inv])
  show ?thesis using round_robin_order[OF l, of 0] boot2_cur(6)
    by (simp add: boot2_cur rot_after_def)
qed

text \<open>C4. Nobody starves: a thread that can run has the machine after fewer turns than
  there are threads, each turn a \<open>vsched_yield\<close> by whoever has the machine then.\<close>

theorem yields_reach_everyone:
  assumes "vs_inv s" "cur_running s" "runs s x"
  shows "\<exists>j < length (ring s). g_cur ((yield_turn cost ^^ j) s) = Some x"
proof -
  obtain c where c: "g_cur s = Some c" "c \<in> set (refs s)" using vs_invE[OF assms(1)] by metis
  from c(2) obtain k where k: "k < length (ring s)" "c = refs s ! k"
    by (metis in_set_conv_nth length_map)
  from runs_in_ring[OF assms(3)] obtain i where i: "i < length (ring s)" "x = refs s ! i"
    by (metis in_set_conv_nth length_map)
  let ?n = "length (ring s)"
  let ?d = "(i + ?n - k) mod ?n"
  have kd: "(k + ?d) mod ?n = i" using k(1) i(1) by (simp add: mod_add_right_eq)
  have d: "?d < ?n" using k(1) by (intro mod_less_divisor) linarith
  have "\<exists>j \<le> ?d. g_cur ((yield_turn cost ^^ j) s) = Some (refs s ! ((k + ?d) mod ?n))"
    using turn_comes[OF assms(1,2) _ k(1) d] c(1) k(2) assms(3) i(2) kd by simp
  then show ?thesis unfolding kd i(2) using d by (meson le_less_trans)
qed

theorem yields_reach_everyone_witness:
  "\<exists>j < length (ring boot2). g_cur ((yield_turn 1000 ^^ j) boot2) = Some 1"
  by (rule yields_reach_everyone[OF boot2_inv boot2_cur(5,6)])

end
