(* ===== verification/VschedTime.thy ===== *)
theory VschedTime
  imports VschedProps
begin

text \<open>
  The properties of the scheduler that concern waits, the clock, the aside and the
  thread-local slots.
\<close>

section \<open>Notification\<close>

lemma best_waiter_None: "best_waiter a ts = None \<longleftrightarrow> (\<forall>t \<in> set ts. \<not> parked_on a t)"
proof (induction ts rule: rev_induct)
  case (snoc x ts)
  then show ?case by (auto simp: best_waiter_def split: if_splits option.splits)
qed (simp add: best_waiter_def)

lemma best_waiter_min:
  "best_waiter a ts = Some b \<Longrightarrow> t \<in> set ts \<Longrightarrow> parked_on a t \<Longrightarrow> vt_wait_seq b \<le> vt_wait_seq t"
proof (induction ts arbitrary: b t rule: rev_induct)
  case (snoc x ts)
  show ?case
  proof (cases "best_waiter a ts")
    case None
    then have "\<forall>t \<in> set ts. \<not> parked_on a t" by (simp add: best_waiter_None)
    then show ?thesis using snoc.prems None by (auto simp: best_waiter_def split: if_splits)
  next
    case (Some c)
    then have m: "\<forall>t \<in> set ts. parked_on a t \<longrightarrow> vt_wait_seq c \<le> vt_wait_seq t"
      using snoc.IH by blast
    have "b = (if parked_on a x \<and> vt_wait_seq x < vt_wait_seq c then x else c)"
      using snoc.prems(1) Some by (auto simp: best_waiter_def split: if_splits)
    then show ?thesis using m snoc.prems(2,3)
      by (auto split: if_splits intro: order.trans less_imp_le)
  qed
qed simp

definition woken :: "vthread \<Rightarrow> vthread" where
  "woken t = t\<lparr>vt_state := RUNNABLE, vt_timed_out := False\<rparr>"

lemma notify_one_woken: "notify_one r s = s\<lparr>ring := upd_by vt_ref r woken (ring s)\<rparr>"
  by (simp add: notify_one_def upd_thread_def woken_def upd_by_def cong: if_cong)

lemma woken_fields [simp]: "vt_ref (woken t) = vt_ref t" "\<not> parked_on a (woken t)"
  by (simp_all add: woken_def parked_on_def)

lemma notify_all_ring:
  assumes "all" "distinct (refs s)"
  shows "vsched_notify a all s = s\<lparr>ring := map (\<lambda>t. if parked_on a t then woken t else t) (ring s)\<rparr>"
  using assms
proof (induction a all s rule: vsched_notify.induct)
  case (1 a all s)
  show ?case
  proof (cases "best_waiter a (ring s)")
    case None
    then have "\<forall>t \<in> set (ring s). \<not> parked_on a t" by (simp add: best_waiter_None)
    then have "map (\<lambda>t. if parked_on a t then woken t else t) (ring s) = ring s"
      by (auto intro: map_idI)
    then show ?thesis by (simp add: vsched_notify.simps[of a all s] None)
  next
    case (Some b)
    then have b: "b \<in> set (ring s)" "parked_on a b" by (auto dest: best_waiter_in)
    let ?s = "notify_one (vt_ref b) s"
    have d: "distinct (refs ?s)" using 1(3) by (simp add: notify_one_woken map_upd_by)
    have "map (\<lambda>t. if parked_on a t then woken t else t) (ring ?s)
        = map (\<lambda>t. if parked_on a t then woken t else t) (ring s)"
      using b 1(3) by (auto simp: notify_one_woken upd_by_def dest: inj_onD[OF distinct_map[THEN iffD1, THEN conjunct2]])
    moreover have "vsched_notify a all s = vsched_notify a all ?s"
      using 1(2) by (subst vsched_notify.simps) (simp add: Some)
    ultimately show ?thesis
      using 1(1)[OF Some 1(2) 1(2) d] by (simp add: notify_one_woken)
  qed
qed

text \<open>C6. \<open>vsched_notify\<close> for one wakes exactly one thread, of those parked on the word the
  one that has waited longest; when nobody is parked on the word it changes nothing.\<close>

theorem notify_wakes_longest_waiter:
  assumes "distinct (refs s)"
  shows "if \<forall>t \<in> set (ring s). \<not> parked_on a t then vsched_notify a False s = s
    else \<exists>b \<in> set (ring s). parked_on a b
      \<and> (\<forall>t \<in> set (ring s). parked_on a t \<longrightarrow> vt_wait_seq b \<le> vt_wait_seq t)
      \<and> vsched_notify a False s = s\<lparr>ring := map (\<lambda>t. if t = b then woken t else t) (ring s)\<rparr>"
proof (cases "best_waiter a (ring s)")
  case None
  then show ?thesis by (simp add: best_waiter_None[symmetric] vsched_notify.simps[of a False s])
next
  case (Some b)
  then have b: "b \<in> set (ring s)" "parked_on a b" by (auto dest: best_waiter_in)
  have "upd_by vt_ref (vt_ref b) woken (ring s) = map (\<lambda>t. if t = b then woken t else t) (ring s)"
    using b(1) assms by (auto simp: upd_by_def dest: inj_onD[OF distinct_map[THEN iffD1, THEN conjunct2]])
  then show ?thesis
    using b best_waiter_min[OF Some]
    by (auto simp: vsched_notify.simps[of a False s] Some notify_one_woken)
qed

definition parked_pair :: vsched where
  "parked_pair = boot2\<lparr>ring := map (\<lambda>t. t\<lparr>vt_state := WAITING, vt_wait_seq := (if vt_ref t = 0 then 9 else 4),
      vt_items := [\<lparr>wi_addr = GuestWord 64, wi_old = 0\<rparr>]\<rparr>) (ring boot2)\<rparr>"

lemma parked_pair_refs: "distinct (refs parked_pair)" "set (refs parked_pair) = {0, 1}"
  by (simp_all add: parked_pair_def boot_defs)

theorem notify_wakes_longest_waiter_witness:
  "map vt_state (ring (vsched_notify (GuestWord 64) False parked_pair)) = [WAITING, RUNNABLE]"
proof -
  note N = notify_wakes_longest_waiter[OF parked_pair_refs(1), of "GuestWord 64"]
  have p: "\<forall>t \<in> set (ring parked_pair). parked_on (GuestWord 64) t \<and> vt_state t = WAITING"
    "map vt_wait_seq (ring parked_pair) = [9, 4]"
    by (simp_all add: parked_pair_def boot_defs parked_on_def)
  then obtain x y where r: "ring parked_pair = [x, y]" "vt_wait_seq x = 9" "vt_wait_seq y = 4"
    by (auto simp: map_eq_Cons_conv)
  then have "\<not> (\<forall>t \<in> set (ring parked_pair). \<not> parked_on (GuestWord 64) t)" using p(1) by auto
  from N[unfolded if_not_P[OF this]] obtain b where b: "b \<in> set (ring parked_pair)"
    "\<forall>t \<in> set (ring parked_pair). parked_on (GuestWord 64) t \<longrightarrow> vt_wait_seq b \<le> vt_wait_seq t"
    "vsched_notify (GuestWord 64) False parked_pair
       = parked_pair\<lparr>ring := map (\<lambda>t. if t = b then woken t else t) (ring parked_pair)\<rparr>" by blast
  have "b = y" using b(1,2) p(1) r by auto
  then show ?thesis using b(3) r p(1) by (auto simp: woken_def)
qed

text \<open>\<open>vsched_notify\<close> for all wakes every thread parked on the word, in whatever order
  they stand, and nobody else.\<close>

lemma notify_all_wakes_all:
  assumes "distinct (refs s)"
  shows "vsched_notify a True s = s\<lparr>ring := map (\<lambda>t. if parked_on a t then woken t else t) (ring s)\<rparr>"
  by (rule notify_all_ring[OF TrueI assms])

lemma notify_all_wakes_all_witness:
  "map vt_state (ring (vsched_notify (GuestWord 64) True parked_pair)) = [RUNNABLE, RUNNABLE]"
  unfolding notify_all_wakes_all[OF parked_pair_refs(1)]
  by (simp add: parked_pair_def boot_defs parked_on_def woken_def)

section \<open>Idle time\<close>

definition end_due_waits :: "vsched \<Rightarrow> vsched" where
  "end_due_waits u = u\<lparr>ring := map (\<lambda>t. if timed_waiter u t \<and> vt_deadline t \<le> g_now u
      then t\<lparr>vt_state := RUNNABLE, vt_timed_out := True\<rparr> else t) (ring u)\<rparr>"

lemma wake_expired_ends:
  "wake_expired s = end_due_waits (if aside_overdue s then aside_close True s else s)"
proof -
  have "wakes u t \<longleftrightarrow> timed_waiter u t \<and> vt_deadline t \<le> g_now u" for u t
    by (auto simp: wakes_def timed_waiter_def)
  then show ?thesis by (simp add: wake_expired_def end_due_waits_def Let_def)
qed

text \<open>C7. When nothing can run, virtual time jumps to the earliest deadline of the waits that
  count (every wait, or within an aside only those begun in it), never back; an aside that
  this takes past its limits is given up; and then exactly the waits that count and whose
  deadline has come are over. When all the waits that count are for good, an aside is given
  up, which takes the clock back, and the waits due then are over; outside an aside the
  process ends, and it ends in no other case.\<close>

theorem idle_time_jumps:
  fixes s :: vsched
  defines "W \<equiv> {t \<in> set (ring s). timed_waiter s t}"
  shows "case advance_to_next_deadline s of
      Inl e \<Rightarrow> e = EveryThreadWaiting \<and> g_aside s = None \<and> (\<forall>t \<in> W. vt_deadline t = VSCHED_INFINITE)
    | Inr s' \<Rightarrow>
        if \<forall>t \<in> W. vt_deadline t = VSCHED_INFINITE
        then g_aside s \<noteq> None \<and> s' = end_due_waits (aside_close True s)
        else \<exists>d \<in> vt_deadline ` W. d \<noteq> VSCHED_INFINITE \<and> (\<forall>t \<in> W. d \<le> vt_deadline t) \<and>
          (let s1 = s\<lparr>g_now := max (g_now s) d\<rparr>
           in s' = end_due_waits (if aside_overdue s1 then aside_close True s1 else s1))"
proof -
  have least: "best_deadline s \<le> vt_deadline t" if "t \<in> W" for t
    using that best_deadline_least by (auto simp: W_def)
  show ?thesis
  proof (cases "best_deadline s = VSCHED_INFINITE")
    case True
    have inf: "vt_deadline t = VSCHED_INFINITE" if "t \<in> W" for t
      using least[OF that] word_order.extremum True
      by (metis VSCHED_INFINITE_def order.antisym)
    have "\<not> aside_overdue (aside_close True s)" by (simp add: aside_overdue_def aside_close_def)
    then have "wake_expired (aside_close True s) = end_due_waits (aside_close True s)"
      by (simp add: wake_expired_ends)
    then show ?thesis using True inf by (simp add: advance_to_next_deadline_def)
  next
    case False
    then obtain t where t: "t \<in> W" "vt_deadline t = best_deadline s"
      using best_deadline_attained[of s] by (auto simp: W_def)
    have some: "\<not> (\<forall>t \<in> W. vt_deadline t = VSCHED_INFINITE)" using t False by metis
    have d: "best_deadline s \<in> vt_deadline ` W" "\<forall>t \<in> W. best_deadline s \<le> vt_deadline t"
      using t least by (metis imageI, blast)
    have "(if best_deadline s > g_now s then s\<lparr>g_now := best_deadline s\<rparr> else s)
        = s\<lparr>g_now := max (g_now s) (best_deadline s)\<rparr>" by (simp add: max_def)
    then have adv: "advance_to_next_deadline s
        = Inr (wake_expired (s\<lparr>g_now := max (g_now s) (best_deadline s)\<rparr>))"
      using False by (simp add: advance_to_next_deadline_def Let_def)
    show ?thesis unfolding adv wake_expired_ends sum.case if_not_P[OF some] Let_def
      using d False by (intro bexI[OF _ d(1)] conjI) simp_all
  qed
qed

definition asleep :: vsched where
  "asleep = boot1\<lparr>ring := map (\<lambda>t. t\<lparr>vt_state := WAITING, vt_deadline := 1000000500\<rparr>) (ring boot1)\<rparr>"

theorem idle_time_jumps_witness:
  "\<exists>s'. advance_to_next_deadline asleep = Inr s' \<and> g_now s' = 1000000500 \<and>
     map vt_state (ring s') = [RUNNABLE]"
proof -
  have a: "g_aside asleep = None" by (simp add: asleep_def boot_defs)
  have r: "\<exists>t. ring asleep = [t] \<and> vt_state t = WAITING \<and> vt_deadline t = 1000000500"
    "g_now asleep = 1000000000"
    by (simp_all add: asleep_def boot_defs)
  then obtain t where t: "ring asleep = [t]" "vt_state t = WAITING" "vt_deadline t = 1000000500"
    by blast
  have W: "{t \<in> set (ring asleep). timed_waiter asleep t} = {t}"
    using t a by (auto simp: timed_waiter_def)
  show ?thesis using idle_time_jumps[of asleep, unfolded W] t r(2) a
    by (auto simp: VSCHED_INFINITE_def end_due_waits_def timed_waiter_def aside_overdue_def Let_def
        split: sum.splits)
qed

section \<open>The aside\<close>

text \<open>C8. The end of an aside takes the clock back to where it was and lets every held thread
  go. A wait begun in the aside and still on has as long to go on the machine's clock as
  it had on the aside's (nothing, if its time had come); every other thread is as it was.\<close>

theorem aside_leaves_the_clock:
  assumes "g_aside s = Some c" "g_cur s = Some c"
  shows "\<exists>s'. vsched_aside_end s = (g_now s - g_aside_then s, s') \<and>
    g_now s' = g_aside_then s \<and> g_aside s' = None \<and>
    (\<forall>t' \<in> set (ring s'). \<not> vt_held t' \<and> \<not> vt_aside_wait t') \<and>
    list_all2 (\<lambda>t t'.
      (if vt_state t = WAITING \<and> vt_aside_wait t \<and> vt_deadline t \<noteq> VSCHED_INFINITE
       then vt_deadline t' - g_now s' = (if vt_deadline t > g_now s then vt_deadline t - g_now s else 0)
       else vt_deadline t' = vt_deadline t) \<and>
      t' = t\<lparr>vt_deadline := vt_deadline t', vt_held := False, vt_aside_wait := False\<rparr>) (ring s) (ring s')"
  using assms
  by (auto simp: vsched_aside_end_def Let_def aside_close_def list_all2_conv_all_nth aside_release_def)

definition in_aside :: vsched where
  "in_aside = (vsched_aside_begin boot2)\<lparr>g_now := 5000000000\<rparr>"

theorem aside_leaves_the_clock_witness:
  "fst (vsched_aside_end in_aside) = 4000000000 \<and> g_now (snd (vsched_aside_end in_aside)) = 1000000000"
proof -
  have "g_aside in_aside = Some 0" "g_cur in_aside = Some 0" "g_aside_then in_aside = 1000000000"
    "g_now in_aside = 5000000000"
    by (simp_all add: in_aside_def vsched_aside_begin_def boot_defs)
  then show ?thesis using aside_leaves_the_clock[of in_aside 0] by auto
qed

section \<open>Thread-local slots\<close>

lemma run_resets_other:
  "v \<notin> tls_var ` set rs \<or> j \<noteq> slot \<Longrightarrow> run_resets rs slot m v j = m v j"
proof (induction rs arbitrary: m)
  case (Cons r rs)
  have "run_resets (r # rs) slot m = run_resets rs slot (m(tls_var r := (m (tls_var r))(slot := tls_init r)))"
    by (simp add: run_resets_def)
  then show ?case using Cons by auto
qed (simp add: run_resets_def)

lemma run_resets_set:
  "distinct (map tls_var rs) \<Longrightarrow> r \<in> set rs \<Longrightarrow> run_resets rs slot m (tls_var r) slot = tls_init r"
proof (induction rs arbitrary: m)
  case (Cons x rs)
  have e: "run_resets (x # rs) slot m = run_resets rs slot (m(tls_var x := (m (tls_var x))(slot := tls_init x)))"
    by (simp add: run_resets_def)
  show ?case
  proof (cases "r = x")
    case True
    then have "tls_var r \<notin> tls_var ` set rs" using Cons.prems(1) by simp
    then show ?thesis unfolding e using True by (subst run_resets_other) auto
  next
    case False
    then show ?thesis using Cons unfolding e by auto
  qed
qed simp

text \<open>C9. A new thread has a slot no living thread has, every registered thread-local variable
  starts from its initial value there, whatever the slot's last owner left, and the
  variables of every other thread stay as they are.\<close>

theorem new_thread_slot_is_fresh:
  assumes "vs_inv s" "distinct (map tls_var (g_slot_resets s))" "vsched_create fn 0 s = Inr (rc, s')"
  shows "\<exists>t. ring s' = ring s @ [t] \<and> vt_slot t < VSCHED_SLOTS \<and>
    (\<forall>u \<in> set (ring s). vt_slot u \<noteq> vt_slot t) \<and>
    (\<forall>r \<in> set (g_slot_resets s). tls s' (tls_var r) (vt_slot t) = tls_init r) \<and>
    (\<forall>v j. j \<noteq> vt_slot t \<longrightarrow> tls s' v j = tls s v j)"
proof -
  let ?s0 = "s\<lparr>g_next_id := g_next_id s + 1, next_ref := next_ref s + 1\<rparr>"
  have sl: "slots_ok ?s0" using vs_invD(4)[OF assms(1)] by (simp add: slots_ok_def)
  obtain i s1 where t: "take_slot ?s0 = Inr (i, s1)"
    and s': "s' = s1\<lparr>ring := ring s1 @ [new_thread s i fn InTrampoline], g_count := g_count s1 + 1\<rparr>"
    using assms(3) by (auto simp: vsched_create_def Let_def sbind_eq_Inr)
  note S = take_slot_spec[OF t sl]
  show ?thesis using S run_resets_set[OF assms(2)]
    by (intro exI[of _ "new_thread s i fn InTrampoline"])
      (auto simp: s' run_resets_other simp del: new_thread_def)
qed

theorem new_thread_slot_is_fresh_witness:
  "\<exists>t. ring boot2 = ring boot1 @ [t] \<and> (\<forall>u \<in> set (ring boot1). vt_slot u \<noteq> vt_slot t)"
proof -
  have "distinct (map tls_var (g_slot_resets boot1))" by (simp add: boot_defs)
  from new_thread_slot_is_fresh[OF vreach_inv[OF vreach_boot1] this create_boot2]
  show ?thesis by blast
qed

section \<open>Charging and giving way\<close>

lemma looks_state:
  "g_cur ((charge_look k c ^^ n) s) = g_cur s"
  "g_rsx_idle ((charge_look k c ^^ n) s) = g_rsx_idle s"
  "g_now ((charge_look k c ^^ n) s) = g_now s + of_nat n * look_cost k"
  "g_turn_run ((charge_look k c ^^ n) s) = g_turn_run s + int n * BUDGET_PER_LOOK"
  by (induction n) (simp_all add: charge_look_def Let_def algebra_simps)

lemma look_cost_values:
  "look_cost VSCHED_PPU = 2500" "look_cost VSCHED_SPU = 1250" "look_cost VSCHED_RSX = 80000"
  by (simp_all add: look_cost_def instr_q10_def PPU_INSTR_NS_Q10_def SPU_INSTR_NS_Q10_def
      RSX_CMD_NS_Q10_def BUDGET_PER_LOOK_def drop_bit_eq_div take_bit_eq_mod unsigned_word_eqI
      word_div_def)

lemma rsx_has_work_looks: "rsx_has_work m ((charge_look k c ^^ n) s) = rsx_has_work m s"
proof (induction n)
  case (Suc n)
  have "runs (charge_look k c x) r = runs x r" for x r
    by (cases "thread_of x r")
      (auto simp: charge_look_def Let_def runs_def thread_of_def can_run_def find_by_upd_by)
  moreover have "g_rsx_idle (charge_look k c x) = g_rsx_idle x" "g_cur (charge_look k c x) = g_cur x"
    "g_rsx_put (charge_look k c x) = g_rsx_put x" "g_rsx_put_seen (charge_look k c x) = g_rsx_put_seen x" for x
    by (simp_all add: charge_look_def Let_def upd_thread_def)
  ultimately have "rsx_has_work m (charge_look k c x) = rsx_has_work m x" for x
    by (simp add: rsx_has_work_def split: option.split)
  with Suc show ?case by simp
qed simp

lemma budget_look:
  assumes "g_cur s = Some c"
  shows "vsched_budget_expired m k ((charge_look k c ^^ n) s) =
    (case rsx_has_work m s of
       Some rsx \<Rightarrow> switch_to InSwitch rsx (wake_expired ((charge_look k c ^^ Suc n) s))
     | None \<Rightarrow> if g_turn_run s + int (Suc n) * BUDGET_PER_LOOK < BUDGET_PER_SLICE
         then (charge_look k c ^^ Suc n) s
         else vsched_yield 0 (((charge_look k c ^^ Suc n) s)\<lparr>g_turn_run := 0\<rparr>))"
  using rsx_has_work_looks[where n = "Suc n" and m = m and k = k and c = c and s = s]
    looks_state(4)[where n = "Suc n" and k = k and c = c and s = s]
  by (simp add: vsched_budget_expired_def looks_state(1) assms Let_def split: option.split)

text \<open>C10. A thread that computes without a break has the machine for twenty looks of 4,000
  instructions: the first nineteen only move the clock, 2,500 ns each for the PPU (half for
  the SPU), and the twentieth gives way, at 50,000 ns from the start of the slice. The one
  thing that cuts the slice short is an idle RSX whose queue has moved: the first look that
  sees it hands the machine straight to the RSX. Each look reads the memory as it is then
  (\<open>ms\<close> are the looks so far, \<open>m\<close> the next).\<close>

theorem slice_is_twenty_looks:
  assumes "g_cur s = Some c" "g_turn_run s = 0" "length ms < 20"
    "\<forall>m' \<in> set ms. rsx_has_work m' s = None"
  shows "fold (\<lambda>m'. vsched_budget_expired m' k) ms s = (charge_look k c ^^ length ms) s
    \<and> g_now ((charge_look k c ^^ length ms) s) = g_now s + of_nat (length ms) * look_cost k
    \<and> vsched_budget_expired m k (fold (\<lambda>m'. vsched_budget_expired m' k) ms s)
        = (case rsx_has_work m s of
             Some rsx \<Rightarrow> switch_to InSwitch rsx (wake_expired ((charge_look k c ^^ Suc (length ms)) s))
           | None \<Rightarrow> if length ms < 19 then (charge_look k c ^^ Suc (length ms)) s
               else vsched_yield 0 (((charge_look k c ^^ 20) s)\<lparr>g_turn_run := 0\<rparr>))
    \<and> g_now ((charge_look VSCHED_PPU c ^^ 20) s) = g_now s + 50000"
proof -
  have L: "fold (\<lambda>m'. vsched_budget_expired m' k) ms s = (charge_look k c ^^ length ms) s"
    using assms(3,4)
  proof (induction ms rule: rev_induct)
    case (snoc x xs)
    then show ?case using assms(2)
      by (simp add: budget_look[OF assms(1)] BUDGET_PER_LOOK_def BUDGET_PER_SLICE_def
          del: funpow.simps)
  qed simp
  have "int (Suc (length ms)) * BUDGET_PER_LOOK < BUDGET_PER_SLICE \<longleftrightarrow> length ms < 19"
    by (simp add: BUDGET_PER_LOOK_def BUDGET_PER_SLICE_def)
  moreover have "(charge_look k c ^^ Suc (length ms)) s = (charge_look k c ^^ 20) s" if "\<not> length ms < 19"
  proof -
    have "Suc (length ms) = 20" using that assms(3) by linarith
    then show ?thesis by (rule arg_cong)
  qed
  ultimately have "vsched_budget_expired m k ((charge_look k c ^^ length ms) s)
        = (case rsx_has_work m s of
             Some rsx \<Rightarrow> switch_to InSwitch rsx (wake_expired ((charge_look k c ^^ Suc (length ms)) s))
           | None \<Rightarrow> if length ms < 19 then (charge_look k c ^^ Suc (length ms)) s
               else vsched_yield 0 (((charge_look k c ^^ 20) s)\<lparr>g_turn_run := 0\<rparr>))"
    unfolding budget_look[OF assms(1)] assms(2) by (simp del: funpow.simps split: option.split)
  then show ?thesis unfolding L by (simp add: looks_state(3) look_cost_values del: funpow.simps)
qed

theorem slice_is_twenty_looks_witness:
  "g_now (fold (\<lambda>m'. vsched_budget_expired m' VSCHED_PPU) [\<lambda>_. 0, \<lambda>_. 5, \<lambda>_. 0] boot2) = 1000007500"
proof -
  have "\<forall>m' \<in> set [\<lambda>_. 0, \<lambda>_. 5, \<lambda>_. 0]. rsx_has_work m' boot2 = None" "g_turn_run boot2 = 0"
    "g_now boot2 = 1000000000"
    by (simp_all add: rsx_has_work_def boot_defs)
  from slice_is_twenty_looks[OF boot2_cur(1) this(2) _ this(1), of VSCHED_PPU] this(3)
  show ?thesis by (simp add: look_cost_values del: funpow.simps)
qed

lemma next_is_self:
  assumes "ring_links s" "c \<in> set (refs s)" "next_runnable_after s c = Some c" "runs s x"
  shows "x = c"
proof (rule ccontr)
  assume "x \<noteq> c"
  have d: "distinct (refs s)" using assms(1) by (simp add: ring_links_def)
  let ?A = "tl (dropWhile (\<lambda>x. x \<noteq> c) (refs s)) @ takeWhile (\<lambda>x. x \<noteq> c) (refs s)"
  have r: "rot_after c (refs s) = ?A @ [c]" by (simp add: rot_after_def)
  have "distinct (rot_after c (refs s))"
    using d assms(2) by (metis distinct_rotate in_set_conv_nth rot_after_rotate)
  then have A: "c \<notin> set ?A" unfolding r by simp
  have "x \<in> set ?A"
    using runs_in_ring[OF assms(4)] set_rot_after[OF d assms(2)] \<open>x \<noteq> c\<close> by (auto simp: r)
  have "find (runs s) (?A @ [c]) = Some c"
    using assms(3) next_runnable_after_find[OF assms(1,2)] r by simp
  moreover have "find (runs s) (xs @ [c]) \<noteq> Some c" if "x \<in> set xs" "c \<notin> set xs" for xs
    using that assms(4) by (induction xs) auto
  ultimately show False using \<open>x \<in> set ?A\<close> A by blast
qed

text \<open>A polling loop gives way exactly when another thread can run and no aside is on:
  \<open>vsched_poll_yield\<close> then returns true, with the machine in another thread's hands, and
  otherwise returns false and changes nothing.\<close>

theorem poll_yield_gives_way:
  assumes "vs_inv s"
  shows "(fst (vsched_poll_yield k used s) \<longleftrightarrow>
      g_aside s = None \<and> (\<exists>x. runs s x \<and> g_cur s \<noteq> Some x))
    \<and> (if fst (vsched_poll_yield k used s) then g_cur (snd (vsched_poll_yield k used s)) \<noteq> g_cur s
       else snd (vsched_poll_yield k used s) = s)"
proof -
  obtain c where c: "g_cur s = Some c" "runs s c" "c \<in> set (refs s)" using vs_invE[OF assms] by metis
  note links = vs_invD(3)[OF assms]
  obtain t where t: "next_runnable_after s c = Some t" using next_runnable_ex[OF links c(3,2)] by blast
  have tr: "runs s t" by (rule next_runnable_runs[OF t])
  have iff: "fst (vsched_poll_yield k used s) \<longleftrightarrow>
      g_aside s = None \<and> (\<exists>x. runs s x \<and> g_cur s \<noteq> Some x)"
    using c t tr next_is_self[OF links c(3)] by (auto simp: vsched_poll_yield_def)
  have no: "snd (vsched_poll_yield k used s) = s" if "\<not> fst (vsched_poll_yield k used s)"
    using that c t by (auto simp: vsched_poll_yield_def split: if_splits)
  have yes_case: "g_cur (snd (vsched_poll_yield k used s)) \<noteq> g_cur s"
    if yes: "fst (vsched_poll_yield k used s)"
  proof -
    obtain x where x: "runs s x" "x \<noteq> c" using yes iff c(1) by auto
    let ?s = "(upd_thread c (\<lambda>x. x\<lparr>vt_cpu := True\<rparr>) s)\<lparr>vsched_budget := BUDGET_PER_LOOK, g_turn_run := 0\<rparr>"
    have i: "vs_inv ?s" by (rule quiet_keeps[OF cpu_keeps[OF assms]]) simp_all
    have "runs (upd_thread c (\<lambda>x. x\<lparr>vt_cpu := True\<rparr>) s) x"
      using x(1) by (intro runs_upd) (auto simp: can_run_def)
    then have xr: "runs ?s x" by (auto simp: runs_def thread_of_def can_run_def split: option.splits)
    have cs: "g_cur ?s = Some c" using c(1) by simp
    have out: "snd (vsched_poll_yield k used s) = vsched_yield (poll_cost k used) ?s"
      using yes c(1) t by (auto simp: vsched_poll_yield_def split: if_splits)
    obtain s1 u where y: "next_runnable_after s1 c = Some u" "ring_links s1" "refs s1 = refs ?s"
      "g_cur s1 = Some c" "runs s1 x" "vsched_yield (poll_cost k used) ?s = switch_to InSwitch u s1"
      using yield_next[OF i cs, of "poll_cost k used"] xr by metis
    have "c \<in> set (refs s1)" using y(3) c(3) by (simp add: map_upd_by)
    then have "u \<noteq> c" using next_is_self[OF y(2) _ _ y(5)] y(1) x(2) by blast
    then show ?thesis unfolding out y(6) using switch_to_cur[OF y(4)] c(1) by simp
  qed
  from iff no yes_case show ?thesis by simp
qed

theorem poll_yield_gives_way_witness:
  "fst (vsched_poll_yield VSCHED_SPU 100 boot2) \<and> g_cur (snd (vsched_poll_yield VSCHED_SPU 100 boot2)) \<noteq> Some 0"
proof -
  have a: "g_aside boot2 = None" by (simp add: boot_defs)
  note P = poll_yield_gives_way[OF boot2_inv, of VSCHED_SPU 100]
  have "fst (vsched_poll_yield VSCHED_SPU 100 boot2)"
    using P[THEN conjunct1] a boot2_cur(1,6) by auto
  then show ?thesis using P[THEN conjunct2] boot2_cur(1) by simp
qed

end
