(* ===== verification/PkgDecrypt.thy ===== *)
theory PkgDecrypt
  imports Prelude
begin

unbundle bit_operations_syntax

text \<open>
  The keystream of a PS3 package (\<open>struct pkg_decryption\<close> of \<open>waterbox/memfs.cpp\<close>). AES-128
  and SHA-1 are the emulator's: \<open>aes key block\<close> and \<open>sha1 input\<close> are parameters of the
  definitions. The loop of \<open>apply\<close> walks from \<open>begin\<close> to \<open>end\<close>, both 64-bit values, in
  steps that never pass \<open>end\<close>; its positions are therefore natural numbers here, and
  the two sums that can wrap are taken on words.
\<close>

record pkg_decryption =
  data_offset :: u64
  data_size :: u64
  pkg_debug :: bool
  pkg_key :: bytes
  klicensee :: bytes
  qa_digest :: bytes

definition be64 :: "bytes \<Rightarrow> u64" where
  "be64 p = foldl (\<lambda>v b. push_bit 8 v OR ucast b) 0 (take 8 p)"

definition put_be64 :: "u64 \<Rightarrow> bytes" where
  "put_be64 v = map (\<lambda>i. ucast (drop_bit (8 * (7 - i)) v)) [0..<8]"

text \<open>What \<open>aes_crypt_ecb\<close> is given for a block of a retail package.\<close>

definition pkg_counter :: "bytes \<Rightarrow> u64 \<Rightarrow> bytes" where
  "pkg_counter kl block =
     (let lo = be64 (drop 8 kl) + block;
          hi = be64 kl + (if lo < block then 1 else 0)
      in put_be64 hi @ put_be64 lo)"

text \<open>What \<open>sha1\<close> is given for a block of a debug package: 64 bytes, of which 32 to 55 stay zero.\<close>

definition debug_input :: "bytes \<Rightarrow> u64 \<Rightarrow> bytes" where
  "debug_input qa block =
     take 8 qa @ take 8 qa @ take 8 (drop 8 qa) @ take 8 (drop 8 qa)
       @ replicate 24 0 @ put_be64 block"

definition pkg_stream :: "(bytes \<Rightarrow> bytes \<Rightarrow> bytes) \<Rightarrow> (bytes \<Rightarrow> bytes) \<Rightarrow> pkg_decryption \<Rightarrow> u64 \<Rightarrow> bytes" where
  "pkg_stream aes sha1 d block =
     (if pkg_debug d then sha1 (debug_input (qa_digest d) block)
      else aes (pkg_key d) (pkg_counter (klicensee d) block))"

text \<open>The inner loop: \<open>n\<close> bytes of the buffer from \<open>i\<close>, xored with the stream from \<open>w\<close>.\<close>

definition xor_run :: "nat \<Rightarrow> nat \<Rightarrow> bytes \<Rightarrow> nat \<Rightarrow> bytes \<Rightarrow> bytes" where
  "xor_run i n stream w buf = fold (\<lambda>j b. b[i + j := b ! (i + j) XOR stream ! (w + j)]) [0..<n] buf"

function pkg_loop :: "(u64 \<Rightarrow> bytes) \<Rightarrow> nat \<Rightarrow> nat \<Rightarrow> nat \<Rightarrow> nat \<Rightarrow> bytes \<Rightarrow> bytes" where
  "pkg_loop stream off at pos fin buf =
     (if pos < fin
      then (let rel = pos - off; block = rel div 16; within = rel mod 16;
                n = min (16 - within) (fin - pos)
            in pkg_loop stream off at (pos + n) fin
                 (xor_run (pos - at) n (stream (of_nat block)) within buf))
      else buf)"
  by pat_completeness auto
termination
proof (relation "measure (\<lambda>(stream, off, at, pos, fin, buf). fin - pos)", simp, goal_cases)
  case (1 stream off at pos fin buf rel block within n)
  then have "within < 16" by simp
  then have "0 < n" using 1 by simp
  then show ?case using 1(1) by simp
qed

declare pkg_loop.simps [simp del]

definition pkg_apply :: "(bytes \<Rightarrow> bytes \<Rightarrow> bytes) \<Rightarrow> (bytes \<Rightarrow> bytes) \<Rightarrow> pkg_decryption \<Rightarrow> u64 \<Rightarrow> bytes \<Rightarrow> bytes" where
  "pkg_apply aes sha1 d at buf =
     (let begin_pos = max at (data_offset d);
          end_pos = min (at + of_nat (length buf)) (data_offset d + data_size d)
      in if begin_pos \<ge> end_pos then buf
         else pkg_loop (pkg_stream aes sha1 d) (unat (data_offset d)) (unat at)
                (unat begin_pos) (unat end_pos) buf)"

section \<open>Byte order\<close>

lemma length_put_be64 [simp]: "length (put_be64 v) = 8"
  by (simp add: put_be64_def)

lemma byte_join: "push_bit 8 (drop_bit 8 (x :: u64)) OR ucast (ucast x :: u8) = x"
  by (rule bit_word_eqI) (auto simp: bit_simps)

lemma be64_prefix:
  "n \<le> 8 \<Longrightarrow> foldl (\<lambda>v b. push_bit 8 v OR ucast b) (0 :: u64)
     (map (\<lambda>i. ucast (drop_bit (8 * (7 - i)) v) :: u8) [0..<n]) = drop_bit (8 * (8 - n)) v"
proof (induction n)
  case (Suc n)
  then have "8 * (8 - n) = 8 + 8 * (7 - n)" by simp
  then have "drop_bit (8 * (8 - n)) v = drop_bit 8 (drop_bit (8 * (7 - n)) v)"
    by (simp add: drop_bit_drop_bit)
  then show ?case using Suc byte_join[of "drop_bit (8 * (7 - n)) v"] by simp
qed (rule bit_word_eqI, simp add: bit_simps)

lemma be64_put_be64 [simp]: "be64 (put_be64 v @ rest) = v" "be64 (put_be64 v) = v"
  using be64_prefix[of 8 v] by (simp_all add: be64_def put_be64_def del: upt_Suc)

definition be128 :: "bytes \<Rightarrow> nat" where
  "be128 p = unat (be64 p) * 2 ^ 64 + unat (be64 (drop 8 p))"

section \<open>The loop is a pointwise exclusive or\<close>

definition stream_byte :: "(u64 \<Rightarrow> bytes) \<Rightarrow> nat \<Rightarrow> u8" where
  "stream_byte stream rel = stream (of_nat (rel div 16)) ! (rel mod 16)"

lemma length_xor_run [simp]: "length (xor_run i n stream w buf) = length buf"
proof -
  have "length (fold (\<lambda>j b. b[i + j := b ! (i + j) XOR stream ! (w + j)]) js buf) = length buf" for js
    by (induction js arbitrary: buf) auto
  then show ?thesis by (simp add: xor_run_def)
qed

lemma nth_xor_run:
  "i + n \<le> length buf \<Longrightarrow> k < length buf \<Longrightarrow> xor_run i n stream w buf ! k =
    (if i \<le> k \<and> k < i + n then buf ! k XOR stream ! (w + (k - i)) else buf ! k)"
proof (induction n)
  case (Suc n)
  let ?b = "xor_run i n stream w buf"
  have "xor_run i (Suc n) stream w buf = ?b[i + n := ?b ! (i + n) XOR stream ! (w + n)]"
    by (simp add: xor_run_def)
  then show ?case using Suc by (auto simp: nth_list_update)
qed (auto simp: xor_run_def)

lemma length_pkg_loop [simp]: "length (pkg_loop stream off at pos fin buf) = length buf"
proof (induction stream off at pos fin buf rule: pkg_loop.induct)
  case (1 stream off at pos fin buf)
  then show ?case by (subst pkg_loop.simps) (simp add: Let_def)
qed

lemma pkg_loop_nth:
  assumes "off \<le> pos" "at \<le> pos" "fin \<le> at + length buf" "k < length buf"
  shows "pkg_loop stream off at pos fin buf ! k =
    (if pos \<le> at + k \<and> at + k < fin then buf ! k XOR stream_byte stream (at + k - off) else buf ! k)"
  using assms
proof (induction stream off at pos fin buf rule: pkg_loop.induct)
  case (1 stream off at pos fin buf)
  show ?case
  proof (cases "pos < fin")
    case True
    define w where "w = (pos - off) mod 16"
    define n where "n = min (16 - w) (fin - pos)"
    define b where "b = xor_run (pos - at) n (stream (of_nat ((pos - off) div 16))) w buf"
    have w: "w < 16" by (simp add: w_def)
    then have n: "0 < n" "pos + n \<le> fin" "w + n \<le> 16" using True by (auto simp: n_def)
    have e: "pkg_loop stream off at pos fin buf = pkg_loop stream off at (pos + n) fin b"
      using True by (subst pkg_loop.simps) (simp add: Let_def w_def n_def b_def)
    have IH: "pkg_loop stream off at (pos + n) fin b ! k =
      (if pos + n \<le> at + k \<and> at + k < fin then b ! k XOR stream_byte stream (at + k - off) else b ! k)"
      using 1(1)[OF True refl refl refl refl] 1(2-5) by (simp add: w_def n_def b_def)
    have bk: "b ! k = (if pos - at \<le> k \<and> k < pos - at + n
        then buf ! k XOR stream (of_nat ((pos - off) div 16)) ! (w + (k - (pos - at))) else buf ! k)"
      unfolding b_def using 1(2-5) n by (intro nth_xor_run) auto
    have sb: "stream (of_nat ((pos - off) div 16)) ! (w + (k - (pos - at))) = stream_byte stream (at + k - off)"
      if "pos \<le> at + k" "at + k < pos + n"
    proof -
      define j where "j = at + k - pos"
      have j: "j < n" "k - (pos - at) = j" "at + k - off = (pos - off) + j"
        using that 1(2,3) by (auto simp: j_def)
      define q where "q = (pos - off) div 16"
      have p: "pos - off + j = 16 * q + (w + j)" by (simp add: w_def q_def)
      have "w + j < 16" using j(1) n(3) by simp
      then have "(pos - off + j) div 16 = q" "(pos - off + j) mod 16 = w + j"
        unfolding p by simp_all
      then show ?thesis unfolding stream_byte_def j(2,3) by (simp add: q_def)
    qed
    show ?thesis unfolding e IH bk using sb n 1(2,3) by (auto simp: not_le)
  next
    case False
    then show ?thesis by (subst pkg_loop.simps) auto
  qed
qed

section \<open>The properties\<close>

definition in_region :: "pkg_decryption \<Rightarrow> nat \<Rightarrow> bool" where
  "in_region d p \<longleftrightarrow> unat (data_offset d) \<le> p \<and> p < unat (data_offset d) + unat (data_size d)"

text \<open>The plain bytes of a stretch that starts at \<open>at\<close>, byte by byte.\<close>

definition plain_byte :: "(u64 \<Rightarrow> bytes) \<Rightarrow> pkg_decryption \<Rightarrow> nat \<Rightarrow> u8 \<Rightarrow> u8" where
  "plain_byte stream d p b =
     (if in_region d p then b XOR stream_byte stream (p - unat (data_offset d)) else b)"

definition no_wrap :: "u64 \<Rightarrow> nat \<Rightarrow> bool" where
  "no_wrap a n \<longleftrightarrow> unat a + n < 2 ^ 64"

lemma length_pkg_apply [simp]: "length (pkg_apply aes sha1 d at buf) = length buf"
  by (simp add: pkg_apply_def Let_def)

lemma unat_add_no_wrap: "no_wrap a n \<Longrightarrow> unat (a + of_nat n) = unat a + n"
  by (simp add: no_wrap_def unat_word_ariths unat_of_nat)

lemma pkg_apply_nth:
  assumes "no_wrap at (length buf)" "no_wrap (data_offset d) (unat (data_size d))" "k < length buf"
  shows "pkg_apply aes sha1 d at buf ! k
    = plain_byte (pkg_stream aes sha1 d) d (unat at + k) (buf ! k)"
proof -
  let ?b = "max at (data_offset d)"
  let ?e = "min (at + of_nat (length buf)) (data_offset d + data_size d)"
  have e: "unat ?e = min (unat at + length buf) (unat (data_offset d) + unat (data_size d))"
    using unat_add_no_wrap[OF assms(1)] unat_add_no_wrap[OF assms(2)]
    by (auto simp: min_def word_le_nat_alt)
  have b: "unat ?b = max (unat at) (unat (data_offset d))"
    by (auto simp: max_def word_le_nat_alt)
  show ?thesis
  proof (cases "?b \<ge> ?e")
    case True
    then have "unat ?e \<le> unat ?b" by (simp add: word_le_nat_alt)
    then show ?thesis using True assms(3) e b
      by (auto simp: pkg_apply_def Let_def plain_byte_def in_region_def)
  next
    case False
    then have "pkg_apply aes sha1 d at buf = pkg_loop (pkg_stream aes sha1 d) (unat (data_offset d))
        (unat at) (unat ?b) (unat ?e) buf"
      by (simp add: pkg_apply_def)
    moreover have "pkg_loop (pkg_stream aes sha1 d) (unat (data_offset d)) (unat at) (unat ?b) (unat ?e) buf ! k
      = (if unat ?b \<le> unat at + k \<and> unat at + k < unat ?e
         then buf ! k XOR stream_byte (pkg_stream aes sha1 d) (unat at + k - unat (data_offset d))
         else buf ! k)"
      using assms(3) by (intro pkg_loop_nth) (auto simp: e b)
    ultimately show ?thesis using assms(3) by (auto simp: e b plain_byte_def in_region_def)
  qed
qed

text \<open>C21. Any stretch of a package can be decrypted without the rest of it: decrypting a slice of the raw
  bytes gives the same slice of the decrypted bytes.\<close>

theorem pkg_slices_agree:
  assumes "no_wrap at (length raw)" "no_wrap (data_offset d) (unat (data_size d))" "off + n \<le> length raw"
  shows "pkg_apply aes sha1 d (at + of_nat off) (cut off n raw) = cut off n (pkg_apply aes sha1 d at raw)"
proof (rule nth_equalityI)
  show "length (pkg_apply aes sha1 d (at + of_nat off) (cut off n raw)) = length (cut off n (pkg_apply aes sha1 d at raw))"
    by (simp add: length_cut)
  fix k assume "k < length (pkg_apply aes sha1 d (at + of_nat off) (cut off n raw))"
  then have k: "k < n" using assms(3) by (simp add: length_cut)
  have o: "unat (at + of_nat off) = unat at + off"
    using assms(1,3) by (intro unat_add_no_wrap) (simp add: no_wrap_def)
  have w: "no_wrap (at + of_nat off) (length (cut off n raw))"
    using assms(1,3) by (simp add: no_wrap_def o length_cut)
  have "pkg_apply aes sha1 d (at + of_nat off) (cut off n raw) ! k
      = plain_byte (pkg_stream aes sha1 d) d (unat at + off + k) (raw ! (off + k))"
    using pkg_apply_nth[OF w assms(2), of k] k assms(3) by (simp add: o length_cut nth_cut)
  moreover have "cut off n (pkg_apply aes sha1 d at raw) ! k
      = plain_byte (pkg_stream aes sha1 d) d (unat at + off + k) (raw ! (off + k))"
    using pkg_apply_nth[OF assms(1,2), of "off + k"] k assms(3) by (simp add: nth_cut length_cut add.assoc)
  ultimately show "pkg_apply aes sha1 d (at + of_nat off) (cut off n raw) ! k
      = cut off n (pkg_apply aes sha1 d at raw) ! k" by simp
qed

definition sample_pkg :: pkg_decryption where
  "sample_pkg = \<lparr>data_offset = 3, data_size = 4, pkg_debug = False, pkg_key = replicate 16 7,
     klicensee = replicate 16 255, qa_digest = replicate 16 0\<rparr>"

theorem pkg_slices_agree_witness:
  "pkg_apply (\<lambda>k b. b) (\<lambda>b. b) sample_pkg 4 (cut 4 2 [1, 2, 3, 4, 5, 6, 7, 8])
     = cut 4 2 (pkg_apply (\<lambda>k b. b) (\<lambda>b. b) sample_pkg 0 [1, 2, 3, 4, 5, 6, 7, 8])"
  using pkg_slices_agree[of 0 "[1, 2, 3, 4, 5, 6, 7, 8]" sample_pkg 4 2 "\<lambda>k b. b" "\<lambda>b. b"]
  by (simp add: no_wrap_def sample_pkg_def)

text \<open>C22. The counter of a retail package's block is the 128-bit number \<open>klicensee + block\<close>, with the
  carry out of its low half, modulo 2 to the 128.\<close>

theorem pkg_counter_is_128_bit_sum:
  "length (pkg_counter kl block) = 16 \<and>
   be128 (pkg_counter kl block) = (be128 kl + unat block) mod 2 ^ 128"
proof -
  define h where "h = unat (be64 kl)"
  define l where "l = unat (be64 (drop 8 kl))"
  define b where "b = unat block"
  have lt: "h < 2 ^ 64" "l < 2 ^ 64" "b < 2 ^ 64"
    using unsigned_less[of "be64 kl"] unsigned_less[of "be64 (drop 8 kl)"] unsigned_less[of block]
    by (simp_all add: h_def l_def b_def)
  define lo where "lo = be64 (drop 8 kl) + block"
  define hi where "hi = be64 kl + (if lo < block then 1 else 0)"
  have ulo: "unat lo = (l + b) mod 2 ^ 64" by (simp add: lo_def l_def b_def unat_word_ariths)
  have carry: "lo < block \<longleftrightarrow> 2 ^ 64 \<le> l + b"
    using lt by (auto simp: word_less_nat_alt ulo b_def[symmetric] mod_if split: if_splits)
  have uhi: "unat hi = (h + (if 2 ^ 64 \<le> l + b then 1 else 0)) mod 2 ^ 64"
    by (simp add: hi_def h_def unat_word_ariths carry)
  have "be128 (pkg_counter kl block) = unat hi * 2 ^ 64 + unat lo"
    by (simp add: pkg_counter_def Let_def be128_def lo_def[symmetric] hi_def[symmetric])
  also have "\<dots> = (h * 2 ^ 64 + l + b) mod 2 ^ 128"
  proof (cases "2 ^ 64 \<le> l + b")
    case True
    then have m: "(l + b) mod 2 ^ 64 = l + b - 2 ^ 64" using lt by (simp add: mod_if)
    show ?thesis
    proof (cases "h + 1 = 2 ^ 64")
      case True
      then show ?thesis using \<open>2 ^ 64 \<le> l + b\<close> m lt by (simp add: ulo uhi mod_if)
    next
      case False
      then show ?thesis using True m lt by (simp add: ulo uhi mod_if)
    qed
  next
    case False
    then show ?thesis using lt by (simp add: ulo uhi)
  qed
  finally show ?thesis by (simp add: pkg_counter_def Let_def be128_def h_def l_def b_def)
qed

end
