(* ===== verification/OrdMap.thy ===== *)
theory OrdMap
  imports Prelude "HOL-Library.Char_ord" "HOL-Library.List_Lexorder"
begin

text \<open>
  The interface of an ordered map, and \<open>std::map\<close> as the sources use it: an association
  list in strictly ascending key order. Keys that are strings compare byte by byte,
  as \<open>std::string\<close> does.
\<close>

locale ordered_map =
  fixes ok :: "'m \<Rightarrow> bool"
    and empty :: 'm
    and get :: "'k::linorder \<Rightarrow> 'm \<Rightarrow> 'v option"
    and put :: "'k \<Rightarrow> 'v \<Rightarrow> 'm \<Rightarrow> 'm"
    and erase :: "'k \<Rightarrow> 'm \<Rightarrow> 'm"
    and keys :: "'m \<Rightarrow> 'k list"
  assumes empty_ok: "ok empty"
    and get_empty: "get k empty = None"
    and put_ok: "ok m \<Longrightarrow> ok (put k v m)"
    and erase_ok: "ok m \<Longrightarrow> ok (erase k m)"
    and get_put: "ok m \<Longrightarrow> get j (put k v m) = (if j = k then Some v else get j m)"
    and get_erase: "ok m \<Longrightarrow> get j (erase k m) = (if j = k then None else get j m)"
    and keys_sorted: "ok m \<Longrightarrow> sorted (keys m) \<and> distinct (keys m)"
    and set_keys: "ok m \<Longrightarrow> set (keys m) = {k. get k m \<noteq> None}"
begin

lemma keys_empty: "keys empty = []"
proof -
  have "set (keys empty) = {}" by (simp add: set_keys[OF empty_ok] get_empty)
  then show ?thesis by simp
qed

lemma get_move:
  "ok m \<Longrightarrow> get j (put b v (erase a m)) = (if j = b then Some v else if j = a then None else get j m)"
  by (simp add: get_put get_erase erase_ok)

text \<open>The order of enumeration is a function of the contents alone.\<close>

lemma keys_determined:
  assumes "ok m" "ok m'" "\<And>k. get k m = get k m'"
  shows "keys m = keys m'"
proof -
  have "set (keys m) = set (keys m')" using assms by (simp add: set_keys)
  then show ?thesis
    using keys_sorted[OF assms(1)] keys_sorted[OF assms(2)] by (metis sorted_distinct_set_unique)
qed

end

section \<open>\<open>std::map\<close>\<close>

fun om_get :: "'k::linorder \<Rightarrow> ('k \<times> 'v) list \<Rightarrow> 'v option" where
  "om_get k [] = None"
| "om_get k ((j, v) # m) = (if k = j then Some v else om_get k m)"

fun om_put :: "'k::linorder \<Rightarrow> 'v \<Rightarrow> ('k \<times> 'v) list \<Rightarrow> ('k \<times> 'v) list" where
  "om_put k v [] = [(k, v)]"
| "om_put k v ((j, w) # m) =
     (if k = j then (k, v) # m else if k < j then (k, v) # (j, w) # m else (j, w) # om_put k v m)"

definition om_erase :: "'k::linorder \<Rightarrow> ('k \<times> 'v) list \<Rightarrow> ('k \<times> 'v) list" where
  "om_erase k m = filter (\<lambda>p. fst p \<noteq> k) m"

definition om_ok :: "('k::linorder \<times> 'v) list \<Rightarrow> bool" where
  "om_ok m \<longleftrightarrow> sorted_wrt (<) (map fst m)"

lemma om_get_put: "om_get j (om_put k v m) = (if j = k then Some v else om_get j m)"
  by (induction k v m rule: om_put.induct) auto

lemma om_get_erase: "om_get j (om_erase k m) = (if j = k then None else om_get j m)"
  by (induction m) (auto simp: om_erase_def)

lemma fst_set_om_put: "fst ` set (om_put k v m) = insert k (fst ` set m)"
  by (induction k v m rule: om_put.induct) auto

lemma om_ok_Nil [simp]: "om_ok []"
  by (simp add: om_ok_def)

lemma om_ok_Cons [simp]: "om_ok ((j, w) # m) \<longleftrightarrow> (\<forall>k \<in> fst ` set m. j < k) \<and> om_ok m"
  by (simp add: om_ok_def)

lemma om_ok_put: "om_ok m \<Longrightarrow> om_ok (om_put k v m)"
proof (induction k v m rule: om_put.induct)
  case (2 k v j w m)
  consider "k = j" | "k < j" | "j < k" by (metis linorder_less_linear)
  then show ?case
  proof cases
    case 3
    then show ?thesis using 2 by (auto simp: fst_set_om_put simp del: ball_simps)
  qed (use 2 in auto)
qed simp

lemma om_ok_erase: "om_ok m \<Longrightarrow> om_ok (om_erase k m)"
  by (induction m) (auto simp: om_ok_def om_erase_def)

lemma om_get_keys: "om_get k m \<noteq> None \<longleftrightarrow> k \<in> fst ` set m"
  by (induction m) auto

lemma om_get_in: "om_get k m = Some v \<Longrightarrow> (k, v) \<in> set m"
  by (induction m) (auto split: if_splits)

lemma om_get_mem: "om_ok m \<Longrightarrow> (k, v) \<in> set m \<longleftrightarrow> om_get k m = Some v"
proof
  show "om_ok m \<Longrightarrow> (k, v) \<in> set m \<Longrightarrow> om_get k m = Some v"
    by (induction m) force+
qed (rule om_get_in)

interpretation kids: ordered_map om_ok "[] :: ('k::linorder \<times> 'v) list" om_get om_put om_erase "map fst"
proof
  fix m :: "('k \<times> 'v) list" and k :: 'k and v :: 'v
  show "om_ok ([] :: ('k \<times> 'v) list)" by (simp add: om_ok_def)
  show "om_ok m \<Longrightarrow> sorted (map fst m) \<and> distinct (map fst m)"
    by (simp add: om_ok_def strict_sorted_iff)
  show "om_ok m \<Longrightarrow> set (map fst m) = {k. om_get k m \<noteq> None}"
    unfolding om_get_keys by simp
qed (simp_all add: om_ok_put om_ok_erase om_get_put om_get_erase)

end
