(* ===== verification/MemfsState.thy ===== *)
theory MemfsState
  imports PkgDecrypt OrdMap VschedState
begin

text \<open>
  The state of the in-memory filesystem, \<open>waterbox/memfs.cpp\<close>. A \<open>struct node\<close> is an
  \<open>fnode\<close>; a node is named by a number that stands for its address, and \<open>fs_nodes\<close> holds
  them. A shared pointer is the number; nodes are never given back here, so whether a
  weak pointer still has an owner is a parameter of the operation that asks (\<open>alive\<close>).

  What is not in the repository is in the record \<open>fsenv\<close>: the files of the host as C
  stdio serves them, and the emulator's disc decryption (setting it up says whether the
  image needs one, and which reads of this filesystem it took to find out), AES and SHA-1. The two archive
  readers are modelled elsewhere (\<open>Zip\<close>, \<open>SevenZip\<close>) and appear here through the same
  interface, a read at an offset.
\<close>

section \<open>Paths\<close>

definition is_slash :: "char \<Rightarrow> bool" where
  "is_slash c \<longleftrightarrow> c = CHR ''/'' \<or> c = CHR 0x5C"

definition keep_part :: "string \<Rightarrow> bool" where
  "keep_part p \<longleftrightarrow> p \<noteq> [] \<and> p \<noteq> ''.''"

fun split_loop :: "string list \<Rightarrow> string \<Rightarrow> string \<Rightarrow> string list" where
  "split_loop parts cur [] = (if keep_part cur then parts @ [cur] else parts)"
| "split_loop parts cur (c # cs) =
     (if is_slash c then split_loop (if keep_part cur then parts @ [cur] else parts) [] cs
      else split_loop parts (cur @ [c]) cs)"

definition split_path :: "string \<Rightarrow> string list" where
  "split_path rel = split_loop [] [] rel"

definition memfs_root :: string where
  "memfs_root = ''/vfsv0_chimera_core_memory_fs_dev''"

definition strip_root :: "string \<Rightarrow> string" where
  "strip_root path = (if take (length memfs_root) path = memfs_root
                      then drop (length memfs_root) path else path)"

text \<open>The directory part that the graft functions hand to \<open>mkdirs\<close>.\<close>

definition dir_string :: "string list \<Rightarrow> string" where
  "dir_string parts = concat (map (\<lambda>p. p @ ''/'') (butlast parts))"

section \<open>Nodes\<close>

datatype backing = Memory | HostFile string | ZipEntry nat nat | SzEntry nat nat

record fnode =
  fn_dir :: bool
  fn_data :: bytes
  fn_backing :: backing
  fn_host_size :: nat
  fn_disc_dec :: "nat option"
  fn_disc_dec_off :: "nat option"
  fn_disc_tried :: bool
  fn_pkg_dec :: "pkg_decryption option"
  fn_kids :: "(string \<times> nat) list"
  fn_mtime :: int
  fn_mirror :: "nat option"
  fn_mirror_len :: nat
  fn_mirror_at :: nat

definition blank_node :: fnode where
  "blank_node = \<lparr>fn_dir = False, fn_data = [], fn_backing = Memory, fn_host_size = 0,
     fn_disc_dec = None, fn_disc_dec_off = None, fn_disc_tried = False, fn_pkg_dec = None,
     fn_kids = [], fn_mtime = 0, fn_mirror = None, fn_mirror_len = 0, fn_mirror_at = 0\<rparr>"

lemma blank_fields [simp]:
  "\<not> fn_dir blank_node" "fn_data blank_node = []" "fn_backing blank_node = Memory"
  "fn_kids blank_node = []" "fn_mirror blank_node = None" "fn_disc_dec blank_node = None"
  "fn_pkg_dec blank_node = None"
  by (simp_all add: blank_node_def)

definition read_only :: "fnode \<Rightarrow> bool" where
  "read_only n \<longleftrightarrow> fn_backing n \<noteq> Memory"

definition logical_size :: "fnode \<Rightarrow> nat" where
  "logical_size n = (if fn_mirror n = None then length (fn_data n) else fn_mirror_len n)"

section \<open>The outside\<close>

text \<open>What \<open>fseek\<close> and \<open>fread\<close> on an open descriptor give: \<open>None\<close> when the seek fails, else
  the bytes read (fewer than asked for when the read is short).\<close>

type_synonym hfile = "nat \<Rightarrow> nat \<Rightarrow> bytes option"

record recent_read =
  rr_source :: nat
  rr_offset :: nat
  rr_size :: nat

record fsenv =
  env_open :: "string \<Rightarrow> hfile option"
  env_zip :: "nat \<Rightarrow> nat \<Rightarrow> nat \<Rightarrow> nat \<Rightarrow> bytes"
  env_sz :: "nat \<Rightarrow> nat \<Rightarrow> nat \<Rightarrow> nat \<Rightarrow> bytes"
  env_disc :: "nat \<Rightarrow> nat \<Rightarrow> bytes \<Rightarrow> bytes"
  env_disc_init :: "string \<Rightarrow> nat option \<times> recent_read list"
  env_aes :: "bytes \<Rightarrow> bytes \<Rightarrow> bytes"
  env_sha1 :: "bytes \<Rightarrow> bytes"

section \<open>The filesystem\<close>

record mirror_stats =
  ms_mirrors :: u64
  ms_held :: u64
  ms_copied :: u64
  ms_decrypted :: u64

record memfs =
  fs_nodes :: "nat \<Rightarrow> fnode"
  fs_next :: nat
  fs_root :: nat
  fs_now :: u64
  fs_recent :: "recent_read list"
  fs_recent_next :: nat
  fs_readers :: "nat \<Rightarrow> hfile option"
  fs_stats :: mirror_stats

definition RECENT_READS :: nat where "RECENT_READS = 64"
definition MIRROR_MIN_START :: nat where "MIRROR_MIN_START = 4096"
definition VSCHED_EPOCH_SECONDS :: u64 where "VSCHED_EPOCH_SECONDS = 1495889068"

definition zero_stats :: mirror_stats where
  "zero_stats = \<lparr>ms_mirrors = 0, ms_held = 0, ms_copied = 0, ms_decrypted = 0\<rparr>"

text \<open>The filesystem as \<open>memfs_install\<close> leaves it: an empty root.\<close>

definition memfs_install :: "u64 \<Rightarrow> memfs" where
  "memfs_install now =
     \<lparr>fs_nodes = (\<lambda>_. blank_node)(0 := blank_node\<lparr>fn_dir := True\<rparr>), fs_next = 1, fs_root = 0,
      fs_now = now, fs_recent = replicate RECENT_READS \<lparr>rr_source = 0, rr_offset = 0, rr_size = 0\<rparr>,
      fs_recent_next = 0, fs_readers = (\<lambda>_. None), fs_stats = zero_stats\<rparr>"

definition now_mtime :: "memfs \<Rightarrow> int" where
  "now_mtime s = sint VSCHED_EPOCH_SECONDS + sint (fs_now s div 1000000000)"

definition upd_node :: "nat \<Rightarrow> (fnode \<Rightarrow> fnode) \<Rightarrow> memfs \<Rightarrow> memfs" where
  "upd_node i f s = s\<lparr>fs_nodes := (fs_nodes s)(i := f (fs_nodes s i))\<rparr>"

definition remember_read :: "recent_read \<Rightarrow> memfs \<Rightarrow> memfs" where
  "remember_read r s =
     (if rr_size r = 0 then s
      else s\<lparr>fs_recent := (fs_recent s)[fs_recent_next s mod RECENT_READS := r],
             fs_recent_next := fs_recent_next s + 1\<rparr>)"

text \<open>\<open>std::make_shared<node>()\<close>, with the fields set right after it.\<close>

definition new_node :: "fnode \<Rightarrow> memfs \<Rightarrow> nat \<times> memfs" where
  "new_node n s =
     (fs_next s, s\<lparr>fs_nodes := (fs_nodes s)(fs_next s := n\<lparr>fn_mtime := now_mtime s\<rparr>),
                   fs_next := fs_next s + 1\<rparr>)"

record fstat =
  st_dir :: bool
  st_symlink :: bool
  st_writable :: bool
  st_size :: nat
  st_mtime :: int

definition fill_stat :: "fnode \<Rightarrow> fstat" where
  "fill_stat n = \<lparr>st_dir = fn_dir n, st_symlink = False, st_writable = \<not> read_only n,
     st_size = (if fn_dir n then 0 else if \<not> read_only n then logical_size n else fn_host_size n),
     st_mtime = fn_mtime n\<rparr>"

section \<open>Splitting\<close>

definition good_part :: "string \<Rightarrow> bool" where
  "good_part p \<longleftrightarrow> keep_part p \<and> list_all (\<lambda>c. \<not> is_slash c) p"

lemma split_loop_parts: "split_loop parts cur s = parts @ split_loop [] cur s"
proof (induction s arbitrary: parts cur)
  case (Cons c s)
  show ?case
    using Cons[of "parts @ [cur]" "[]"] Cons[of "[cur]" "[]"] Cons[of parts "[]"] Cons[of parts "cur @ [c]"]
    by simp
qed simp

lemma split_loop_append:
  "is_slash c \<Longrightarrow> split_loop [] cur (a @ c # b) = split_loop [] cur a @ split_loop [] [] b"
proof (induction a arbitrary: cur)
  case Nil
  then show ?case by (simp add: split_loop_parts[of "[cur]"])
next
  case (Cons x a)
  then show ?case by (simp add: split_loop_parts[of "[cur]"])
qed

lemma split_path_slash: "is_slash c \<Longrightarrow> split_path (a @ c # b) = split_path a @ split_path b"
  by (simp add: split_path_def split_loop_append)

lemma split_loop_plain:
  "list_all (\<lambda>c. \<not> is_slash c) s \<Longrightarrow> split_loop [] cur s = (if keep_part (cur @ s) then [cur @ s] else [])"
  by (induction s arbitrary: cur) auto

lemma split_path_plain: "good_part p \<Longrightarrow> split_path p = [p]"
  by (simp add: split_path_def split_loop_plain good_part_def)

lemma split_path_good: "\<forall>p \<in> set (split_path s). good_part p"
proof -
  have "list_all (\<lambda>c. \<not> is_slash c) cur \<Longrightarrow> \<forall>p \<in> set (split_loop [] cur s). good_part p" for cur
  proof (induction s arbitrary: cur)
    case (Cons c s)
    then show ?case
      using Cons.IH[of "[]"] Cons.IH[of "cur @ [c]"]
      by (auto simp: split_loop_parts[of "[cur]"] good_part_def)
  qed (simp add: good_part_def)
  from this[of "[]"] show ?thesis by (simp add: split_path_def)
qed

lemma split_path_Nil [simp]: "split_path [] = []"
  by (simp add: split_path_def keep_part_def)

lemma split_join:
  "\<forall>p \<in> set ps. good_part p \<Longrightarrow> split_path (concat (map (\<lambda>p. p @ ''/'') ps)) = ps"
proof (induction ps)
  case (Cons p ps)
  have "split_path (p @ CHR ''/'' # concat (map (\<lambda>p. p @ ''/'') ps)) = split_path p @ ps"
    using Cons by (subst split_path_slash) (auto simp: is_slash_def)
  then show ?case using Cons.prems by (simp add: split_path_plain)
qed simp

lemma split_dir_string: "split_path (dir_string (split_path rel)) = butlast (split_path rel)"
  unfolding dir_string_def using split_path_good
  by (intro split_join) (auto dest: in_set_butlastD)

end
