(* ===== verification/MemfsTree.thy ===== *)
theory MemfsTree
  imports MemfsState
begin

text \<open>
  The directory tree of \<open>waterbox/memfs.cpp\<close>: walking it, and the operations of the device
  and of the driver that change its shape. An operation that reports an error changes
  nothing, so its result is the error or the new state.
\<close>

datatype fserror = Noent | Exist | Notempty | Isdir | Readonly

type_synonym place = "nat \<times> string"

section \<open>Walking\<close>

abbreviation kid :: "memfs \<Rightarrow> nat \<Rightarrow> string \<Rightarrow> nat option" where
  "kid s i p \<equiv> om_get p (fn_kids (fs_nodes s i))"

abbreviation is_dir :: "memfs \<Rightarrow> nat \<Rightarrow> bool" where
  "is_dir s i \<equiv> fn_dir (fs_nodes s i)"

text \<open>The node, and the directory and name the last component stands for: the out
  parameters \<open>parent\<close> and \<open>leaf\<close> of \<open>lookup\<close>.\<close>

fun lookup_loop :: "memfs \<Rightarrow> string list \<Rightarrow> nat \<Rightarrow> nat option \<times> place option" where
  "lookup_loop s [] cur = (Some cur, None)"
| "lookup_loop s (p # ps) cur =
     (if \<not> is_dir s cur then (None, None)
      else case kid s cur p of
        None \<Rightarrow> (None, if ps = [] then Some (cur, p) else None)
      | Some c \<Rightarrow> if ps = [] then (Some c, Some (cur, p)) else lookup_loop s ps c)"

definition lookup :: "memfs \<Rightarrow> string \<Rightarrow> nat option \<times> place option" where
  "lookup s rel = lookup_loop s (split_path rel) (fs_root s)"

definition set_kid :: "nat \<Rightarrow> string \<Rightarrow> nat \<Rightarrow> memfs \<Rightarrow> memfs" where
  "set_kid d p c s = upd_node d (\<lambda>n. n\<lparr>fn_kids := om_put p c (fn_kids n)\<rparr>) s"

definition drop_kid :: "nat \<Rightarrow> string \<Rightarrow> memfs \<Rightarrow> memfs" where
  "drop_kid d p s = upd_node d (\<lambda>n. n\<lparr>fn_kids := om_erase p (fn_kids n)\<rparr>) s"

text \<open>A fresh node put in a directory.\<close>

definition add_node :: "nat \<Rightarrow> string \<Rightarrow> fnode \<Rightarrow> memfs \<Rightarrow> memfs" where
  "add_node d p n s = (let (c, s1) = new_node n s in set_kid d p c s1)"

fun mkdirs_loop :: "string list \<Rightarrow> nat \<Rightarrow> memfs \<Rightarrow> nat option \<times> memfs" where
  "mkdirs_loop [] cur s = (Some cur, s)"
| "mkdirs_loop (p # ps) cur s =
     (case kid s cur p of
        None \<Rightarrow> mkdirs_loop ps (fs_next s) (add_node cur p (blank_node\<lparr>fn_dir := True\<rparr>) s)
      | Some c \<Rightarrow> if \<not> is_dir s c then (None, s) else mkdirs_loop ps c s)"

definition mkdirs :: "string \<Rightarrow> memfs \<Rightarrow> nat option \<times> memfs" where
  "mkdirs rel s = mkdirs_loop (split_path rel) (fs_root s) s"

definition memfs_mkdirs :: "string \<Rightarrow> memfs \<Rightarrow> memfs" where
  "memfs_mkdirs rel s = snd (mkdirs rel s)"

section \<open>The device\<close>

definition dev_stat :: "string \<Rightarrow> memfs \<Rightarrow> fserror + fstat" where
  "dev_stat path s =
     (case fst (lookup s (strip_root path)) of
        None \<Rightarrow> Inl Noent
      | Some n \<Rightarrow> Inr (fill_stat (fs_nodes s n)))"

record devstat =
  dv_block :: u64
  dv_total :: u64
  dv_free :: u64
  dv_avail :: u64

definition dev_statfs :: devstat where
  "dev_statfs = \<lparr>dv_block = 4096, dv_total = push_bit 30 8, dv_free = push_bit 30 4,
                dv_avail = push_bit 30 4\<rparr>"

definition remove_dir :: "string \<Rightarrow> memfs \<Rightarrow> fserror + memfs" where
  "remove_dir path s =
     (case lookup s (strip_root path) of
        (Some n, Some (d, leaf)) \<Rightarrow>
          if \<not> is_dir s n then Inl Noent
          else if fn_kids (fs_nodes s n) \<noteq> [] then Inl Notempty
          else Inr (drop_kid d leaf s)
      | _ \<Rightarrow> Inl Noent)"

definition create_dir :: "string \<Rightarrow> memfs \<Rightarrow> fserror + memfs" where
  "create_dir path s =
     (case lookup s (strip_root path) of
        (Some n, _) \<Rightarrow> Inl Exist
      | (None, None) \<Rightarrow> Inl Noent
      | (None, Some (d, leaf)) \<Rightarrow> Inr (add_node d leaf (blank_node\<lparr>fn_dir := True\<rparr>) s))"

definition rename :: "string \<Rightarrow> string \<Rightarrow> memfs \<Rightarrow> fserror + memfs" where
  "rename from to s =
     (case lookup s (strip_root from) of
        (Some n, Some (fd, fleaf)) \<Rightarrow>
          (case lookup s (strip_root to) of
             (existing, Some (td, tleaf)) \<Rightarrow>
               if (case existing of None \<Rightarrow> False
                   | Some e \<Rightarrow> is_dir s e \<and> fn_kids (fs_nodes s e) \<noteq> [])
               then Inl Notempty
               else (let s1 = set_kid td tleaf n (drop_kid fd fleaf s)
                     in Inr (upd_node n (\<lambda>x. x\<lparr>fn_mtime := now_mtime s1\<rparr>) s1))
           | (_, None) \<Rightarrow> Inl Noent)
      | _ \<Rightarrow> Inl Noent)"

definition remove :: "string \<Rightarrow> memfs \<Rightarrow> fserror + memfs" where
  "remove path s =
     (case lookup s (strip_root path) of
        (Some n, Some (d, leaf)) \<Rightarrow> if is_dir s n then Inl Noent else Inr (drop_kid d leaf s)
      | _ \<Rightarrow> Inl Noent)"

definition utime :: "string \<Rightarrow> int \<Rightarrow> memfs \<Rightarrow> memfs option" where
  "utime path mtime s =
     (case fst (lookup s (strip_root path)) of
        None \<Rightarrow> None
      | Some n \<Rightarrow> Some (upd_node n (\<lambda>x. x\<lparr>fn_mtime := mtime\<rparr>) s))"

text \<open>A directory listing: \<open>"."\<close> and \<open>".."\<close>, both with the directory's own figures, then the
  children in name order.\<close>

definition mem_dir_entries :: "nat \<Rightarrow> memfs \<Rightarrow> (string \<times> fstat) list" where
  "mem_dir_entries d s =
     map (\<lambda>dots. (dots, fill_stat (fs_nodes s d))) [''.'', ''..'']
       @ map (\<lambda>(name, c). (name, fill_stat (fs_nodes s c))) (fn_kids (fs_nodes s d))"

record mem_dir =
  md_entries :: "(string \<times> fstat) list"
  md_at :: nat

definition open_dir :: "string \<Rightarrow> memfs \<Rightarrow> fserror + mem_dir" where
  "open_dir path s =
     (case fst (lookup s (strip_root path)) of
        None \<Rightarrow> Inl Noent
      | Some n \<Rightarrow> if \<not> is_dir s n then Inl Noent
                  else Inr \<lparr>md_entries = mem_dir_entries n s, md_at = 0\<rparr>)"

definition mem_dir_read :: "mem_dir \<Rightarrow> ((string \<times> fstat) \<times> mem_dir) option" where
  "mem_dir_read d =
     (if md_at d \<ge> length (md_entries d) then None
      else Some (md_entries d ! md_at d, d\<lparr>md_at := md_at d + 1\<rparr>))"

definition mem_dir_rewind :: "mem_dir \<Rightarrow> mem_dir" where
  "mem_dir_rewind d = d\<lparr>md_at := 0\<rparr>"

section \<open>Grafting, from the driver\<close>

text \<open>The part the graft functions share: make the directories, then put the node there.\<close>

definition graft_node :: "string \<Rightarrow> fnode \<Rightarrow> memfs \<Rightarrow> bool \<times> memfs" where
  "graft_node rel n s =
     (let parts = split_path rel in
      if parts = [] then (False, s)
      else (case mkdirs (dir_string parts) s of
              (None, s1) \<Rightarrow> (False, s1)
            | (Some d, s1) \<Rightarrow> (True, add_node d (last parts) n s1)))"

text \<open>\<open>found\<close> is what \<open>fopen\<close>, \<open>fseek\<close> and \<open>ftell\<close> say of the host's file: nothing, or its size.\<close>

definition memfs_graft :: "string \<Rightarrow> string \<Rightarrow> int option \<Rightarrow> memfs \<Rightarrow> bool \<times> memfs" where
  "memfs_graft rel host_path found s =
     (case found of
        None \<Rightarrow> (False, s)
      | Some len \<Rightarrow> graft_node rel (blank_node\<lparr>fn_backing := HostFile host_path,
                                       fn_host_size := (if len < 0 then 0 else nat len)\<rparr>) s)"

definition memfs_graft_zip_entry :: "string \<Rightarrow> nat \<Rightarrow> nat \<Rightarrow> u64 \<Rightarrow> memfs \<Rightarrow> memfs" where
  "memfs_graft_zip_entry rel ix entry len s =
     snd (graft_node rel (blank_node\<lparr>fn_backing := ZipEntry ix entry, fn_host_size := unat len\<rparr>) s)"

definition memfs_graft_sz_entry :: "string \<Rightarrow> nat \<Rightarrow> nat \<Rightarrow> u64 \<Rightarrow> memfs \<Rightarrow> memfs" where
  "memfs_graft_sz_entry rel ix entry len s =
     snd (graft_node rel (blank_node\<lparr>fn_backing := SzEntry ix entry, fn_host_size := unat len\<rparr>) s)"

text \<open>\<open>memfs_put\<close> checks neither of the two things the graft functions check: \<open>None\<close> is
  the null pointer it would go through.\<close>

definition memfs_put :: "string \<Rightarrow> bytes \<Rightarrow> memfs \<Rightarrow> memfs option" where
  "memfs_put rel data s =
     (let parts = split_path rel in
      if parts = [] then None
      else (case mkdirs (dir_string parts) s of
              (None, s1) \<Rightarrow> None
            | (Some d, s1) \<Rightarrow> Some (add_node d (last parts) (blank_node\<lparr>fn_data := data\<rparr>) s1)))"

definition is_host_file :: "fnode \<Rightarrow> bool" where
  "is_host_file n \<longleftrightarrow> \<not> fn_dir n \<and> (case fn_backing n of HostFile _ \<Rightarrow> True | _ \<Rightarrow> False)"

definition memfs_mark_disc_image :: "fsenv \<Rightarrow> string \<Rightarrow> memfs \<Rightarrow> memfs" where
  "memfs_mark_disc_image env rel s =
     (case fst (lookup s rel) of
        None \<Rightarrow> s
      | Some n \<Rightarrow>
          if \<not> is_host_file (fs_nodes s n) \<or> fn_disc_tried (fs_nodes s n) then s
          else (case env_disc_init env (memfs_root @ ''/'' @ rel) of (made, reads) \<Rightarrow>
                  upd_node n (\<lambda>x. x\<lparr>fn_disc_tried := True,
                      fn_disc_dec := (case made of None \<Rightarrow> fn_disc_dec x | Some d \<Rightarrow> Some d)\<rparr>)
                    (fold remember_read reads s)))"

definition memfs_mark_package :: "string \<Rightarrow> pkg_decryption \<Rightarrow> memfs \<Rightarrow> bool \<times> memfs" where
  "memfs_mark_package rel dec s =
     (case fst (lookup s rel) of
        None \<Rightarrow> (False, s)
      | Some n \<Rightarrow>
          if \<not> is_host_file (fs_nodes s n) then (False, s)
          else (True, (upd_node n (\<lambda>x. x\<lparr>fn_pkg_dec := Some dec\<rparr>) s)\<lparr>fs_readers := (\<lambda>_. None)\<rparr>))"

definition memfs_disc_image_is_encrypted :: "string \<Rightarrow> memfs \<Rightarrow> bool" where
  "memfs_disc_image_is_encrypted rel s =
     (case fst (lookup s rel) of
        None \<Rightarrow> False
      | Some n \<Rightarrow> fn_disc_dec (fs_nodes s n) \<noteq> None \<or> fn_disc_dec_off (fs_nodes s n) \<noteq> None)"

definition memfs_set_disc_decryption :: "string \<Rightarrow> bool \<Rightarrow> memfs \<Rightarrow> memfs" where
  "memfs_set_disc_decryption rel on s =
     (case fst (lookup s rel) of
        None \<Rightarrow> s
      | Some n \<Rightarrow>
          (upd_node n (\<lambda>x.
             if on \<and> fn_disc_dec_off x \<noteq> None
             then x\<lparr>fn_disc_dec := fn_disc_dec_off x, fn_disc_dec_off := None\<rparr>
             else if \<not> on \<and> fn_disc_dec x \<noteq> None
             then x\<lparr>fn_disc_dec_off := fn_disc_dec x, fn_disc_dec := None\<rparr>
             else x) s)\<lparr>fs_readers := (\<lambda>_. None)\<rparr>)"

definition memfs_mirror_report :: "memfs \<Rightarrow> mirror_stats" where
  "memfs_mirror_report s = fs_stats s"

definition memfs_mirror_reset :: "memfs \<Rightarrow> memfs" where
  "memfs_mirror_reset s = s\<lparr>fs_stats := zero_stats\<rparr>"

section \<open>Listing\<close>

text \<open>The two traversals with an explicit stack. They end because the directories below the
  start form a tree; the fuel counts the nodes taken from the stack, and \<open>None\<close> is a
  stack that outlived it.\<close>

definition list_entry :: "memfs \<Rightarrow> string \<Rightarrow> string \<times> nat \<Rightarrow> (string \<times> bytes) list" where
  "list_entry s prefix e =
     (case e of (name, c) \<Rightarrow>
        if is_dir s c \<or> read_only (fs_nodes s c) \<or> fn_mirror (fs_nodes s c) \<noteq> None then []
        else [(prefix @ name, fn_data (fs_nodes s c))])"

text \<open>The top of the stack is the head of the list: pushing the subdirectories in reverse
  name order leaves them on it in name order.\<close>

fun list_loop :: "nat \<Rightarrow> memfs \<Rightarrow> (nat \<times> string) list \<Rightarrow> (string \<times> bytes) list \<Rightarrow> (string \<times> bytes) list option" where
  "list_loop fuel s [] out = Some out"
| "list_loop 0 s (f # fs) out = None"
| "list_loop (Suc fuel) s ((n, prefix) # fs) out =
     (let ks = fn_kids (fs_nodes s n) in
      list_loop fuel s
        (map (\<lambda>(name, c). (c, prefix @ name @ ''/'')) (filter (\<lambda>(name, c). is_dir s c) ks) @ fs)
        (out @ concat (map (list_entry s prefix) ks)))"

definition memfs_list :: "string \<Rightarrow> memfs \<Rightarrow> (string \<times> bytes) list option" where
  "memfs_list rel_dir s =
     (case fst (lookup s rel_dir) of
        None \<Rightarrow> Some []
      | Some n \<Rightarrow> if \<not> is_dir s n then Some [] else list_loop (fs_next s) s [(n, [])] [])"

fun bytes_loop :: "nat \<Rightarrow> memfs \<Rightarrow> nat list \<Rightarrow> nat \<Rightarrow> nat option" where
  "bytes_loop fuel s [] acc = Some acc"
| "bytes_loop 0 s (n # ns) acc = None"
| "bytes_loop (Suc fuel) s (n # ns) acc =
     bytes_loop fuel s (rev (map snd (fn_kids (fs_nodes s n))) @ ns) (acc + length (fn_data (fs_nodes s n)))"

definition memfs_bytes :: "memfs \<Rightarrow> nat option" where
  "memfs_bytes s = bytes_loop (fs_next s) s [fs_root s] 0"

end
