(* ===== verification/ByteSource.thy ===== *)
theory ByteSource
  imports Prelude
begin

text \<open>
  The interface every reader of bytes at an offset shares: the host's files, an entry of
  an archive, a disc image or a package read through its decryption. A reader has a state of
  its own (a file handle, the cursor of a stream), which may change with every read, but
  what it gives is always a stretch of one sequence of bytes.
\<close>

text \<open>The loop of \<open>materialise\<close>: read on until a buffer is full or the source gives nothing.\<close>

function fill_loop :: "('h \<Rightarrow> nat \<Rightarrow> nat \<Rightarrow> bytes \<times> 'h) \<Rightarrow> nat \<Rightarrow> nat \<Rightarrow> nat \<Rightarrow> bytes \<Rightarrow> 'h \<Rightarrow> bytes \<times> 'h" where
  "fill_loop rd start len pos data h =
     (if pos < len
      then (case rd h (start + pos) (len - pos) of (b, h') \<Rightarrow>
              if b = [] then (data, h')
              else fill_loop rd start len (pos + length b) (splice pos b data) h')
      else (data, h))"
  by pat_completeness auto
termination
  by (relation "measure (\<lambda>(rd, start, len, pos, data, h). len - pos)")
    (auto simp flip: length_greater_0_conv)

declare fill_loop.simps [simp del]

text \<open>The comparison of \<open>source_holds\<close>.\<close>

definition holds_at :: "('h \<Rightarrow> nat \<Rightarrow> nat \<Rightarrow> bytes \<times> 'h) \<Rightarrow> nat \<Rightarrow> bytes \<Rightarrow> 'h \<Rightarrow> bool \<times> 'h" where
  "holds_at rd off buf h = (case rd h off (length buf) of (b, h') \<Rightarrow> (b = buf, h'))"

locale byte_source =
  fixes rd :: "'h \<Rightarrow> nat \<Rightarrow> nat \<Rightarrow> bytes \<times> 'h"
    and ok :: "'h \<Rightarrow> bool"
    and content :: bytes
  assumes rd_ok: "ok h \<Longrightarrow> ok (snd (rd h off n))"
    and rd_cut: "ok h \<Longrightarrow> fst (rd h off n) = cut off n content"
begin

lemma rd_both: "ok h \<Longrightarrow> rd h off n = (b, h') \<Longrightarrow> b = cut off n content \<and> ok h'"
  using rd_ok[of h off n] rd_cut[of h off n] by simp

lemma holds_at_iff:
  assumes "ok h"
  shows "fst (holds_at rd off buf h) \<longleftrightarrow> cut off (length buf) content = buf"
    and "ok (snd (holds_at rd off buf h))"
  using rd_ok[OF assms] rd_cut[OF assms] by (simp_all add: holds_at_def split: prod.split)
    (metis fst_conv snd_conv)+

lemma fill_loop_from:
  assumes "ok h" "start + len \<le> length content" "length data = len" "pos \<le> len"
    "take pos data = cut start pos content"
  shows "fst (fill_loop rd start len pos data h) = cut start len content
    \<and> ok (snd (fill_loop rd start len pos data h))"
  using assms
proof (induction "len - pos" arbitrary: pos data h rule: less_induct)
  case less
  show ?case
  proof (cases "pos < len")
    case True
    obtain b h' where r: "rd h (start + pos) (len - pos) = (b, h')" by (cases "rd h (start + pos) (len - pos)")
    have b: "b = cut (start + pos) (len - pos) content" "ok h'" using rd_both[OF less.prems(1) r] by auto
    have lb: "length b = len - pos" using b(1) True less.prems(2) by (simp add: length_cut)
    then have ne: "b \<noteq> []" using True by auto
    let ?d = "splice pos b data"
    have e: "fill_loop rd start len pos data h = fill_loop rd start len (pos + length b) ?d h'"
      using True ne by (subst fill_loop.simps) (simp add: r)
    show ?thesis unfolding e
    proof (rule less.hyps)
      show "len - (pos + length b) < len - pos" using True ne lb by simp
      show "length ?d = len" using less.prems(3) lb True by (simp add: length_splice)
      show "take (pos + length b) ?d = cut start (pos + length b) content"
      proof -
        have "take (pos + length b) ?d = take pos data @ b"
          using less.prems(3) True by (intro take_splice_end) simp
        then show ?thesis using lb by (simp add: less.prems(5) b(1) cut_append_cut)
      qed
    qed (use b less.prems lb True in auto)
  next
    case False
    then show ?thesis using less.prems by (subst fill_loop.simps, subst fill_loop.simps) simp
  qed
qed

lemma fill_loop_fills:
  assumes "ok h" "start + len \<le> length content" "length data = len"
  shows "fst (fill_loop rd start len 0 data h) = cut start len content"
    and "ok (snd (fill_loop rd start len 0 data h))"
  using fill_loop_from[OF assms, of 0] by (simp_all add: cut_def)

end

end
