(* ===== verification/MemfsFile.thy ===== *)
theory MemfsFile
  imports MemfsTree ByteSource
begin

text \<open>
  Open files of \<open>waterbox/memfs.cpp\<close>: reading through to the read-only sources, the ring of
  recent reads, and writing, where a file whose bytes are exactly a stretch of a source is
  kept as a reference to it (a mirror). Offsets and sizes are 64-bit in the source; the
  seek keeps positions below 2 to the 63 and a buffer is smaller than the memory that
  holds it, so their sums do not wrap and they are natural numbers here. The figures of
  \<open>memfs_mirror_stats\<close> can wrap, and are words.
\<close>

section \<open>Reading a host file\<close>

definition host_path :: "fnode \<Rightarrow> string" where
  "host_path n = (case fn_backing n of HostFile p \<Rightarrow> p | _ \<Rightarrow> [])"

definition open_host :: "fsenv \<Rightarrow> fnode \<Rightarrow> hfile option" where
  "open_host env n = (case fn_backing n of HostFile p \<Rightarrow> env_open env p | _ \<Rightarrow> None)"

text \<open>A read through a kept handle, which is opened again when it gives less than the file
  is known to hold: what came back, and the handle kept from here on.\<close>

definition host_read_at :: "fsenv \<Rightarrow> hfile option \<Rightarrow> string \<Rightarrow> nat \<Rightarrow> nat \<Rightarrow> nat \<Rightarrow> bytes \<times> hfile option" where
  "host_read_at env f path host_size off len =
     (if off \<ge> host_size then ([], f)
      else (let want = min len (host_size - off);
                reopened = (case env_open env path of
                    None \<Rightarrow> ([], None)
                  | Some h \<Rightarrow> (case h off want of None \<Rightarrow> ([], Some h) | Some b \<Rightarrow> (b, Some h)))
            in case f of
                 None \<Rightarrow> reopened
               | Some h \<Rightarrow> (case h off want of
                   None \<Rightarrow> reopened
                 | Some b \<Rightarrow> if length b = want then (b, f) else reopened)))"

definition read_raw :: "fsenv \<Rightarrow> fnode \<Rightarrow> hfile option \<Rightarrow> nat \<Rightarrow> nat \<Rightarrow> bytes \<times> hfile option" where
  "read_raw env n h off len = host_read_at env h (host_path n) (fn_host_size n) off len"

definition SECTOR :: nat where "SECTOR = 2048"

text \<open>The image as the console reads it: whole sectors are read and decrypted, and the
  stretch asked for cut out. The last component is the number of bytes decrypted.\<close>

definition read_through_disc ::
  "fsenv \<Rightarrow> nat \<Rightarrow> fnode \<Rightarrow> hfile option \<Rightarrow> nat \<Rightarrow> nat \<Rightarrow> bytes \<times> hfile option \<times> nat" where
  "read_through_disc env dec n h off len0 =
     (if off \<ge> fn_host_size n then ([], h, 0)
      else (let len = min len0 (fn_host_size n - off);
                first = off div SECTOR * SECTOR;
                fin = min (fn_host_size n) ((off + len + SECTOR - 1) div SECTOR * SECTOR)
            in case read_raw env n h first (fin - first) of (got, h1) \<Rightarrow>
                 if length got < off - first + len then ([], h1, 0)
                 else (cut (off - first) len (env_disc env dec first got), h1, length got)))"

section \<open>Source readers\<close>

definition node_read_at ::
  "fsenv \<Rightarrow> fnode \<Rightarrow> hfile option \<Rightarrow> nat \<Rightarrow> nat \<Rightarrow> bytes \<times> hfile option \<times> nat" where
  "node_read_at env n h off len =
     (case fn_backing n of
        ZipEntry a e \<Rightarrow> (env_zip env a e off len, h, 0)
      | SzEntry a e \<Rightarrow> (env_sz env a e off len, h, 0)
      | _ \<Rightarrow>
         (case fn_disc_dec n of
            Some d \<Rightarrow> read_through_disc env d n h off len
          | None \<Rightarrow>
             (case read_raw env n h off len of (got, h1) \<Rightarrow>
               (case fn_pkg_dec n of
                  Some p \<Rightarrow> (pkg_apply (env_aes env) (env_sha1 env) p (of_nat off) got, h1, length got)
                | None \<Rightarrow> (got, h1, 0)))))"

definition add_decrypted :: "nat \<Rightarrow> memfs \<Rightarrow> memfs" where
  "add_decrypted k s = s\<lparr>fs_stats := (fs_stats s)\<lparr>ms_decrypted := ms_decrypted (fs_stats s) + of_nat k\<rparr>\<rparr>"

text \<open>A read through the reader kept for the source (\<open>reader_for\<close>), made when there is none.\<close>

definition reader_handle :: "fsenv \<Rightarrow> nat \<Rightarrow> memfs \<Rightarrow> hfile option" where
  "reader_handle env i s = (case fs_readers s i of None \<Rightarrow> open_host env (fs_nodes s i) | Some h \<Rightarrow> Some h)"

definition source_read :: "fsenv \<Rightarrow> nat \<Rightarrow> memfs \<Rightarrow> nat \<Rightarrow> nat \<Rightarrow> bytes \<times> memfs" where
  "source_read env i s off len =
     (case node_read_at env (fs_nodes s i) (reader_handle env i s) off len of
        (b, h1, k) \<Rightarrow> (b, add_decrypted k (s\<lparr>fs_readers := (fs_readers s)(i := h1)\<rparr>)))"

definition source_holds :: "fsenv \<Rightarrow> nat \<Rightarrow> nat \<Rightarrow> bytes \<Rightarrow> memfs \<Rightarrow> bool \<times> memfs" where
  "source_holds env i off buf s = holds_at (source_read env i) off buf s"

text \<open>The scan of \<open>recently_read_start\<close>, newest read first. \<open>alive\<close> says which nodes still
  have an owner, which is what locking the weak pointer finds out.\<close>

fun recent_loop ::
  "fsenv \<Rightarrow> (nat \<Rightarrow> bool) \<Rightarrow> bytes \<Rightarrow> recent_read list \<Rightarrow> memfs \<Rightarrow> (nat \<times> nat) option \<times> memfs" where
  "recent_loop env alive buf [] s = (None, s)"
| "recent_loop env alive buf (r # rs) s =
     (if rr_size r = 0 \<or> \<not> alive (rr_source r) then recent_loop env alive buf rs s
      else case source_holds env (rr_source r) (rr_offset r) (take 64 buf) s of
        (False, s1) \<Rightarrow> recent_loop env alive buf rs s1
      | (True, s1) \<Rightarrow>
          (case source_holds env (rr_source r) (rr_offset r) buf s1 of
             (False, s2) \<Rightarrow> recent_loop env alive buf rs s2
           | (True, s2) \<Rightarrow> (Some (rr_source r, rr_offset r), s2)))"

definition recent_order :: "memfs \<Rightarrow> recent_read list" where
  "recent_order s =
     map (\<lambda>i. fs_recent s ! ((fs_recent_next s + RECENT_READS - 1 - i) mod RECENT_READS)) [0..<RECENT_READS]"

definition recently_read_start ::
  "fsenv \<Rightarrow> (nat \<Rightarrow> bool) \<Rightarrow> bytes \<Rightarrow> memfs \<Rightarrow> (nat \<times> nat) option \<times> memfs" where
  "recently_read_start env alive buf s = recent_loop env alive buf (recent_order s) s"

section \<open>Mirrors\<close>

definition drop_mirror :: "fnode \<Rightarrow> fnode" where
  "drop_mirror n = n\<lparr>fn_mirror := None, fn_mirror_len := 0, fn_mirror_at := 0\<rparr>"

definition materialise :: "fsenv \<Rightarrow> nat \<Rightarrow> memfs \<Rightarrow> memfs" where
  "materialise env i s =
     (case fn_mirror (fs_nodes s i) of
        None \<Rightarrow> s
      | Some src \<Rightarrow>
          (let n = fs_nodes s i; len = fn_mirror_len n; st = fs_stats s;
               s1 = s\<lparr>fs_stats := st\<lparr>ms_mirrors := ms_mirrors st - 1, ms_held := ms_held st - of_nat len,
                                   ms_copied := ms_copied st + of_nat len\<rparr>\<rparr>
           in case fill_loop (source_read env src) (fn_mirror_at n) len 0 (resize len (fn_data n)) s1 of
                (data, s2) \<Rightarrow> upd_node i (\<lambda>x. drop_mirror (x\<lparr>fn_data := data\<rparr>)) s2))"

section \<open>Open files\<close>

record mem_file =
  mf_node :: nat
  mf_pos :: nat
  mf_writable :: bool
  mf_append :: bool
  mf_host :: "hfile option"
  mf_mirror_reader :: "(nat \<times> hfile option) option"

definition new_mem_file :: "fsenv \<Rightarrow> nat \<Rightarrow> bool \<Rightarrow> bool \<Rightarrow> memfs \<Rightarrow> mem_file" where
  "new_mem_file env i w a s =
     \<lparr>mf_node = i, mf_pos = 0, mf_writable = w, mf_append = a,
      mf_host = open_host env (fs_nodes s i), mf_mirror_reader = None\<rparr>"

definition has_stream :: "fnode \<Rightarrow> bool" where
  "has_stream n \<longleftrightarrow> (case fn_backing n of ZipEntry _ _ \<Rightarrow> True | SzEntry _ _ \<Rightarrow> True | _ \<Rightarrow> False)"

text \<open>\<open>zip || sevenz || host\<close>: \<open>host\<close> is null when the file could not be opened.\<close>

definition from_source :: "mem_file \<Rightarrow> memfs \<Rightarrow> bool" where
  "from_source f s \<longleftrightarrow> has_stream (fs_nodes s (mf_node f)) \<or> mf_host f \<noteq> None"

definition mf_get_stat :: "mem_file \<Rightarrow> memfs \<Rightarrow> fstat" where
  "mf_get_stat f s = fill_stat (fs_nodes s (mf_node f))"

definition set_length :: "fsenv \<Rightarrow> nat \<Rightarrow> nat \<Rightarrow> memfs \<Rightarrow> memfs" where
  "set_length env i len s =
     (let s1 = materialise env i s
      in upd_node i (\<lambda>x. x\<lparr>fn_data := resize len (fn_data x), fn_mtime := now_mtime s1\<rparr>) s1)"

definition mf_trunc :: "fsenv \<Rightarrow> nat \<Rightarrow> mem_file \<Rightarrow> memfs \<Rightarrow> bool \<times> memfs" where
  "mf_trunc env len f s =
     (if \<not> mf_writable f \<or> from_source f s then (False, s)
      else (True, set_length env (mf_node f) len s))"

definition read_source_at :: "fsenv \<Rightarrow> mem_file \<Rightarrow> nat \<Rightarrow> nat \<Rightarrow> memfs \<Rightarrow> bytes \<times> mem_file" where
  "read_source_at env f off len s =
     (case fn_backing (fs_nodes s (mf_node f)) of
        ZipEntry a e \<Rightarrow> (env_zip env a e off len, f)
      | SzEntry a e \<Rightarrow> (env_sz env a e off len, f)
      | _ \<Rightarrow> (case read_raw env (fs_nodes s (mf_node f)) (mf_host f) off len of
                (b, h) \<Rightarrow> (b, f\<lparr>mf_host := h\<rparr>)))"

text \<open>The reader of this handle's own that a mirror is read through.\<close>

definition mirror_handle :: "fsenv \<Rightarrow> nat \<Rightarrow> mem_file \<Rightarrow> memfs \<Rightarrow> hfile option" where
  "mirror_handle env src f s =
     (case mf_mirror_reader f of
        Some (i, h) \<Rightarrow> if i = src then h else open_host env (fs_nodes s src)
      | None \<Rightarrow> open_host env (fs_nodes s src))"

definition mf_read_at :: "fsenv \<Rightarrow> nat \<Rightarrow> nat \<Rightarrow> mem_file \<Rightarrow> memfs \<Rightarrow> bytes \<times> mem_file \<times> memfs" where
  "mf_read_at env off len f s =
     (let i = mf_node f; n = fs_nodes s i in
      if from_source f s
      then (case read_source_at env f off len s of
              (b, f1) \<Rightarrow> (b, f1, remember_read \<lparr>rr_source = i, rr_offset = off, rr_size = length b\<rparr> s))
      else case fn_mirror n of
        Some src \<Rightarrow>
          if off \<ge> fn_mirror_len n then ([], f, s)
          else (case node_read_at env (fs_nodes s src) (mirror_handle env src f s)
                       (fn_mirror_at n + off) (min len (fn_mirror_len n - off)) of
                  (b, h, k) \<Rightarrow> (b, f\<lparr>mf_mirror_reader := Some (src, h)\<rparr>, add_decrypted k s))
      | None \<Rightarrow>
          if off \<ge> length (fn_data n) then ([], f, s) else (cut off len (fn_data n), f, s))"

definition mf_read :: "fsenv \<Rightarrow> nat \<Rightarrow> mem_file \<Rightarrow> memfs \<Rightarrow> bytes \<times> mem_file \<times> memfs" where
  "mf_read env len f s =
     (case mf_read_at env (mf_pos f) len f s of
        (b, f1, s1) \<Rightarrow> (b, f1\<lparr>mf_pos := mf_pos f1 + length b\<rparr>, s1))"

definition mf_size :: "mem_file \<Rightarrow> memfs \<Rightarrow> nat" where
  "mf_size f s = (let n = fs_nodes s (mf_node f) in if from_source f s then fn_host_size n else logical_size n)"

datatype seek_mode = seek_set | seek_cur | seek_end

text \<open>\<open>None\<close> is the value -1.\<close>

definition mf_seek :: "int \<Rightarrow> seek_mode \<Rightarrow> mem_file \<Rightarrow> memfs \<Rightarrow> nat option \<times> mem_file" where
  "mf_seek off whence f s =
     (let base = (case whence of seek_set \<Rightarrow> 0 | seek_cur \<Rightarrow> int (mf_pos f) | seek_end \<Rightarrow> int (mf_size f s)) in
      if base + off < 0 then (None, f)
      else (Some (nat (base + off)), f\<lparr>mf_pos := nat (base + off)\<rparr>))"

section \<open>Writing\<close>

definition touch :: "nat \<Rightarrow> memfs \<Rightarrow> memfs" where
  "touch i s = upd_node i (\<lambda>x. x\<lparr>fn_mtime := now_mtime s\<rparr>) s"

text \<open>The mirror grows by bytes its source holds.\<close>

definition grow_mirror :: "nat \<Rightarrow> nat \<Rightarrow> nat \<Rightarrow> memfs \<Rightarrow> memfs" where
  "grow_mirror i pos len s =
     touch i ((upd_node i (\<lambda>x. x\<lparr>fn_mirror_len := pos + len\<rparr>) s)
       \<lparr>fs_stats := (fs_stats s)\<lparr>ms_held := ms_held (fs_stats s) + of_nat len\<rparr>\<rparr>)"

text \<open>A mirror starts.\<close>

definition start_mirror :: "nat \<Rightarrow> nat \<Rightarrow> nat \<Rightarrow> nat \<Rightarrow> memfs \<Rightarrow> memfs" where
  "start_mirror i src at len s =
     touch i ((upd_node i (\<lambda>x. x\<lparr>fn_mirror := Some src, fn_mirror_at := at, fn_mirror_len := len\<rparr>) s)
       \<lparr>fs_stats := (fs_stats s)\<lparr>ms_mirrors := ms_mirrors (fs_stats s) + 1,
                                ms_held := ms_held (fs_stats s) + of_nat len\<rparr>\<rparr>)"

text \<open>The bytes are kept.\<close>

definition store_bytes :: "nat \<Rightarrow> nat \<Rightarrow> bytes \<Rightarrow> memfs \<Rightarrow> memfs" where
  "store_bytes i pos buf s =
     touch i (upd_node i (\<lambda>x. x\<lparr>fn_data := overwrite pos buf (fn_data x)\<rparr>) s)"

definition note_copied :: "nat \<Rightarrow> memfs \<Rightarrow> memfs" where
  "note_copied len s = s\<lparr>fs_stats := (fs_stats s)\<lparr>ms_copied := ms_copied (fs_stats s) + of_nat len\<rparr>\<rparr>"

text \<open>A write that no mirror could hold.\<close>

definition write_plain :: "fsenv \<Rightarrow> nat \<Rightarrow> nat \<Rightarrow> bytes \<Rightarrow> bool \<Rightarrow> memfs \<Rightarrow> memfs" where
  "write_plain env i pos buf at_end s =
     store_bytes i pos buf (materialise env i
       (if at_end \<and> length buf \<ge> MIRROR_MIN_START then note_copied (length buf) s else s))"

definition write_node ::
  "fsenv \<Rightarrow> (nat \<Rightarrow> bool) \<Rightarrow> nat \<Rightarrow> nat \<Rightarrow> bytes \<Rightarrow> memfs \<Rightarrow> memfs" where
  "write_node env alive i pos buf s =
     (let n = fs_nodes s i; len = length buf; at_end = (pos = logical_size n) in
      if len = 0 then store_bytes i pos buf s
      else case fn_mirror n of
        Some src \<Rightarrow>
          if at_end
          then (case source_holds env src (fn_mirror_at n + pos) buf s of
                  (True, s1) \<Rightarrow> grow_mirror i pos len s1
                | (False, s1) \<Rightarrow> write_plain env i pos buf at_end s1)
          else write_plain env i pos buf at_end s
      | None \<Rightarrow>
          if at_end \<and> fn_data n = [] \<and> len \<ge> MIRROR_MIN_START
          then (case recently_read_start env alive buf s of
                  (Some (src, at), s1) \<Rightarrow> start_mirror i src at len s1
                | (None, s1) \<Rightarrow> write_plain env i pos buf at_end s1)
          else write_plain env i pos buf at_end s)"

definition mf_write ::
  "fsenv \<Rightarrow> (nat \<Rightarrow> bool) \<Rightarrow> bytes \<Rightarrow> mem_file \<Rightarrow> memfs \<Rightarrow> nat \<times> mem_file \<times> memfs" where
  "mf_write env alive buf f s =
     (if \<not> mf_writable f \<or> from_source f s then (0, f, s)
      else (let pos = (if mf_append f then logical_size (fs_nodes s (mf_node f)) else mf_pos f)
            in (length buf, f\<lparr>mf_pos := pos + length buf\<rparr>,
                write_node env alive (mf_node f) pos buf s)))"

section \<open>Opening and truncating by name\<close>

record open_mode =
  om_write :: bool
  om_append :: bool
  om_create :: bool
  om_excl :: bool
  om_trunc :: bool

definition open_existing :: "fsenv \<Rightarrow> open_mode \<Rightarrow> nat \<Rightarrow> memfs \<Rightarrow> fserror + mem_file \<times> memfs" where
  "open_existing env m i s =
     (let want_write = (om_write m \<or> om_append m); n = fs_nodes s i in
      if fn_dir n then Inl Isdir
      else if want_write \<and> read_only n then Inl Readonly
      else (let s1 = (if om_trunc m \<and> want_write
                      then upd_node i (\<lambda>x. (drop_mirror x)\<lparr>fn_data := [], fn_mtime := now_mtime s\<rparr>) s
                      else s)
            in Inr (new_mem_file env i want_write (om_append m) s1, s1)))"

definition dev_open :: "fsenv \<Rightarrow> string \<Rightarrow> open_mode \<Rightarrow> memfs \<Rightarrow> fserror + mem_file \<times> memfs" where
  "dev_open env path m s =
     (case lookup s (strip_root path) of
        (None, None) \<Rightarrow> Inl Noent
      | (None, Some (d, leaf)) \<Rightarrow>
          if \<not> om_create m then Inl Noent
          else open_existing env m (fs_next s) (add_node d leaf blank_node s)
      | (Some i, _) \<Rightarrow> if om_excl m then Inl Exist else open_existing env m i s)"

definition dev_trunc :: "fsenv \<Rightarrow> string \<Rightarrow> nat \<Rightarrow> memfs \<Rightarrow> fserror + memfs" where
  "dev_trunc env path len s =
     (case fst (lookup s (strip_root path)) of
        None \<Rightarrow> Inl Noent
      | Some i \<Rightarrow> if fn_dir (fs_nodes s i) \<or> read_only (fs_nodes s i) then Inl Noent
                  else Inr (set_length env i len s))"

end
