(* ===== verification/MemfsWalk.thy ===== *)
theory MemfsWalk
  imports MemfsTree "HOL-Library.Sublist"
begin

text \<open>
  The tree as a map from paths: \<open>tree s ps\<close> is the node that the components \<open>ps\<close> lead to.
  Under the invariant \<open>tree_ok\<close> (a child has one parent and one name, the root has none,
  and only directories have children) every operation of the device is an update of
  this map, which the lemmas here prove for adding, removing and moving an entry.
\<close>

fun walk :: "memfs \<Rightarrow> string list \<Rightarrow> nat \<Rightarrow> nat option" where
  "walk s [] i = Some i"
| "walk s (p # ps) i = (case kid s i p of None \<Rightarrow> None | Some c \<Rightarrow> walk s ps c)"

definition tree :: "memfs \<Rightarrow> string list \<Rightarrow> nat option" where
  "tree s ps = walk s ps (fs_root s)"

definition kid_ok :: "memfs \<Rightarrow> nat \<Rightarrow> string \<Rightarrow> nat \<Rightarrow> bool" where
  "kid_ok s i p c \<longleftrightarrow> i < fs_next s \<and> c < fs_next s \<and> is_dir s i \<and> c \<noteq> fs_root s
     \<and> (\<forall>j q. kid s j q = Some c \<longrightarrow> j = i \<and> q = p)"

definition tree_ok :: "memfs \<Rightarrow> bool" where
  "tree_ok s \<longleftrightarrow> is_dir s (fs_root s) \<and> fs_root s < fs_next s
     \<and> (\<forall>i. om_ok (fn_kids (fs_nodes s i)))
     \<and> (\<forall>i p c. kid s i p = Some c \<longrightarrow> kid_ok s i p c)"

lemma tree_okD:
  assumes "tree_ok s"
  shows "is_dir s (fs_root s)" "fs_root s < fs_next s" "om_ok (fn_kids (fs_nodes s i))"
    "kid s i p = Some c \<Longrightarrow> kid_ok s i p c"
  using assms by (auto simp: tree_ok_def)

lemma kid_okD:
  assumes "tree_ok s" "kid s i p = Some c"
  shows "i < fs_next s" "c < fs_next s" "is_dir s i" "c \<noteq> fs_root s"
    "kid s j q = Some c \<Longrightarrow> j = i \<and> q = p"
  using tree_okD(4)[OF assms] by (auto simp: kid_ok_def)

section \<open>Walking\<close>

lemma walk_append: "walk s (ps @ qs) i = Option.bind (walk s ps i) (walk s qs)"
  by (induction ps arbitrary: i) (auto split: option.splits)

lemma walk_snoc: "walk s (ps @ [p]) i = Option.bind (walk s ps i) (\<lambda>m. kid s m p)"
  by (cases "walk s ps i") (auto simp: walk_append split: option.split)

lemma tree_Nil [simp]: "tree s [] = Some (fs_root s)"
  by (simp add: tree_def)

lemma tree_snoc: "tree s (ps @ [p]) = Option.bind (tree s ps) (\<lambda>m. kid s m p)"
  by (simp add: tree_def walk_snoc)

lemma tree_append: "tree s ps = Some i \<Longrightarrow> tree s (ps @ qs) = walk s qs i"
  by (simp add: tree_def walk_append)

lemma tree_next: "tree_ok s \<Longrightarrow> tree s ps = Some n \<Longrightarrow> n < fs_next s"
  by (cases ps rule: rev_cases) (auto simp: tree_okD tree_snoc bind_eq_Some_conv dest: kid_okD(2))

lemma tree_unique:
  assumes ok: "tree_ok s"
  shows "tree s ps = Some n \<Longrightarrow> tree s qs = Some n \<Longrightarrow> ps = qs"
proof (induction ps arbitrary: n qs rule: rev_induct)
  case Nil
  then show ?case using kid_okD(4)[OF ok]
    by (cases qs rule: rev_cases) (auto simp: tree_snoc bind_eq_Some_conv)
next
  case (snoc p ps)
  then obtain m where m: "tree s ps = Some m" "kid s m p = Some n"
    by (auto simp: tree_snoc bind_eq_Some_conv)
  show ?case
  proof (cases qs rule: rev_cases)
    case Nil
    then show ?thesis using snoc.prems(2) kid_okD(4)[OF ok m(2)] by simp
  next
    case (snoc qs' q)
    then obtain k where k: "tree s qs' = Some k" "kid s k q = Some n"
      using snoc.prems(2) by (auto simp: tree_snoc bind_eq_Some_conv)
    have "k = m" "q = p" using kid_okD(5)[OF ok m(2) k(2)] by auto
    then show ?thesis using snoc.IH[OF m(1)] k(1) snoc by simp
  qed
qed

lemma fst_lookup_loop: "tree_ok s \<Longrightarrow> fst (lookup_loop s ps i) = walk s ps i"
proof (induction ps arbitrary: i)
  case (Cons p ps)
  then show ?case by (cases ps) (auto split: option.splits dest: kid_okD(3))
qed simp

lemma snd_lookup_loop:
  "tree_ok s \<Longrightarrow> snd (lookup_loop s (ps @ [p]) i) =
    Option.bind (walk s ps i) (\<lambda>d. if is_dir s d then Some (d, p) else None)"
proof (induction ps arbitrary: i)
  case (Cons q ps)
  then show ?case by (auto split: option.splits dest: kid_okD(3))
qed (simp split: option.splits)

lemma lookup_node: "tree_ok s \<Longrightarrow> fst (lookup s rel) = tree s (split_path rel)"
  by (simp add: lookup_def tree_def fst_lookup_loop)

text \<open>What \<open>lookup\<close> says, for the proofs about its callers.\<close>

lemma lookup_cases:
  assumes "tree_ok s" "lookup s rel = (r, w)"
  shows "r = tree s (split_path rel)"
    and "w = (case rev (split_path rel) of [] \<Rightarrow> None
       | p # ps \<Rightarrow> Option.bind (tree s (rev ps)) (\<lambda>d. if is_dir s d then Some (d, p) else None))"
proof -
  show "r = tree s (split_path rel)" using lookup_node[OF assms(1), of rel] assms(2) by simp
  show "w = (case rev (split_path rel) of [] \<Rightarrow> None
       | p # ps \<Rightarrow> Option.bind (tree s (rev ps)) (\<lambda>d. if is_dir s d then Some (d, p) else None))"
  proof (cases "split_path rel" rule: rev_cases)
    case Nil
    then show ?thesis using assms(2) by (simp add: lookup_def)
  next
    case (snoc ps p)
    then show ?thesis
      using assms(2) snd_lookup_loop[OF assms(1), of ps p "fs_root s"] by (simp add: lookup_def tree_def)
  qed
qed

lemma lookup_place:
  assumes "tree_ok s" "lookup s rel = (r, Some (d, leaf))"
  shows "split_path rel = butlast (split_path rel) @ [leaf]" "tree s (butlast (split_path rel)) = Some d"
    "is_dir s d" "r = kid s d leaf" "r = tree s (split_path rel)"
proof -
  note L = lookup_cases[OF assms]
  obtain ps where ps: "split_path rel = ps @ [leaf]" "tree s ps = Some d" "is_dir s d"
    using L(2) by (cases "split_path rel" rule: rev_cases)
      (auto split: if_splits simp: bind_eq_Some_conv dest!: sym[of "Some (d, leaf)"])
  then show "split_path rel = butlast (split_path rel) @ [leaf]"
    "tree s (butlast (split_path rel)) = Some d" "is_dir s d" by simp_all
  show "r = tree s (split_path rel)" by (rule L(1))
  then show "r = kid s d leaf" using ps by (simp add: tree_snoc)
qed

section \<open>Changing one entry\<close>

lemma upd_node_fields [simp]:
  "fs_root (upd_node i f s) = fs_root s" "fs_next (upd_node i f s) = fs_next s"
  "fs_now (upd_node i f s) = fs_now s" "fs_recent (upd_node i f s) = fs_recent s"
  "fs_recent_next (upd_node i f s) = fs_recent_next s" "fs_readers (upd_node i f s) = fs_readers s"
  "fs_stats (upd_node i f s) = fs_stats s"
  "fs_nodes (upd_node i f s) j = (if j = i then f (fs_nodes s i) else fs_nodes s j)"
  by (simp_all add: upd_node_def)

lemma tree_changed:
  assumes ok: "tree_ok s" and d: "tree s ps = Some d"
    and root: "fs_root s' = fs_root s"
    and same: "\<And>i p. (i, p) \<noteq> (d, leaf) \<Longrightarrow> kid s' i p = kid s i p"
  shows "\<not> prefix (ps @ [leaf]) qs \<Longrightarrow> tree s' qs = tree s qs"
    and "tree s' (ps @ leaf # rest) = Option.bind (kid s' d leaf) (walk s' rest)"
proof -
  have P: "tree s' qs = tree s qs" if "\<not> prefix (ps @ [leaf]) qs" for qs
    using that
  proof (induction qs rule: rev_induct)
    case Nil
    then show ?case by (simp add: root)
  next
    case (snoc b q)
    then have IH: "tree s' q = tree s q" by simp
    have "kid s' m b = kid s m b" if "tree s q = Some m" for m
    proof -
      have "(m, b) \<noteq> (d, leaf)"
        using snoc.prems tree_unique[OF ok d] that by auto
      then show ?thesis by (rule same)
    qed
    then show ?case by (simp add: tree_snoc IH cong: Option.bind_cong)
  qed
  then show "\<not> prefix (ps @ [leaf]) qs \<Longrightarrow> tree s' qs = tree s qs" .
  have "tree s' ps = Some d" using P[of ps] d by (auto simp: prefix_def)
  then show "tree s' (ps @ leaf # rest) = Option.bind (kid s' d leaf) (walk s' rest)"
    by (auto simp: tree_append split: option.splits)
qed

definition tree_put :: "string list \<Rightarrow> nat \<Rightarrow> (string list \<Rightarrow> nat option) \<Rightarrow> string list \<Rightarrow> nat option" where
  "tree_put path c t qs = (if qs = path then Some c else if prefix path qs then None else t qs)"

definition tree_erase :: "string list \<Rightarrow> (string list \<Rightarrow> nat option) \<Rightarrow> string list \<Rightarrow> nat option" where
  "tree_erase path t qs = (if prefix path qs then None else t qs)"

definition tree_move :: "string list \<Rightarrow> string list \<Rightarrow> (string list \<Rightarrow> nat option) \<Rightarrow> string list \<Rightarrow> nat option" where
  "tree_move a b t qs =
     (if prefix b qs then t (a @ drop (length b) qs) else if prefix a qs then None else t qs)"

lemma tree_add_node:
  assumes ok: "tree_ok s" and d: "tree s ps = Some d" "is_dir s d" and n: "fn_kids n = []"
  shows "tree (add_node d leaf n s) = tree_put (ps @ [leaf]) (fs_next s) (tree s)"
    and "tree_ok (add_node d leaf n s)"
    and "fs_next (add_node d leaf n s) = fs_next s + 1" "fs_root (add_node d leaf n s) = fs_root s"
    and "fs_nodes (add_node d leaf n s) (fs_next s) = n\<lparr>fn_mtime := now_mtime s\<rparr>"
    and "i \<noteq> fs_next s \<Longrightarrow> i \<noteq> d \<Longrightarrow> fs_nodes (add_node d leaf n s) i = fs_nodes s i"
    and "fs_nodes (add_node d leaf n s) d
       = (fs_nodes s d)\<lparr>fn_kids := om_put leaf (fs_next s) (fn_kids (fs_nodes s d))\<rparr>"
proof -
  let ?s = "add_node d leaf n s" and ?c = "fs_next s"
  have dc: "d \<noteq> ?c" using tree_next[OF ok d(1)] by simp
  have nodes: "fs_nodes ?s i = (if i = d then (fs_nodes s d)\<lparr>fn_kids := om_put leaf ?c (fn_kids (fs_nodes s d))\<rparr>
      else if i = ?c then n\<lparr>fn_mtime := now_mtime s\<rparr> else fs_nodes s i)" for i
    using dc by (simp add: add_node_def new_node_def set_kid_def upd_node_def)
  show f: "fs_next ?s = fs_next s + 1" "fs_root ?s = fs_root s"
    by (simp_all add: add_node_def new_node_def set_kid_def)
  show "fs_nodes ?s ?c = n\<lparr>fn_mtime := now_mtime s\<rparr>"
    "i \<noteq> ?c \<Longrightarrow> i \<noteq> d \<Longrightarrow> fs_nodes ?s i = fs_nodes s i"
    "fs_nodes ?s d = (fs_nodes s d)\<lparr>fn_kids := om_put leaf ?c (fn_kids (fs_nodes s d))\<rparr>"
    using dc by (simp_all add: nodes)
  have free: "kid s ?c p = None" for p
    using kid_okD(1)[OF ok, where i = ?c and p = p] by (cases "kid s ?c p") auto
  have kid: "kid ?s i p = (if (i, p) = (d, leaf) then Some ?c else kid s i p)" for i p
    using dc free n by (auto simp: nodes kids.get_put[OF tree_okD(3)[OF ok]])
  have same: "kid ?s i p = kid s i p" if "(i, p) \<noteq> (d, leaf)" for i p using that by (auto simp: kid)
  have w: "walk ?s rest ?c = (if rest = [] then Some ?c else None)" for rest
    using dc free by (cases rest) (auto simp: kid)
  show "tree ?s = tree_put (ps @ [leaf]) ?c (tree s)"
  proof
    fix qs
    show "tree ?s qs = tree_put (ps @ [leaf]) ?c (tree s) qs"
    proof (cases "prefix (ps @ [leaf]) qs")
      case True
      then obtain rest where "qs = ps @ leaf # rest" by (auto simp: prefix_def)
      then show ?thesis
        using tree_changed(2)[OF ok d(1) f(2) same, where rest = rest] by (auto simp: kid w tree_put_def)
    next
      case False
      then show ?thesis
        using tree_changed(1)[OF ok d(1) f(2) same, where qs = qs] by (auto simp: kid tree_put_def)
    qed
  qed
  have dirs: "is_dir ?s i = (if i = ?c then fn_dir n else is_dir s i)" for i
    using dc by (simp add: nodes)
  have "kid_ok ?s i p c" if "kid ?s i p = Some c" for i p c
  proof (cases "(i, p) = (d, leaf)")
    case True
    have "kid s j q \<noteq> Some ?c" for j q using kid_okD(2)[OF ok, where i = j and p = q and c = ?c] by auto
    then show ?thesis using that True d tree_okD(2)[OF ok] tree_next[OF ok d(1)]
      by (auto simp: kid_ok_def kid f dirs split: if_splits)
  next
    case False
    then have k: "kid s i p = Some c" using that by (auto simp: kid)
    note K = kid_okD[OF ok k]
    have "i \<noteq> ?c" "c \<noteq> ?c" using K(1,2) by auto
    then show ?thesis using K by (auto simp: kid_ok_def kid f dirs split: if_splits)
  qed
  moreover have "om_ok (fn_kids (fs_nodes ?s i))" for i
    using n tree_okD(3)[OF ok] by (simp add: nodes om_ok_put)
  ultimately show "tree_ok ?s"
    using tree_okD(1,2)[OF ok] dc by (auto simp: tree_ok_def nodes f)
qed

lemma kid_drop:
  assumes "tree_ok s"
  shows "kid (drop_kid d leaf s) i p = (if (i, p) = (d, leaf) then None else kid s i p)"
  using kids.get_erase[OF tree_okD(3)[OF assms]] by (auto simp: drop_kid_def)

lemma tree_drop_kid:
  assumes ok: "tree_ok s" and d: "tree s ps = Some d"
  shows "tree (drop_kid d leaf s) = tree_erase (ps @ [leaf]) (tree s)" and "tree_ok (drop_kid d leaf s)"
proof -
  let ?s = "drop_kid d leaf s"
  have f: "fs_root ?s = fs_root s" "fs_next ?s = fs_next s" by (simp_all add: drop_kid_def)
  note kid = kid_drop[OF ok, where d = d and leaf = leaf]
  have same: "kid ?s i p = kid s i p" if "(i, p) \<noteq> (d, leaf)" for i p using that by (auto simp: kid)
  show "tree ?s = tree_erase (ps @ [leaf]) (tree s)"
  proof
    fix qs
    show "tree ?s qs = tree_erase (ps @ [leaf]) (tree s) qs"
    proof (cases "prefix (ps @ [leaf]) qs")
      case True
      then obtain rest where "qs = ps @ leaf # rest" by (auto simp: prefix_def)
      then show ?thesis
        using tree_changed(2)[OF ok d f(1) same, where rest = rest] by (auto simp: kid tree_erase_def)
    next
      case False
      then show ?thesis
        using tree_changed(1)[OF ok d f(1) same, where qs = qs] by (auto simp: kid tree_erase_def)
    qed
  qed
  have "kid_ok ?s i p c" if "kid ?s i p = Some c" for i p c
  proof -
    have "kid s i p = Some c" using that by (auto simp: kid split: if_splits)
    from kid_okD[OF ok this] show ?thesis
      by (auto simp: kid_ok_def kid f split: if_splits) (auto simp: drop_kid_def)
  qed
  then show "tree_ok ?s"
    using tree_okD[OF ok] by (auto simp: tree_ok_def drop_kid_def om_ok_erase)
qed

lemma tree_frame:
  assumes "\<And>i. fn_kids (fs_nodes s' i) = fn_kids (fs_nodes s i) \<and> is_dir s' i = is_dir s i"
    "fs_root s' = fs_root s" "fs_next s' = fs_next s"
  shows "tree s' = tree s" "tree_ok s' = tree_ok s"
proof -
  have "walk s' ps i = walk s ps i" for ps i
    by (induction ps arbitrary: i) (simp_all add: assms(1) split: option.split)
  then show "tree s' = tree s" by (simp add: tree_def assms(2) fun_eq_iff)
  show "tree_ok s' = tree_ok s" by (simp add: tree_ok_def kid_ok_def assms)
qed

end
