(* ===== verification/MemfsDevice.thy ===== *)
theory MemfsDevice
  imports MemfsWalk
begin

text \<open>
  What the operations on directories do to the map from paths to nodes, errors included:
  each is one of the updates \<open>tree_put\<close>, \<open>tree_erase\<close> and \<open>tree_move\<close>, or an error.
\<close>

named_theorems tree_keep \<open>operations that keep the tree well formed\<close>

section \<open>Files a change of directories leaves alone\<close>

definition strip_kids :: "fnode \<Rightarrow> fnode" where
  "strip_kids n = n\<lparr>fn_kids := []\<rparr>"

definition files_kept :: "memfs \<Rightarrow> memfs \<Rightarrow> bool" where
  "files_kept s s' \<longleftrightarrow> fs_next s \<le> fs_next s'
     \<and> (\<forall>i < fs_next s. strip_kids (fs_nodes s' i) = strip_kids (fs_nodes s i))"

lemma files_kept_refl [simp]: "files_kept s s"
  by (simp add: files_kept_def)

lemma files_kept_trans: "files_kept s t \<Longrightarrow> files_kept t u \<Longrightarrow> files_kept s u"
  by (auto simp: files_kept_def)

lemma strip_kids_eqD:
  assumes "strip_kids a = strip_kids b"
  shows "fn_dir a = fn_dir b" "fn_data a = fn_data b" "fn_backing a = fn_backing b"
    "fn_mirror a = fn_mirror b" "fn_mirror_len a = fn_mirror_len b" "fn_mirror_at a = fn_mirror_at b"
    "fn_host_size a = fn_host_size b" "fn_mtime a = fn_mtime b"
    "fn_disc_dec a = fn_disc_dec b" "fn_pkg_dec a = fn_pkg_dec b"
proof -
  have "\<And>g. g (strip_kids a) = g (strip_kids b)" using assms by simp
  note g = this
  show "fn_dir a = fn_dir b" using g[of fn_dir] by (simp add: strip_kids_def)
  show "fn_data a = fn_data b" using g[of fn_data] by (simp add: strip_kids_def)
  show "fn_backing a = fn_backing b" using g[of fn_backing] by (simp add: strip_kids_def)
  show "fn_mirror a = fn_mirror b" using g[of fn_mirror] by (simp add: strip_kids_def)
  show "fn_mirror_len a = fn_mirror_len b" using g[of fn_mirror_len] by (simp add: strip_kids_def)
  show "fn_mirror_at a = fn_mirror_at b" using g[of fn_mirror_at] by (simp add: strip_kids_def)
  show "fn_host_size a = fn_host_size b" using g[of fn_host_size] by (simp add: strip_kids_def)
  show "fn_mtime a = fn_mtime b" using g[of fn_mtime] by (simp add: strip_kids_def)
  show "fn_disc_dec a = fn_disc_dec b" using g[of fn_disc_dec] by (simp add: strip_kids_def)
  show "fn_pkg_dec a = fn_pkg_dec b" using g[of fn_pkg_dec] by (simp add: strip_kids_def)
qed

lemma files_keptD: "files_kept s s' \<Longrightarrow> i < fs_next s \<Longrightarrow> strip_kids (fs_nodes s' i) = strip_kids (fs_nodes s i)"
  by (simp add: files_kept_def)

lemma add_node_files_kept:
  assumes "tree_ok s" "tree s ps = Some d" "is_dir s d" "fn_kids n = []"
  shows "files_kept s (add_node d leaf n s)"
proof -
  note A = tree_add_node[OF assms, where leaf = leaf]
  have "strip_kids (fs_nodes (add_node d leaf n s) i) = strip_kids (fs_nodes s i)" if "i < fs_next s" for i
    using that A(6)[where i = i] A(7) by (cases "i = d") (simp_all add: strip_kids_def)
  then show ?thesis by (simp add: files_kept_def A(3))
qed

lemma drop_kid_files_kept: "files_kept s (drop_kid d leaf s)"
  by (simp add: files_kept_def drop_kid_def strip_kids_def)

section \<open>Making directories\<close>

text \<open>A file stands in the way of the path.\<close>

definition blocked :: "memfs \<Rightarrow> string list \<Rightarrow> bool" where
  "blocked s ps \<longleftrightarrow> (\<exists>qs n. prefix qs ps \<and> tree s qs = Some n \<and> \<not> is_dir s n)"

definition dirs_made :: "memfs \<Rightarrow> string list \<Rightarrow> memfs \<Rightarrow> bool" where
  "dirs_made s ps s' \<longleftrightarrow> tree_ok s' \<and> files_kept s s' \<and> fs_root s' = fs_root s
     \<and> (\<forall>qs. tree s qs \<noteq> None \<or> \<not> prefix qs ps \<longrightarrow> tree s' qs = tree s qs)"

lemma dirs_made_trans:
  assumes "tree_ok s" "dirs_made s ps t" "dirs_made t qs u" "prefix ps qs"
  shows "dirs_made s qs u"
proof -
  have "tree u xs = tree s xs" if "tree s xs \<noteq> None \<or> \<not> prefix xs qs" for xs
  proof -
    have "tree s xs \<noteq> None \<or> \<not> prefix xs ps"
      using that assms(4) by (meson prefix_order.trans)
    then have "tree t xs = tree s xs" using assms(2) by (auto simp: dirs_made_def)
    moreover from this that have "tree u xs = tree t xs" using assms(3) by (auto simp: dirs_made_def)
    ultimately show ?thesis by simp
  qed
  then show ?thesis using assms(2,3) by (auto simp: dirs_made_def intro: files_kept_trans)
qed

lemma add_dir_made:
  assumes "tree_ok s" "tree s ps = Some d" "is_dir s d" "kid s d p = None"
  shows "dirs_made s (ps @ [p]) (add_node d p (blank_node\<lparr>fn_dir := True\<rparr>) s)"
proof -
  note A = tree_add_node[OF assms(1-3), where n = "blank_node\<lparr>fn_dir := True\<rparr>" and leaf = p]
  have none: "tree s (ps @ p # rest) = None" for rest
    using assms(2,4) by (simp add: tree_append)
  show ?thesis unfolding dirs_made_def
    using A(1,2,4) add_node_files_kept[OF assms(1-3)] none
    by (auto simp: blank_node_def tree_put_def prefix_def)
qed

lemma mkdirs_loop_spec:
  assumes "tree_ok s" "tree s ps = Some cur" "is_dir s cur" "mkdirs_loop qs cur s = (r, s')"
  shows "dirs_made s (ps @ qs) s'
    \<and> (case r of None \<Rightarrow> blocked s (ps @ qs)
       | Some d \<Rightarrow> tree s' (ps @ qs) = Some d \<and> is_dir s' d \<and> \<not> blocked s (ps @ qs))"
  using assms
proof (induction qs cur s arbitrary: ps rule: mkdirs_loop.induct)
  case (1 cur s)
  have nb: "\<not> blocked s ps"
  proof
    assume "blocked s ps"
    then obtain qs n rest where q: "ps = qs @ rest" "tree s qs = Some n" "\<not> is_dir s n"
      by (auto simp: blocked_def prefix_def)
    then show False using 1 kid_okD(3)[OF 1(1)]
      by (cases rest) (auto simp: tree_append split: option.splits)
  qed
  then show ?case using 1 by (cases r) (auto simp: dirs_made_def)
next
  case (2 p qs cur s)
  show ?case
  proof (cases "kid s cur p")
    case None
    let ?t = "add_node cur p (blank_node\<lparr>fn_dir := True\<rparr>) s"
    note A = tree_add_node[OF 2(3-5), where n = "blank_node\<lparr>fn_dir := True\<rparr>" and leaf = p]
    have b: "fn_kids (blank_node\<lparr>fn_dir := True\<rparr>) = []" by (simp add: blank_node_def)
    have m: "dirs_made s (ps @ [p]) ?t" by (rule add_dir_made[OF 2(3-5) None])
    have e: "mkdirs_loop qs (fs_next s) ?t = (r, s')" using 2(6) None by simp
    have "tree ?t (ps @ [p]) = Some (fs_next s)" "is_dir ?t (fs_next s)"
      using A(1,5) b by (simp_all add: tree_put_def)
    note IH = 2(1)[OF None A(2)[OF b] this e]
    have bl: "blocked ?t (ps @ p # qs) = blocked s (ps @ p # qs)"
    proof -
      have none: "tree s (ps @ p # rest) = None" for rest
        using 2(4) None by (simp add: tree_append)
      have old: "is_dir ?t n = is_dir s n" if "tree s xs = Some n" for xs n
      proof -
        have "files_kept s ?t" using m by (simp add: dirs_made_def)
        from strip_kids_eqD(1)[OF files_keptD[OF this tree_next[OF 2(3) that]]] show ?thesis .
      qed
      have "(tree ?t xs = Some n \<and> \<not> is_dir ?t n) = (tree s xs = Some n \<and> \<not> is_dir s n)" for xs n
      proof (cases "prefix (ps @ [p]) xs")
        case True
        then obtain rest where "xs = ps @ p # rest" by (auto simp: prefix_def)
        then show ?thesis using none A(1)[OF b] A(5) b by (auto simp: tree_put_def)
      next
        case False
        then have "tree ?t xs = tree s xs" using A(1)[OF b] by (auto simp: tree_put_def)
        then show ?thesis using old by auto
      qed
      then show ?thesis by (simp add: blocked_def)
    qed
    have "dirs_made s (ps @ p # qs) s'"
      using dirs_made_trans[OF 2(3) m] IH by (auto simp: prefix_def)
    then show ?thesis using IH bl by (auto split: option.splits)
  next
    case (Some c)
    then have c: "tree s (ps @ [p]) = Some c" using 2(4) by (simp add: tree_snoc)
    show ?thesis
    proof (cases "is_dir s c")
      case True
      then show ?thesis using 2(2)[OF Some _ 2(3) c True] 2(6) Some by (cases r) simp_all
    next
      case False
      then have "blocked s (ps @ p # qs)" using c unfolding blocked_def
        by (intro exI[of _ "ps @ [p]"] exI[of _ c]) (auto simp: prefix_def)
      then show ?thesis using 2 Some False by (auto simp: dirs_made_def)
    qed
  qed
qed

lemma mkdirs_spec:
  assumes "tree_ok s" "mkdirs rel s = (r, s')"
  shows "dirs_made s (split_path rel) s'"
    and "r = None \<longleftrightarrow> blocked s (split_path rel)"
    and "r = Some d \<Longrightarrow> tree s' (split_path rel) = Some d \<and> is_dir s' d"
proof -
  have l: "mkdirs_loop (split_path rel) (fs_root s) s = (r, s')" using assms(2) by (simp add: mkdirs_def)
  have "dirs_made s (split_path rel) s' \<and> (case r of None \<Rightarrow> blocked s (split_path rel)
      | Some d \<Rightarrow> tree s' (split_path rel) = Some d \<and> is_dir s' d \<and> \<not> blocked s (split_path rel))"
    using mkdirs_loop_spec[OF assms(1) _ _ l, of "[]"] tree_okD(1)[OF assms(1)]
    by (cases r) simp_all
  then show "dirs_made s (split_path rel) s'" "r = None \<longleftrightarrow> blocked s (split_path rel)"
    "r = Some d \<Longrightarrow> tree s' (split_path rel) = Some d \<and> is_dir s' d"
    by (auto split: option.splits)
qed

section \<open>Moving\<close>

lemma tree_moved:
  assumes ok: "tree_ok s" and n: "tree s (fp @ [fleaf]) = Some n"
    and fd: "tree s fp = Some fd" and td: "tree s tp = Some td" "is_dir s td"
    and outside: "fp @ [fleaf] = tp @ [tleaf] \<or> \<not> prefix (fp @ [fleaf]) (tp @ [tleaf])"
  shows "tree (set_kid td tleaf n (drop_kid fd fleaf s)) = tree_move (fp @ [fleaf]) (tp @ [tleaf]) (tree s)"
proof
  fix qs
  let ?s1 = "drop_kid fd fleaf s" and ?f = "fp @ [fleaf]" and ?t = "tp @ [tleaf]"
  let ?s2 = "set_kid td tleaf n ?s1"
  have ok1: "tree_ok ?s1" and t1: "tree ?s1 = tree_erase ?f (tree s)"
    using tree_drop_kid[OF ok fd] by auto
  have nf: "\<not> prefix ?f tp"
    using outside by (auto simp: prefix_def)
  have d1: "tree ?s1 tp = Some td" using nf td(1) by (simp add: t1 tree_erase_def)
  have k2: "kid ?s2 i p = (if (i, p) = (td, tleaf) then Some n else kid ?s1 i p)" for i p
    using kids.get_put[OF tree_okD(3)[OF ok1]] by (auto simp: set_kid_def)
  note k1 = kid_drop[OF ok, where d = fd and leaf = fleaf]
  have root: "fs_root ?s2 = fs_root ?s1" by (simp add: set_kid_def)
  have same: "kid ?s2 i p = kid ?s1 i p" if "(i, p) \<noteq> (td, tleaf)" for i p using that by (auto simp: k2)
  have sub: "walk ?s2 rest n = walk s rest n" for rest
  proof (induction rest rule: rev_induct)
    case (snoc b r)
    have "kid ?s2 m b = kid s m b" if w: "walk s r n = Some m" for m
    proof -
      have m: "tree s (?f @ r) = Some m" using tree_append[OF n] w by metis
      have "m \<noteq> fd" using tree_unique[OF ok m, of fp] fd by auto
      moreover have "m \<noteq> td"
        using tree_unique[OF ok m, of tp] td(1) nf by (auto simp: prefix_def)
      ultimately show ?thesis by (simp add: k2 k1)
    qed
    then show ?case by (simp add: walk_snoc snoc cong: Option.bind_cong)
  qed simp
  show "tree ?s2 qs = tree_move ?f ?t (tree s) qs"
  proof (cases "prefix ?t qs")
    case True
    then obtain rest where q: "qs = tp @ tleaf # rest" by (auto simp: prefix_def)
    have "tree ?s2 qs = walk s rest n"
      using tree_changed(2)[OF ok1 d1 root same, where rest = rest] by (simp add: q k2 sub)
    moreover have "tree s (?f @ rest) = walk s rest n" by (rule tree_append[OF n])
    ultimately show ?thesis using q by (simp add: tree_move_def)
  next
    case False
    then show ?thesis
      using tree_changed(1)[OF ok1 d1 root same, where qs = qs]
      by (simp add: t1 tree_move_def tree_erase_def)
  qed
qed

lemma kid_moved:
  assumes "tree_ok s"
  shows "kid (set_kid td tleaf n (drop_kid fd fleaf s)) i p =
    (if (i, p) = (td, tleaf) then Some n else if (i, p) = (fd, fleaf) then None else kid s i p)"
proof -
  have "om_ok (fn_kids (fs_nodes (drop_kid fd fleaf s) i))" for i
    using tree_okD(3)[OF assms] by (simp add: drop_kid_def om_ok_erase)
  then show ?thesis
    using kid_drop[OF assms, where d = fd and leaf = fleaf] by (auto simp: set_kid_def om_get_put)
qed

lemma moved_fields [simp]:
  "fs_root (set_kid td tleaf n s) = fs_root s" "fs_next (set_kid td tleaf n s) = fs_next s"
  "is_dir (set_kid td tleaf n s) i = is_dir s i"
  "fs_root (drop_kid fd fleaf s) = fs_root s" "fs_next (drop_kid fd fleaf s) = fs_next s"
  "is_dir (drop_kid fd fleaf s) i = is_dir s i" "fs_now (set_kid td tleaf n s) = fs_now s"
  "fs_now (drop_kid fd fleaf s) = fs_now s"
  by (simp_all add: set_kid_def drop_kid_def)

lemma tree_ok_moved:
  assumes ok: "tree_ok s" and n: "kid s fd fleaf = Some n" and td: "is_dir s td" "td < fs_next s"
  shows "tree_ok (set_kid td tleaf n (drop_kid fd fleaf s))"
proof -
  let ?s = "set_kid td tleaf n (drop_kid fd fleaf s)"
  note kid = kid_moved[OF ok, where td = td and tleaf = tleaf and n = n and fd = fd and fleaf = fleaf]
  note N = kid_okD[OF ok n]
  have "kid_ok ?s i p c" if k: "kid ?s i p = Some c" for i p c
  proof (cases "(i, p) = (td, tleaf)")
    case True
    then have "c = n" using k by (simp add: kid)
    then show ?thesis using True N td by (auto simp: kid_ok_def kid split: if_splits)
  next
    case False
    then have c: "kid s i p = Some c" "(i, p) \<noteq> (fd, fleaf)" using k by (auto simp: kid split: if_splits)
    note C = kid_okD[OF ok c(1)]
    have "c \<noteq> n" using C(5)[where j = fd and q = fleaf] n c(2) by auto
    then show ?thesis using C by (auto simp: kid_ok_def kid split: if_splits)
  qed
  moreover have "om_ok (fn_kids (fs_nodes ?s i))" for i
    using tree_okD(3)[OF ok] by (simp add: set_kid_def drop_kid_def om_ok_put om_ok_erase)
  ultimately show ?thesis using tree_okD(1,2)[OF ok] by (simp add: tree_ok_def)
qed

lemma tree_moved_inside:
  assumes ok: "tree_ok s" and n: "tree s (fp @ [fleaf]) = Some n"
    and fd: "tree s fp = Some fd" and td: "tree s tp = Some td"
    and inside: "prefix (fp @ [fleaf]) tp"
  shows "tree (set_kid td tleaf n (drop_kid fd fleaf s)) = tree_erase (fp @ [fleaf]) (tree s)"
proof -
  let ?s = "set_kid td tleaf n (drop_kid fd fleaf s)" and ?f = "fp @ [fleaf]"
  note kid = kid_moved[OF ok, where td = td and tleaf = tleaf and n = n and fd = fd and fleaf = fleaf]
  have out: "tree ?s qs = tree s qs" if "\<not> prefix ?f qs" for qs
    using that
  proof (induction qs rule: rev_induct)
    case (snoc b q)
    have "kid ?s m b = kid s m b" if m: "tree s q = Some m" for m
    proof -
      have "m \<noteq> td" using tree_unique[OF ok m] td inside snoc.prems by (auto simp: prefix_def)
      moreover have "(m, b) \<noteq> (fd, fleaf)" using tree_unique[OF ok m] fd snoc.prems by auto
      ultimately show ?thesis by (auto simp: kid)
    qed
    then show ?case using snoc by (simp add: tree_snoc cong: Option.bind_cong)
  qed simp
  have "fd \<noteq> td" using tree_unique[OF ok fd] td inside by (auto simp: prefix_def)
  then have "kid ?s fd fleaf = None" by (simp add: kid)
  then have "tree ?s (?f @ rest) = None" for rest
    using out[of fp] fd by (simp add: tree_append prefix_def)
  then show ?thesis using out by (auto simp: fun_eq_iff tree_erase_def prefix_def)
qed

section \<open>The operations as updates of the map\<close>

abbreviation path_of :: "string \<Rightarrow> string list" where
  "path_of path \<equiv> split_path (strip_root path)"

lemma lookup_fst_snd: "lookup s rel = (fst (lookup s rel), snd (lookup s rel))"
  by simp

lemma remove_spec:
  assumes ok: "tree_ok s" and r: "remove path s = Inr s'"
  obtains n where "tree s (path_of path) = Some n" "\<not> is_dir s n" "path_of path \<noteq> []"
    "tree s' = tree_erase (path_of path) (tree s)" "tree_ok s'" "files_kept s s'"
proof -
  obtain n d leaf where l: "lookup s (strip_root path) = (Some n, Some (d, leaf))"
    and n: "\<not> is_dir s n" and s': "s' = drop_kid d leaf s"
    using r by (auto simp: remove_def split: prod.splits option.splits if_splits)
  note L = lookup_place[OF ok l]
  have e: "butlast (path_of path) @ [leaf] = path_of path" using L(1) by simp
  have ne: "path_of path \<noteq> []" using e by auto
  show ?thesis
    by (rule that[of n])
      (use L(5) n ne s' tree_drop_kid[OF ok L(2), of leaf, unfolded e] drop_kid_files_kept[of s d leaf]
        in simp_all)
qed

lemma remove_dir_spec:
  assumes ok: "tree_ok s" and r: "remove_dir path s = Inr s'"
  obtains n where "tree s (path_of path) = Some n" "is_dir s n" "fn_kids (fs_nodes s n) = []"
    "path_of path \<noteq> []" "tree s' = tree_erase (path_of path) (tree s)" "tree_ok s'" "files_kept s s'"
proof -
  obtain n d leaf where l: "lookup s (strip_root path) = (Some n, Some (d, leaf))"
    and n: "is_dir s n" "fn_kids (fs_nodes s n) = []" and s': "s' = drop_kid d leaf s"
    using r by (auto simp: remove_dir_def split: prod.splits option.splits if_splits)
  note L = lookup_place[OF ok l]
  have e: "butlast (path_of path) @ [leaf] = path_of path" using L(1) by simp
  have ne: "path_of path \<noteq> []" using e by auto
  show ?thesis
    by (rule that[of n])
      (use L(5) n ne s' tree_drop_kid[OF ok L(2), of leaf, unfolded e] drop_kid_files_kept[of s d leaf]
        in simp_all)
qed

lemma create_dir_spec:
  assumes ok: "tree_ok s" and r: "create_dir path s = Inr s'"
  shows "tree s (path_of path) = None" "tree s' = tree_put (path_of path) (fs_next s) (tree s)"
    "is_dir s' (fs_next s)" "fn_kids (fs_nodes s' (fs_next s)) = []" "tree_ok s'" "files_kept s s'"
proof -
  obtain d leaf where l: "lookup s (strip_root path) = (None, Some (d, leaf))"
    and s': "s' = add_node d leaf (blank_node\<lparr>fn_dir := True\<rparr>) s"
    using r by (auto simp: create_dir_def split: prod.splits option.splits)
  note L = lookup_place[OF ok l]
  have e: "butlast (path_of path) @ [leaf] = path_of path" using L(1) by simp
  have b: "fn_kids (blank_node\<lparr>fn_dir := True\<rparr>) = []" by (simp add: blank_node_def)
  note A = tree_add_node[OF ok L(2,3) b, where leaf = leaf, unfolded e]
  show "tree s (path_of path) = None" using L(5) by simp
  show "tree s' = tree_put (path_of path) (fs_next s) (tree s)" "tree_ok s'"
    "is_dir s' (fs_next s)" "fn_kids (fs_nodes s' (fs_next s)) = []"
    using A(1,2,5) by (simp_all add: s' blank_node_def)
  show "files_kept s s'" unfolding s' by (rule add_node_files_kept[OF ok L(2,3) b])
qed

lemma rename_spec:
  assumes ok: "tree_ok s" and r: "rename from to s = Inr s'"
  obtains n where "tree s (path_of from) = Some n" "path_of from \<noteq> []" "path_of to \<noteq> []"
    "tree s' = (if strict_prefix (path_of from) (path_of to) then tree_erase (path_of from) (tree s)
                else tree_move (path_of from) (path_of to) (tree s))"
    "tree_ok s'" "\<And>i. i \<noteq> n \<Longrightarrow> strip_kids (fs_nodes s' i) = strip_kids (fs_nodes s i)"
    "\<exists>t. strip_kids (fs_nodes s' n) = (strip_kids (fs_nodes s n))\<lparr>fn_mtime := t\<rparr>"
    "fs_next s' = fs_next s"
proof -
  obtain n fd fleaf e td tleaf where
    l: "lookup s (strip_root from) = (Some n, Some (fd, fleaf))" "lookup s (strip_root to) = (e, Some (td, tleaf))"
    and s': "s' = upd_node n (\<lambda>x. x\<lparr>fn_mtime := now_mtime (set_kid td tleaf n (drop_kid fd fleaf s))\<rparr>)
        (set_kid td tleaf n (drop_kid fd fleaf s))"
    using r by (auto simp: rename_def Let_def split: prod.splits option.splits if_splits)
  let ?m = "set_kid td tleaf n (drop_kid fd fleaf s)"
  note F = lookup_place[OF ok l(1)] and T = lookup_place[OF ok l(2)]
  define fp where "fp = butlast (path_of from)"
  define tp where "tp = butlast (path_of to)"
  have e: "path_of from = fp @ [fleaf]" "path_of to = tp @ [tleaf]" using F(1) T(1) by (simp_all add: fp_def tp_def)
  have fd: "tree s fp = Some fd" and td: "tree s tp = Some td" using F(2) T(2) by (simp_all add: fp_def tp_def)
  have n: "tree s (fp @ [fleaf]) = Some n" using F(5) e by simp
  have m: "tree ?m = (if strict_prefix (fp @ [fleaf]) (tp @ [tleaf]) then tree_erase (fp @ [fleaf]) (tree s)
                else tree_move (fp @ [fleaf]) (tp @ [tleaf]) (tree s))"
  proof (cases "strict_prefix (fp @ [fleaf]) (tp @ [tleaf])")
    case True
    then have "prefix (fp @ [fleaf]) tp" by (auto simp: strict_prefix_def)
    from tree_moved_inside[OF ok n fd td this] True show ?thesis by simp
  next
    case False
    then have "fp @ [fleaf] = tp @ [tleaf] \<or> \<not> prefix (fp @ [fleaf]) (tp @ [tleaf])"
      by (auto simp: strict_prefix_def)
    from tree_moved[OF ok n fd td T(3) this] False show ?thesis by simp
  qed
  have fr: "fn_kids (fs_nodes s' i) = fn_kids (fs_nodes ?m i) \<and> is_dir s' i = is_dir ?m i" for i
    by (simp add: s')
  have okm: "tree_ok ?m" by (rule tree_ok_moved[OF ok F(4)[symmetric] T(3) tree_next[OF ok td]])
  have t: "tree s' = tree ?m" "tree_ok s' = tree_ok ?m"
    by (rule tree_frame[OF fr]; simp add: s')+
  have k: "strip_kids (fs_nodes ?m i) = strip_kids (fs_nodes s i)" for i
    by (simp add: set_kid_def drop_kid_def strip_kids_def)
  have st: "strip_kids (x\<lparr>fn_mtime := z\<rparr>) = (strip_kids x)\<lparr>fn_mtime := z\<rparr>" for x z
    by (simp add: strip_kids_def)
  show ?thesis
  proof (rule that[of n])
    show "\<exists>t. strip_kids (fs_nodes s' n) = (strip_kids (fs_nodes s n))\<lparr>fn_mtime := t\<rparr>"
      by (simp add: s' st k) blast
    show "strip_kids (fs_nodes s' i) = strip_kids (fs_nodes s i)" if "i \<noteq> n" for i
      using that by (simp add: s' k)
  qed (use e n m t okm in \<open>simp_all add: s'\<close>)
qed

end
