(* ===== verification/MemfsContent.thy ===== *)
theory MemfsContent
  imports MemfsFile MemfsDevice
begin

text \<open>
  What a file holds, whether its bytes are kept or stand in a source. \<open>console_bytes\<close> is
  what a read-only node reads as; \<open>content\<close> is what a file of the machine's own holds.
  The hypotheses about the outside are in \<open>source_ok\<close>: a freshly opened host file gives its
  bytes, an archive's stream gives stretches of one content, a disc's decryption works
  sector by sector, and a package's data region does not pass the end of the 64-bit range.
\<close>

section \<open>The outside\<close>

definition raw_bytes :: "fsenv \<Rightarrow> fnode \<Rightarrow> bytes" where
  "raw_bytes env n =
     (case open_host env n of
        None \<Rightarrow> []
      | Some h \<Rightarrow> (case h 0 (fn_host_size n) of None \<Rightarrow> [] | Some b \<Rightarrow> b))"

definition console_bytes :: "fsenv \<Rightarrow> fnode \<Rightarrow> bytes" where
  "console_bytes env n =
     (case fn_backing n of
        ZipEntry a e \<Rightarrow> env_zip env a e 0 (fn_host_size n)
      | SzEntry a e \<Rightarrow> env_sz env a e 0 (fn_host_size n)
      | _ \<Rightarrow> (case fn_disc_dec n of
                Some d \<Rightarrow> env_disc env d 0 (raw_bytes env n)
              | None \<Rightarrow> (case fn_pkg_dec n of
                  Some p \<Rightarrow> pkg_apply (env_aes env) (env_sha1 env) p 0 (raw_bytes env n)
                | None \<Rightarrow> raw_bytes env n)))"

definition opens_well :: "fsenv \<Rightarrow> fnode \<Rightarrow> bool" where
  "opens_well env n \<longleftrightarrow> length (raw_bytes env n) = fn_host_size n \<and>
     (\<exists>h. open_host env n = Some h \<and>
       (\<forall>off k. off + k \<le> fn_host_size n \<longrightarrow> h off k = Some (cut off k (raw_bytes env n))))"

text \<open>A kept handle may have stopped being the file, but what it gives in full is the file's.\<close>

definition handle_ok :: "fsenv \<Rightarrow> fnode \<Rightarrow> hfile option \<Rightarrow> bool" where
  "handle_ok env n f \<longleftrightarrow>
     (case f of None \<Rightarrow> True
      | Some h \<Rightarrow> \<forall>off k b. off + k \<le> fn_host_size n \<and> h off k = Some b \<and> length b = k
                      \<longrightarrow> b = cut off k (raw_bytes env n))"

definition by_sector :: "(nat \<Rightarrow> bytes \<Rightarrow> bytes) \<Rightarrow> bytes \<Rightarrow> bool" where
  "by_sector dec raw \<longleftrightarrow> length (dec 0 raw) = length raw \<and>
     (\<forall>a b. a mod SECTOR = 0 \<and> a \<le> b \<and> b \<le> length raw \<and> (b mod SECTOR = 0 \<or> b = length raw)
        \<longrightarrow> dec a (cut a (b - a) raw) = cut a (b - a) (dec 0 raw))"

definition source_ok :: "fsenv \<Rightarrow> fnode \<Rightarrow> bool" where
  "source_ok env n \<longleftrightarrow>
     (case fn_backing n of
        Memory \<Rightarrow> False
      | ZipEntry a e \<Rightarrow> \<forall>off k. env_zip env a e off k = cut off k (console_bytes env n)
      | SzEntry a e \<Rightarrow> \<forall>off k. env_sz env a e off k = cut off k (console_bytes env n)
      | HostFile p \<Rightarrow> opens_well env n \<and>
          (case fn_disc_dec n of
             Some d \<Rightarrow> by_sector (env_disc env d) (raw_bytes env n)
           | None \<Rightarrow> (case fn_pkg_dec n of
               Some p \<Rightarrow> no_wrap 0 (fn_host_size n) \<and> no_wrap (data_offset p) (unat (data_size p))
             | None \<Rightarrow> True)))"

section \<open>Reading a source\<close>

lemma opens_well_ok: "opens_well env n \<Longrightarrow> handle_ok env n (open_host env n)"
  by (auto simp: opens_well_def handle_ok_def)

lemma host_read_cut:
  assumes "opens_well env n" "handle_ok env n f" "fn_backing n = HostFile p"
    "read_raw env n f off len = (b, f')"
  shows "b = cut off len (raw_bytes env n)" "handle_ok env n f'"
proof -
  let ?raw = "raw_bytes env n"
  obtain h where h: "env_open env p = Some h" "length ?raw = fn_host_size n"
    "\<And>off k. off + k \<le> fn_host_size n \<Longrightarrow> h off k = Some (cut off k ?raw)"
    using assms(1,3) by (auto simp: opens_well_def open_host_def)
  have ho: "handle_ok env n (Some h)" by (auto simp: handle_ok_def h(3))
  have "b = cut off len ?raw \<and> handle_ok env n f'"
  proof (cases "off \<ge> fn_host_size n")
    case True
    then show ?thesis using assms h(2) by (auto simp: read_raw_def host_read_at_def cut_beyond)
  next
    case False
    define want where "want = min len (fn_host_size n - off)"
    have w: "off + want \<le> fn_host_size n" "cut off want ?raw = cut off len ?raw"
      using False h(2) by (auto simp: want_def cut_min)
    have "read_raw env n f off len = (case f of None \<Rightarrow> (cut off len ?raw, Some h)
        | Some g \<Rightarrow> (case g off want of None \<Rightarrow> (cut off len ?raw, Some h)
          | Some b \<Rightarrow> if length b = want then (b, f) else (cut off len ?raw, Some h)))"
      using False assms(3) h(1) h(3)[OF w(1)] w(2)
      by (simp add: read_raw_def host_read_at_def host_path_def Let_def want_def[symmetric]
          split: option.split)
    moreover have "c = cut off len ?raw" if "f = Some g" "g off want = Some c" "length c = want" for g c
      using assms(2) that w by (auto simp: handle_ok_def)
    ultimately show ?thesis using assms(2,4) ho by (auto split: option.splits if_splits)
  qed
  then show "b = cut off len ?raw" "handle_ok env n f'" by auto
qed

lemma sector_window:
  fixes off len size :: nat
  assumes "off < size" "len \<le> size - off"
  defines "first \<equiv> off div SECTOR * SECTOR" and "fin \<equiv> min size ((off + len + SECTOR - 1) div SECTOR * SECTOR)"
  shows "first mod SECTOR = 0" "first \<le> off" "off + len \<le> fin" "fin \<le> size"
    "fin mod SECTOR = 0 \<or> fin = size" "first \<le> fin"
proof -
  have S: "SECTOR > 0" by (simp add: SECTOR_def)
  show 1: "first mod SECTOR = 0" "first \<le> off" "fin \<le> size" by (simp_all add: first_def fin_def)
  show "fin mod SECTOR = 0 \<or> fin = size" by (auto simp: fin_def min_def)
  have "off + len \<le> (off + len + SECTOR - 1) div SECTOR * SECTOR"
  proof -
    define x where "x = off + len + SECTOR - 1"
    have "x - x mod SECTOR = x div SECTOR * SECTOR" by (simp add: minus_mod_eq_div_mult)
    moreover have "x mod SECTOR \<le> SECTOR - 1" using S mod_less_divisor[OF S, of x] by linarith
    ultimately show ?thesis using S by (simp add: x_def)
  qed
  then show 2: "off + len \<le> fin" using assms(1,2) by (simp add: fin_def)
  from 1(2) 2 show "first \<le> fin" by linarith
qed

lemma disc_read_cut:
  assumes "opens_well env n" "handle_ok env n f" "fn_backing n = HostFile p"
    "by_sector (env_disc env d) (raw_bytes env n)" "read_through_disc env d n f off len0 = (b, f', k)"
  shows "b = cut off len0 (env_disc env d 0 (raw_bytes env n))" "handle_ok env n f'"
proof -
  let ?raw = "raw_bytes env n" and ?dec = "env_disc env d"
  have lr: "length ?raw = fn_host_size n" using assms(1) by (simp add: opens_well_def)
  have ld: "length (?dec 0 ?raw) = fn_host_size n" using assms(4) lr by (simp add: by_sector_def)
  have "b = cut off len0 (?dec 0 ?raw) \<and> handle_ok env n f'"
  proof (cases "off \<ge> fn_host_size n")
    case True
    then show ?thesis using assms(2,5) ld by (auto simp: read_through_disc_def cut_beyond)
  next
    case False
    define len where "len = min len0 (fn_host_size n - off)"
    define first where "first = off div SECTOR * SECTOR"
    define fin where "fin = min (fn_host_size n) ((off + len + SECTOR - 1) div SECTOR * SECTOR)"
    have W: "first mod SECTOR = 0" "first \<le> off" "off + len \<le> fin" "fin \<le> fn_host_size n"
      "fin mod SECTOR = 0 \<or> fin = fn_host_size n" "first \<le> fin"
      using sector_window[of off "fn_host_size n" len] False
      by (simp_all add: len_def first_def fin_def)
    obtain got h1 where r: "read_raw env n f first (fin - first) = (got, h1)"
      by (cases "read_raw env n f first (fin - first)")
    note H = host_read_cut[OF assms(1-3) r]
    have lg: "length got = fin - first" using H(1) W lr by (simp add: length_cut)
    have "?dec first got = cut first (fin - first) (?dec 0 ?raw)"
      using assms(4) W lr unfolding H(1) by (simp add: by_sector_def)
    then have "cut (off - first) len (?dec first got) = cut off len (?dec 0 ?raw)"
      using W by (simp add: cut_cut)
    moreover have "cut off len (?dec 0 ?raw) = cut off len0 (?dec 0 ?raw)"
      using ld by (simp add: len_def cut_min)
    moreover have "\<not> length got < off - first + len" using lg W by simp
    ultimately have "read_through_disc env d n f off len0 = (cut off len0 (?dec 0 ?raw), h1, length got)"
      unfolding read_through_disc_def Let_def len_def[symmetric] first_def[symmetric] fin_def[symmetric]
      using False r by simp
    then show ?thesis using assms(5) H(2) by simp
  qed
  then show "b = cut off len0 (?dec 0 ?raw)" "handle_ok env n f'" by auto
qed

lemma pkg_read_cut:
  assumes "no_wrap 0 (length raw)" "no_wrap (data_offset p) (unat (data_size p))"
  shows "pkg_apply aes sha1 p (of_nat off) (cut off len raw) = cut off len (pkg_apply aes sha1 p 0 raw)"
proof (cases "off \<ge> length raw")
  case True
  have "pkg_apply aes sha1 p a [] = []" for a using length_pkg_apply[of aes sha1 p a "[]"]
    unfolding list.size(3) length_0_conv .
  then show ?thesis using True by (simp add: cut_beyond)
next
  case False
  define k where "k = min len (length raw - off)"
  have c: "cut off len xs = cut off k xs" if "length xs = length raw" for xs :: bytes
    using that by (simp add: k_def cut_min)
  have o: "unat (of_nat off :: u64) = off"
    using assms(1) False unat_add_no_wrap[of 0 off] by (simp add: no_wrap_def)
  have wl: "no_wrap (of_nat off :: u64) (length (cut off k raw))"
    using assms(1) False by (simp add: no_wrap_def o length_cut k_def)
  have "pkg_apply aes sha1 p (of_nat off) (cut off k raw) = cut off k (pkg_apply aes sha1 p 0 raw)"
  proof (rule nth_equalityI)
    fix j assume "j < length (pkg_apply aes sha1 p (of_nat off) (cut off k raw))"
    then have j: "j < k" "off + j < length raw" using False by (auto simp: length_cut k_def)
    have "j < length (cut off k raw)" using j by (simp add: length_cut)
    then show "pkg_apply aes sha1 p (of_nat off) (cut off k raw) ! j = cut off k (pkg_apply aes sha1 p 0 raw) ! j"
      using pkg_apply_nth[OF wl assms(2), of j] pkg_apply_nth[OF assms, of "off + j"] j
      by (simp add: o nth_cut length_cut)
  qed (simp add: length_cut)
  then show ?thesis using c[of raw] c[of "pkg_apply aes sha1 p 0 raw"] by simp
qed

lemma node_read_cut:
  assumes "source_ok env n" "handle_ok env n f" "node_read_at env n f off len = (b, f', k)"
  shows "b = cut off len (console_bytes env n)" "handle_ok env n f'"
proof -
  have "b = cut off len (console_bytes env n) \<and> handle_ok env n f'"
  proof (cases "fn_backing n")
    case (HostFile p)
    then have ow: "opens_well env n" using assms(1) by (simp add: source_ok_def)
    show ?thesis
    proof (cases "fn_disc_dec n")
      case (Some d)
      then have "by_sector (env_disc env d) (raw_bytes env n)"
        using assms(1) HostFile by (simp add: source_ok_def)
      from disc_read_cut[OF ow assms(2) HostFile this, of off len b f' k] show ?thesis
        using assms(3) HostFile Some by (simp add: node_read_at_def console_bytes_def)
    next
      case None
      obtain g h1 where r: "read_raw env n f off len = (g, h1)" by (cases "read_raw env n f off len")
      note H = host_read_cut[OF ow assms(2) HostFile r]
      show ?thesis
      proof (cases "fn_pkg_dec n")
        case (Some p)
        have "no_wrap 0 (length (raw_bytes env n))" "no_wrap (data_offset p) (unat (data_size p))"
          using assms(1) HostFile None Some ow by (simp_all add: source_ok_def opens_well_def)
        from pkg_read_cut[OF this, of "env_aes env" "env_sha1 env" off len] show ?thesis
          using assms(3) HostFile None Some r H by (simp add: node_read_at_def console_bytes_def)
      qed (use assms(3) HostFile None r H in \<open>simp add: node_read_at_def console_bytes_def\<close>)
    qed
  qed (use assms in \<open>auto simp: source_ok_def node_read_at_def\<close>)
  then show "b = cut off len (console_bytes env n)" "handle_ok env n f'" by auto
qed

end
