(* ===== verification/MemfsWrite.thy ===== *)
theory MemfsWrite
  imports MemfsContent
begin

text \<open>
  Mirrors cannot be told from copies: a write, a truncation and a read do to a file's
  content what they do to plain bytes, whichever way the bytes are kept. The invariant
  \<open>store_ok\<close> says that every mirror's stretch lies inside its source.
\<close>

definition mirror_ok :: "fsenv \<Rightarrow> memfs \<Rightarrow> fnode \<Rightarrow> bool" where
  "mirror_ok env s n \<longleftrightarrow>
     (case fn_mirror n of
        None \<Rightarrow> True
      | Some m \<Rightarrow> \<not> read_only n \<and> m < fs_next s \<and> read_only (fs_nodes s m)
          \<and> fn_mirror_at n + fn_mirror_len n \<le> length (console_bytes env (fs_nodes s m)))"

definition recent_ok :: "memfs \<Rightarrow> recent_read \<Rightarrow> bool" where
  "recent_ok s r \<longleftrightarrow> rr_size r \<noteq> 0 \<longrightarrow> rr_source r < fs_next s \<and> read_only (fs_nodes s (rr_source r))"

definition store_ok :: "fsenv \<Rightarrow> memfs \<Rightarrow> bool" where
  "store_ok env s \<longleftrightarrow>
     (\<forall>i < fs_next s. read_only (fs_nodes s i) \<longrightarrow> source_ok env (fs_nodes s i))
     \<and> (\<forall>i. mirror_ok env s (fs_nodes s i))
     \<and> (\<forall>i. handle_ok env (fs_nodes s i) (fs_readers s i))
     \<and> (\<forall>i \<ge> fs_next s. fs_readers s i = None)
     \<and> length (fs_recent s) = RECENT_READS \<and> (\<forall>r \<in> set (fs_recent s). recent_ok s r)"

definition content :: "fsenv \<Rightarrow> memfs \<Rightarrow> nat \<Rightarrow> bytes" where
  "content env s i =
     (let n = fs_nodes s i in
      case fn_mirror n of
        None \<Rightarrow> fn_data n
      | Some m \<Rightarrow> cut (fn_mirror_at n) (fn_mirror_len n) (console_bytes env (fs_nodes s m)))"

definition same_nodes :: "memfs \<Rightarrow> memfs \<Rightarrow> bool" where
  "same_nodes s s' \<longleftrightarrow> fs_nodes s' = fs_nodes s \<and> fs_next s' = fs_next s \<and> fs_root s' = fs_root s
     \<and> fs_now s' = fs_now s \<and> fs_recent s' = fs_recent s \<and> fs_recent_next s' = fs_recent_next s"

lemma same_nodes_refl [simp]: "same_nodes s s"
  by (simp add: same_nodes_def)

lemma same_nodes_trans: "same_nodes s t \<Longrightarrow> same_nodes t u \<Longrightarrow> same_nodes s u"
  by (simp add: same_nodes_def)

lemma same_nodes_content: "same_nodes s s' \<Longrightarrow> content env s' = content env s"
  by (rule ext) (simp add: same_nodes_def content_def Let_def cong: option.case_cong)

lemma store_okD:
  assumes "store_ok env s"
  shows "i < fs_next s \<Longrightarrow> read_only (fs_nodes s i) \<Longrightarrow> source_ok env (fs_nodes s i)"
    "mirror_ok env s (fs_nodes s i)" "handle_ok env (fs_nodes s i) (fs_readers s i)"
    "fs_next s \<le> i \<Longrightarrow> fs_readers s i = None" "length (fs_recent s) = RECENT_READS"
    "r \<in> set (fs_recent s) \<Longrightarrow> recent_ok s r"
  using assms by (auto simp: store_ok_def)

lemma store_ok_stats [simp]: "store_ok env (s\<lparr>fs_stats := x\<rparr>) = store_ok env s"
  by (simp add: store_ok_def mirror_ok_def recent_ok_def cong: option.case_cong)

lemma same_nodes_stats [simp]: "same_nodes s (s'\<lparr>fs_stats := x\<rparr>) = same_nodes s s'"
  by (simp add: same_nodes_def)

lemma store_ok_note [simp]:
  "store_ok env (add_decrypted k s) = store_ok env s" "same_nodes t (add_decrypted k s) = same_nodes t s"
  "store_ok env (note_copied k s) = store_ok env s" "same_nodes t (note_copied k s) = same_nodes t s"
  by (simp_all add: add_decrypted_def note_copied_def)

section \<open>Sources\<close>

lemma source_read_spec:
  assumes ok: "store_ok env s" and i: "i < fs_next s" "read_only (fs_nodes s i)"
  shows "fst (source_read env i s off len) = cut off len (console_bytes env (fs_nodes s i))"
    "store_ok env (snd (source_read env i s off len))" "same_nodes s (snd (source_read env i s off len))"
proof -
  let ?n = "fs_nodes s i"
  have so: "source_ok env ?n" by (rule store_okD(1)[OF ok i])
  have "handle_ok env ?n (open_host env ?n)"
  proof (cases "fn_backing ?n")
    case (HostFile p)
    then have "opens_well env ?n" using so by (simp add: source_ok_def)
    then show ?thesis by (rule opens_well_ok)
  qed (simp_all add: open_host_def handle_ok_def)
  then have h: "handle_ok env ?n (reader_handle env i s)"
    using store_okD(3)[OF ok, of i] by (auto simp: reader_handle_def split: option.split)
  obtain b h1 k where r: "node_read_at env ?n (reader_handle env i s) off len = (b, h1, k)"
    by (cases "node_read_at env ?n (reader_handle env i s) off len") auto
  note N = node_read_cut[OF so h r]
  have e: "source_read env i s off len = (b, add_decrypted k (s\<lparr>fs_readers := (fs_readers s)(i := h1)\<rparr>))"
    by (simp add: source_read_def r)
  show "fst (source_read env i s off len) = cut off len (console_bytes env ?n)" using N(1) by (simp add: e)
  have "store_ok env (s\<lparr>fs_readers := (fs_readers s)(i := h1)\<rparr>)"
    using ok N(2) i(1) by (auto simp: store_ok_def mirror_ok_def recent_ok_def cong: option.case_cong)
  then show "store_ok env (snd (source_read env i s off len))" by (simp add: e)
  show "same_nodes s (snd (source_read env i s off len))" by (simp add: e) (simp add: same_nodes_def)
qed

text \<open>A source read through the reader kept for it is a byte source; its state is the whole
  filesystem's, of which a read changes readers and figures only.\<close>

definition can_read :: "fsenv \<Rightarrow> nat \<Rightarrow> memfs \<Rightarrow> memfs \<Rightarrow> bool" where
  "can_read env i s0 s \<longleftrightarrow> store_ok env s \<and> same_nodes s0 s \<and> i < fs_next s0 \<and> read_only (fs_nodes s0 i)"

interpretation src: byte_source "source_read env i" "can_read env i s0" "console_bytes env (fs_nodes s0 i)"
  for env i s0
proof
  fix s off n
  assume c: "can_read env i s0 s"
  then have s: "store_ok env s" "same_nodes s0 s" "i < fs_next s" "read_only (fs_nodes s i)"
    and n: "fs_nodes s i = fs_nodes s0 i"
    by (auto simp: can_read_def same_nodes_def)
  note R = source_read_spec[OF s(1,3,4), of off n]
  show "can_read env i s0 (snd (source_read env i s off n))"
    using R(2,3) s(2) c same_nodes_trans by (auto simp: can_read_def)
  show "fst (source_read env i s off n) = cut off n (console_bytes env (fs_nodes s0 i))"
    using R(1) by (simp add: n)
qed

lemma source_holds_spec:
  assumes "store_ok env s" "i < fs_next s" "read_only (fs_nodes s i)" "source_holds env i off buf s = (b, s')"
  shows "b \<longleftrightarrow> cut off (length buf) (console_bytes env (fs_nodes s i)) = buf" "store_ok env s'" "same_nodes s s'"
proof -
  have c: "can_read env i s s" using assms by (simp add: can_read_def)
  show "b \<longleftrightarrow> cut off (length buf) (console_bytes env (fs_nodes s i)) = buf"
    "store_ok env s'" "same_nodes s s'"
    using src.holds_at_iff[OF c, of off buf] assms(4) by (auto simp: source_holds_def can_read_def)
qed

lemma recent_loop_spec:
  assumes "store_ok env s" "\<forall>r \<in> set rs. recent_ok s r" "recent_loop env alive buf rs s = (w, s')"
  shows "store_ok env s' \<and> same_nodes s s' \<and>
    (case w of None \<Rightarrow> True
     | Some (m, at) \<Rightarrow> m < fs_next s \<and> read_only (fs_nodes s m)
         \<and> cut at (length buf) (console_bytes env (fs_nodes s m)) = buf)"
  using assms
proof (induction rs arbitrary: s)
  case Nil
  then show ?case by auto
next
  case (Cons r rs)
  have IH: "store_ok env s' \<and> same_nodes s s' \<and>
    (case w of None \<Rightarrow> True
     | Some (m, at) \<Rightarrow> m < fs_next s \<and> read_only (fs_nodes s m)
         \<and> cut at (length buf) (console_bytes env (fs_nodes s m)) = buf)"
    if "store_ok env t" "same_nodes s t" "recent_loop env alive buf rs t = (w, s')" for t
  proof -
    have "\<forall>r \<in> set rs. recent_ok t r" using Cons.prems(2) that(2) by (auto simp: recent_ok_def same_nodes_def)
    from Cons.IH[OF that(1) this that(3)] that(2) show ?thesis
      by (auto simp: same_nodes_def split: option.splits)
  qed
  show ?case
  proof (cases "rr_size r = 0 \<or> \<not> alive (rr_source r)")
    case True
    then show ?thesis using IH[of s] Cons.prems by auto
  next
    case False
    let ?i = "rr_source r"
    have i: "?i < fs_next s" "read_only (fs_nodes s ?i)" using Cons.prems(2) False by (auto simp: recent_ok_def)
    obtain b1 s1 where h1: "source_holds env ?i (rr_offset r) (take 64 buf) s = (b1, s1)" by fastforce
    note H1 = source_holds_spec[OF Cons.prems(1) i h1]
    have i1: "?i < fs_next s1" "read_only (fs_nodes s1 ?i)" using i H1(3) by (simp_all add: same_nodes_def)
    obtain b2 s2 where h2: "source_holds env ?i (rr_offset r) buf s1 = (b2, s2)" by fastforce
    note H2 = source_holds_spec[OF H1(2) i1 h2]
    have n: "fs_nodes s1 = fs_nodes s" using H1(3) by (simp add: same_nodes_def)
    have s2: "same_nodes s s2" by (rule same_nodes_trans[OF H1(3) H2(3)])
    show ?thesis
    proof (cases "b1 \<and> b2")
      case True
      then show ?thesis using Cons.prems(3) False h1 h2 H2 s2 i n by auto
    next
      case b: False
      then have "recent_loop env alive buf rs (if b1 then s2 else s1) = (w, s')"
        using Cons.prems(3) False h1 h2 by (auto split: bool.splits)
      then show ?thesis using IH[of "if b1 then s2 else s1"] H1 H2 s2 by (auto split: if_splits)
    qed
  qed
qed

section \<open>Changing one file\<close>

text \<open>A new version of node \<open>i\<close>, of the machine's own, leaves every other file as it was.\<close>

lemma upd_file:
  assumes ok: "store_ok env s" and i: "\<not> read_only (fs_nodes s i)"
    and f: "\<not> read_only (f (fs_nodes s i))" "mirror_ok env s (f (fs_nodes s i))"
      "fn_host_size (f (fs_nodes s i)) = fn_host_size (fs_nodes s i)"
  shows "store_ok env (upd_node i f s)" "j \<noteq> i \<Longrightarrow> content env (upd_node i f s) j = content env s j"
    "content env (upd_node i f s) i
       = (case fn_mirror (f (fs_nodes s i)) of
            None \<Rightarrow> fn_data (f (fs_nodes s i))
          | Some m \<Rightarrow> cut (fn_mirror_at (f (fs_nodes s i))) (fn_mirror_len (f (fs_nodes s i)))
                        (console_bytes env (fs_nodes s m)))"
proof -
  let ?s = "upd_node i f s"
  have ro: "fs_nodes ?s m = fs_nodes s m" if "read_only (fs_nodes s m)" for m
    using that i by auto
  have mo: "mirror_ok env ?s n" if n: "mirror_ok env s n" for n
  proof (cases "fn_mirror n")
    case (Some m)
    then have "read_only (fs_nodes s m)" using n by (simp add: mirror_ok_def)
    from ro[OF this] n Some show ?thesis by (simp add: mirror_ok_def)
  qed (simp add: mirror_ok_def)
  have h: "handle_ok env (fs_nodes ?s j) (fs_readers ?s j)" for j
  proof (cases "j = i")
    case True
    have "open_host env (fs_nodes s i) = None" "open_host env (f (fs_nodes s i)) = None"
      using i f(1) by (auto simp: read_only_def open_host_def)
    then have "raw_bytes env (f (fs_nodes s i)) = raw_bytes env (fs_nodes s i)"
      by (simp add: raw_bytes_def)
    then have "handle_ok env (f (fs_nodes s i)) x = handle_ok env (fs_nodes s i) x" for x
      by (simp add: handle_ok_def f(3) cong: option.case_cong)
    then show ?thesis using store_okD(3)[OF ok, of i] True by simp
  next
    case False
    then show ?thesis using store_okD(3)[OF ok, of j] by simp
  qed
  show "store_ok env ?s"
    unfolding store_ok_def
  proof (intro conjI allI impI ballI)
    fix j
    show "handle_ok env (fs_nodes ?s j) (fs_readers ?s j)" by (rule h)
    show "mirror_ok env ?s (fs_nodes ?s j)"
      using mo[OF f(2)] mo[OF store_okD(2)[OF ok, of j]] by (cases "j = i") simp_all
    show "source_ok env (fs_nodes ?s j)" if "j < fs_next ?s" "read_only (fs_nodes ?s j)"
      using that f(1) store_okD(1)[OF ok, of j] by (cases "j = i") simp_all
    show "fs_readers ?s j = None" if "fs_next ?s \<le> j" using that store_okD(4)[OF ok] by simp
    show "length (fs_recent ?s) = RECENT_READS" using store_okD(5)[OF ok] by simp
  next
    fix r assume "r \<in> set (fs_recent ?s)"
    then have "recent_ok s r" using store_okD(6)[OF ok] by simp
    then show "recent_ok ?s r" using ro by (auto simp: recent_ok_def)
  qed
  have m: "fn_mirror n = Some m \<Longrightarrow> mirror_ok env s n \<Longrightarrow> fs_nodes ?s m = fs_nodes s m" for n m
    using ro by (auto simp: mirror_ok_def)
  show "content env ?s j = content env s j" if "j \<noteq> i"
    using that m[OF _ store_okD(2)[OF ok, of j]] by (auto simp: content_def Let_def split: option.split)
  show "content env ?s i = (case fn_mirror (f (fs_nodes s i)) of
            None \<Rightarrow> fn_data (f (fs_nodes s i))
          | Some m \<Rightarrow> cut (fn_mirror_at (f (fs_nodes s i))) (fn_mirror_len (f (fs_nodes s i)))
                        (console_bytes env (fs_nodes s m)))"
    using m[OF _ f(2)] by (auto simp: content_def Let_def split: option.split)
qed

definition wrote :: "fsenv \<Rightarrow> nat \<Rightarrow> bytes \<Rightarrow> memfs \<Rightarrow> memfs \<Rightarrow> bool" where
  "wrote env i new s s' \<longleftrightarrow> store_ok env s' \<and> content env s' = (content env s)(i := new)
     \<and> \<not> read_only (fs_nodes s' i) \<and> (\<forall>j. j \<noteq> i \<longrightarrow> fs_nodes s' j = fs_nodes s j)
     \<and> fn_kids (fs_nodes s' i) = fn_kids (fs_nodes s i) \<and> fn_dir (fs_nodes s' i) = fn_dir (fs_nodes s i)
     \<and> fs_next s' = fs_next s \<and> fs_root s' = fs_root s"

lemma wroteI:
  assumes ok: "store_ok env s0" "same_nodes s s0" and i: "\<not> read_only (fs_nodes s i)"
    and f: "\<not> read_only (f (fs_nodes s i))" "mirror_ok env s (f (fs_nodes s i))"
      "fn_host_size (f (fs_nodes s i)) = fn_host_size (fs_nodes s i)"
      "fn_kids (f (fs_nodes s i)) = fn_kids (fs_nodes s i)" "fn_dir (f (fs_nodes s i)) = fn_dir (fs_nodes s i)"
    and new: "new = (case fn_mirror (f (fs_nodes s i)) of
            None \<Rightarrow> fn_data (f (fs_nodes s i))
          | Some m \<Rightarrow> cut (fn_mirror_at (f (fs_nodes s i))) (fn_mirror_len (f (fs_nodes s i)))
                        (console_bytes env (fs_nodes s m)))"
  shows "wrote env i new s (upd_node i f s0)"
proof -
  have n: "fs_nodes s0 = fs_nodes s" "fs_next s0 = fs_next s" "fs_root s0 = fs_root s"
    using ok(2) by (simp_all add: same_nodes_def)
  have m: "mirror_ok env s0 = mirror_ok env s" by (rule ext) (simp add: mirror_ok_def n cong: option.case_cong)
  note U = upd_file[OF ok(1), of i f, unfolded n m, OF i f(1,2,3)]
  have "content env (upd_node i f s0) = (content env s)(i := new)"
  proof
    fix j
    show "content env (upd_node i f s0) j = ((content env s)(i := new)) j"
      using U(2)[of j] U(3) new same_nodes_content[OF ok(2)] by (cases "j = i") simp_all
  qed
  then show ?thesis using U(1) f(1,4,5) n by (simp add: wrote_def)
qed

lemma touch_touch: "touch i s = upd_node i (\<lambda>x. x\<lparr>fn_mtime := now_mtime s\<rparr>) s"
  by (simp add: touch_def)

lemma upd_upd: "upd_node i g (upd_node i f s) = upd_node i (\<lambda>x. g (f x)) s"
  by (simp add: upd_node_def)

lemma upd_node_stats: "(upd_node i f s)\<lparr>fs_stats := x\<rparr> = upd_node i f (s\<lparr>fs_stats := x\<rparr>)"
  by (simp add: upd_node_def)

lemma now_mtime_upd [simp]: "now_mtime (upd_node i f s) = now_mtime s" "now_mtime (s\<lparr>fs_stats := x\<rparr>) = now_mtime s"
  by (simp_all add: now_mtime_def)

lemma mirror_ok_None: "fn_mirror n = None \<Longrightarrow> mirror_ok env s n"
  by (simp add: mirror_ok_def)

lemma read_only_simps [simp]:
  "read_only (n\<lparr>fn_mtime := t\<rparr>) = read_only n" "read_only (n\<lparr>fn_data := d\<rparr>) = read_only n"
  "read_only (n\<lparr>fn_mirror_len := l\<rparr>) = read_only n" "read_only (n\<lparr>fn_mirror := m\<rparr>) = read_only n"
  "read_only (n\<lparr>fn_mirror_at := l\<rparr>) = read_only n" "read_only (drop_mirror n) = read_only n"
  by (simp_all add: read_only_def drop_mirror_def)

lemma logical_size_content:
  assumes "store_ok env s" shows "logical_size (fs_nodes s i) = length (content env s i)"
  using store_okD(2)[OF assms, of i]
  by (auto simp: logical_size_def content_def Let_def mirror_ok_def length_cut split: option.splits)

section \<open>Materialising\<close>

lemma materialise_spec:
  assumes ok: "store_ok env s" and i: "\<not> read_only (fs_nodes s i)"
  shows "wrote env i (content env s i) s (materialise env i s)"
    "fn_mirror (fs_nodes (materialise env i s) i) = None"
    "fn_data (fs_nodes (materialise env i s) i) = content env s i"
proof -
  let ?n = "fs_nodes s i"
  have "wrote env i (content env s i) s (materialise env i s) \<and>
    fn_mirror (fs_nodes (materialise env i s) i) = None \<and>
    fn_data (fs_nodes (materialise env i s) i) = content env s i"
  proof (cases "fn_mirror ?n")
    case None
    then have "materialise env i s = s" by (simp add: materialise_def)
    then show ?thesis using ok i None by (auto simp: wrote_def content_def Let_def)
  next
    case (Some m)
    have mo: "m < fs_next s" "read_only (fs_nodes s m)"
      "fn_mirror_at ?n + fn_mirror_len ?n \<le> length (console_bytes env (fs_nodes s m))"
      using store_okD(2)[OF ok, of i] Some by (auto simp: mirror_ok_def)
    define s1 where "s1 = s\<lparr>fs_stats := (fs_stats s)\<lparr>ms_mirrors := ms_mirrors (fs_stats s) - 1,
        ms_held := ms_held (fs_stats s) - of_nat (fn_mirror_len ?n),
        ms_copied := ms_copied (fs_stats s) + of_nat (fn_mirror_len ?n)\<rparr>\<rparr>"
    have c: "can_read env m s s1" using ok mo by (simp add: can_read_def s1_def)
    obtain data s2 where f: "fill_loop (source_read env m) (fn_mirror_at ?n) (fn_mirror_len ?n) 0
        (resize (fn_mirror_len ?n) (fn_data ?n)) s1 = (data, s2)" by fastforce
    have F: "data = content env s i" "can_read env m s s2"
      using src.fill_loop_fills[OF c mo(3), of "resize (fn_mirror_len ?n) (fn_data ?n)"] f Some
      by (simp_all add: content_def Let_def)
    have e: "materialise env i s = upd_node i (\<lambda>x. drop_mirror (x\<lparr>fn_data := data\<rparr>)) s2"
      using Some f by (simp add: materialise_def Let_def s1_def)
    have s2: "store_ok env s2" "same_nodes s s2" using F(2) by (simp_all add: can_read_def)
    have "wrote env i (content env s i) s (materialise env i s)"
      unfolding e using i F(1)
      by (intro wroteI[OF s2 i]) (simp_all add: drop_mirror_def mirror_ok_def read_only_def)
    moreover have "fs_nodes s2 = fs_nodes s" using s2(2) by (simp add: same_nodes_def)
    ultimately show ?thesis by (simp add: e drop_mirror_def F(1))
  qed
  then show "wrote env i (content env s i) s (materialise env i s)"
    "fn_mirror (fs_nodes (materialise env i s) i) = None"
    "fn_data (fs_nodes (materialise env i s) i) = content env s i" by auto
qed

lemma wrote_trans:
  assumes "wrote env i a s t" "wrote env i b t u" shows "wrote env i b s u"
  using assms by (auto simp: wrote_def)

lemma wrote_same_start:
  assumes "wrote env i a t u" "same_nodes s t" shows "wrote env i a s u"
  using assms same_nodes_content[OF assms(2), of env] by (simp add: wrote_def same_nodes_def)

text \<open>A change of the bytes of a file that is no mirror.\<close>

lemma set_data_wrote:
  assumes ok: "store_ok env s" and i: "\<not> read_only (fs_nodes s i)" and m: "fn_mirror (fs_nodes s i) = None"
  shows "wrote env i (g (fn_data (fs_nodes s i))) s
    (upd_node i (\<lambda>x. x\<lparr>fn_data := g (fn_data x), fn_mtime := t\<rparr>) s)"
  using i m by (intro wroteI[OF ok same_nodes_refl i]) (simp_all add: mirror_ok_def read_only_def)

lemma store_bytes_eq:
  "store_bytes i pos buf s = upd_node i (\<lambda>x. x\<lparr>fn_data := overwrite pos buf (fn_data x), fn_mtime := now_mtime s\<rparr>) s"
  by (simp add: store_bytes_def touch_def upd_upd)

lemma write_plain_spec:
  assumes ok: "store_ok env s" and i: "\<not> read_only (fs_nodes s i)"
  shows "wrote env i (overwrite pos buf (content env s i)) s (write_plain env i pos buf e s)"
proof -
  define s1 where "s1 = (if e \<and> length buf \<ge> MIRROR_MIN_START then note_copied (length buf) s else s)"
  have s1: "store_ok env s1" "same_nodes s s1" "content env s1 = content env s" "fs_nodes s1 = fs_nodes s"
    using ok same_nodes_content[of s s1] by (auto simp: s1_def note_copied_def content_def)
  have i1: "\<not> read_only (fs_nodes s1 i)" using i s1(4) by simp
  note M = materialise_spec[OF s1(1) i1]
  let ?t = "materialise env i s1"
  have t: "store_ok env ?t" "\<not> read_only (fs_nodes ?t i)" using M(1) by (simp_all add: wrote_def)
  have "wrote env i (overwrite pos buf (fn_data (fs_nodes ?t i))) ?t (store_bytes i pos buf ?t)"
    unfolding store_bytes_eq by (rule set_data_wrote[OF t M(2)])
  then have "wrote env i (overwrite pos buf (content env s i)) ?t (store_bytes i pos buf ?t)"
    by (simp add: M(3) s1(3))
  from wrote_same_start[OF wrote_trans[OF M(1) this] s1(2)] show ?thesis
    by (simp add: write_plain_def s1_def)
qed

lemma set_length_spec:
  assumes ok: "store_ok env s" and i: "\<not> read_only (fs_nodes s i)"
  shows "wrote env i (resize len (content env s i)) s (set_length env i len s)"
proof -
  note M = materialise_spec[OF ok i]
  let ?t = "materialise env i s"
  have t: "store_ok env ?t" "\<not> read_only (fs_nodes ?t i)" using M(1) by (simp_all add: wrote_def)
  have "wrote env i (resize len (fn_data (fs_nodes ?t i))) ?t (set_length env i len s)"
    unfolding set_length_def Let_def by (rule set_data_wrote[OF t M(2)])
  then show ?thesis using wrote_trans[OF M(1)] by (simp add: M(3))
qed

section \<open>Writing\<close>

lemma cut_full_length:
  assumes "cut off n xs = b" "length b = n" "0 < n" shows "off + n \<le> length xs"
  using assms by (auto simp: cut_def min_def split: if_splits)

lemma grow_mirror_spec:
  assumes ok: "store_ok env s0" "same_nodes s s0" and i: "\<not> read_only (fs_nodes s i)"
    and m: "fn_mirror (fs_nodes s i) = Some m" "mirror_ok env s (fs_nodes s i)"
    and pos: "pos = fn_mirror_len (fs_nodes s i)" and buf: "buf \<noteq> []"
    and holds: "cut (fn_mirror_at (fs_nodes s i) + pos) (length buf) (console_bytes env (fs_nodes s m)) = buf"
  shows "wrote env i (content env s i @ buf) s (grow_mirror i pos (length buf) s0)"
proof -
  let ?n = "fs_nodes s i" and ?c = "console_bytes env (fs_nodes s m)"
  let ?s1 = "s0\<lparr>fs_stats := (fs_stats s0)\<lparr>ms_held := ms_held (fs_stats s0) + of_nat (length buf)\<rparr>\<rparr>"
  have e: "grow_mirror i pos (length buf) s0
      = upd_node i (\<lambda>x. x\<lparr>fn_mirror_len := pos + length buf, fn_mtime := now_mtime s0\<rparr>) ?s1"
    by (simp add: grow_mirror_def touch_def upd_node_stats upd_upd)
  have le: "fn_mirror_at ?n + pos + length buf \<le> length ?c"
    by (rule cut_full_length[OF holds refl]) (use buf in simp)
  have new: "content env s i @ buf = cut (fn_mirror_at ?n) (pos + length buf) ?c"
    using m(1) pos holds by (simp add: content_def Let_def flip: cut_append_cut)
  show ?thesis unfolding e
  proof (rule wroteI)
    show "mirror_ok env s (?n\<lparr>fn_mirror_len := pos + length buf, fn_mtime := now_mtime s0\<rparr>)"
      using m le i by (simp add: mirror_ok_def add.assoc)
  qed (use ok i m new in simp_all)
qed

lemma start_mirror_spec:
  assumes ok: "store_ok env s0" "same_nodes s s0" and i: "\<not> read_only (fs_nodes s i)"
    and m: "m < fs_next s" "read_only (fs_nodes s m)" and buf: "buf \<noteq> []"
    and holds: "cut at (length buf) (console_bytes env (fs_nodes s m)) = buf"
  shows "wrote env i buf s (start_mirror i m at (length buf) s0)"
proof -
  let ?c = "console_bytes env (fs_nodes s m)"
  let ?s1 = "s0\<lparr>fs_stats := (fs_stats s0)\<lparr>ms_mirrors := ms_mirrors (fs_stats s0) + 1,
      ms_held := ms_held (fs_stats s0) + of_nat (length buf)\<rparr>\<rparr>"
  have e: "start_mirror i m at (length buf) s0 = upd_node i (\<lambda>x. x\<lparr>fn_mirror := Some m, fn_mirror_at := at,
      fn_mirror_len := length buf, fn_mtime := now_mtime s0\<rparr>) ?s1"
    by (simp add: start_mirror_def touch_def upd_node_stats upd_upd)
  have le: "at + length buf \<le> length ?c" by (rule cut_full_length[OF holds refl]) (use buf in simp)
  show ?thesis unfolding e
    by (rule wroteI) (use ok i m le holds in \<open>simp_all add: mirror_ok_def read_only_def\<close>)
qed

lemma content_no_mirror: "fn_mirror (fs_nodes s i) = None \<Longrightarrow> content env s i = fn_data (fs_nodes s i)"
  by (simp add: content_def)

lemma empty_write_spec:
  assumes ok: "store_ok env s" and i: "\<not> read_only (fs_nodes s i)"
    and pos: "pos \<le> length (content env s i)"
  shows "wrote env i (content env s i) s (store_bytes i pos [] s)"
proof -
  have o: "overwrite pos [] xs = xs" if "pos \<le> length xs" for xs
    using that by (simp add: overwrite_def)
  show ?thesis unfolding store_bytes_eq
    using i pos store_okD(2)[OF ok, of i]
    by (intro wroteI[OF ok same_nodes_refl i])
      (auto simp: o content_def Let_def mirror_ok_def split: option.splits)
qed

lemma write_node_spec:
  assumes ok: "store_ok env s" and i: "\<not> read_only (fs_nodes s i)"
    and pos: "buf \<noteq> [] \<or> pos \<le> length (content env s i)"
  shows "wrote env i (overwrite pos buf (content env s i)) s (write_node env alive i pos buf s)"
proof -
  let ?n = "fs_nodes s i"
  note size = logical_size_content[OF ok, of i]
  have plain_after: "wrote env i (overwrite pos buf (content env s i)) s (write_plain env i pos buf e t)"
    if "store_ok env t" "same_nodes s t" for t e
  proof -
    have "\<not> read_only (fs_nodes t i)" using that(2) i by (simp add: same_nodes_def)
    from write_plain_spec[OF that(1) this, of pos buf e] show ?thesis
      using wrote_same_start[OF _ that(2)] same_nodes_content[OF that(2)] by simp
  qed
  have plain_now: "wrote env i (overwrite pos buf (content env s i)) s (write_plain env i pos buf e s)" for e
    by (rule plain_after[OF ok same_nodes_refl])
  show ?thesis
  proof (cases "buf = []")
    case True
    then have "overwrite pos buf (content env s i) = content env s i" using pos by (simp add: overwrite_def)
    then show ?thesis using empty_write_spec[OF ok i] pos True by (simp add: write_node_def Let_def)
  next
    case buf: False
    show ?thesis
    proof (cases "fn_mirror ?n")
      case (Some m)
      have mo: "m < fs_next s" "read_only (fs_nodes s m)"
        using store_okD(2)[OF ok, of i] Some by (auto simp: mirror_ok_def)
      show ?thesis
      proof (cases "pos = logical_size ?n")
        case True
        obtain h s1 where h: "source_holds env m (fn_mirror_at ?n + pos) buf s = (h, s1)" by fastforce
        note H = source_holds_spec[OF ok mo h]
        have "content env s i @ buf = overwrite pos buf (content env s i)"
          using True size by (simp add: overwrite_append)
        moreover have "wrote env i (content env s i @ buf) s (grow_mirror i pos (length buf) s1)" if h
          using grow_mirror_spec[OF H(2,3) i Some store_okD(2)[OF ok] _ buf] True Some H(1) that
          by (simp add: logical_size_def)
        ultimately show ?thesis
          using plain_after[OF H(2,3)] buf Some True h
          by (cases h) (simp_all add: write_node_def Let_def)
      next
        case False
        then show ?thesis using plain_now buf Some by (simp add: write_node_def Let_def)
      qed
    next
      case None
      show ?thesis
      proof (cases "pos = logical_size ?n \<and> fn_data ?n = [] \<and> length buf \<ge> MIRROR_MIN_START")
        case True
        obtain w s1 where w: "recently_read_start env alive buf s = (w, s1)" by fastforce
        have "\<forall>r \<in> set (recent_order s). recent_ok s r"
          using store_okD(5,6)[OF ok] by (auto simp: recent_order_def RECENT_READS_def)
        from recent_loop_spec[OF ok this w[unfolded recently_read_start_def]]
        have W: "store_ok env s1" "same_nodes s s1"
          "w = Some (m, at) \<Longrightarrow> m < fs_next s \<and> read_only (fs_nodes s m)
             \<and> cut at (length buf) (console_bytes env (fs_nodes s m)) = buf" for m at
          by auto
        have z: "overwrite pos buf (content env s i) = buf"
          using True None content_no_mirror[OF None] overwrite_append[of "[]" buf]
          by (simp add: logical_size_def)
        show ?thesis
        proof (cases w)
          case None
          then show ?thesis using plain_after[OF W(1,2)] buf \<open>fn_mirror ?n = None\<close> True w
            by (simp add: write_node_def Let_def)
        next
          case (Some p)
          obtain m at where p: "p = (m, at)" by fastforce
          have "wrote env i buf s (start_mirror i m at (length buf) s1)"
            using start_mirror_spec[OF W(1,2) i _ _ buf] W(3)[of m at] Some p by simp
          then show ?thesis using buf None True w Some p z
            by (simp add: write_node_def Let_def)
        qed
      next
        case False
        then show ?thesis using plain_now buf None by (auto simp: write_node_def Let_def)
      qed
    qed
  qed
qed

end
