(* ===== verification/MemfsReach.thy ===== *)
theory MemfsReach
  imports MemfsWrite
begin

text \<open>
  Every operation keeps the tree well formed and the mirrors inside their sources: the
  relation \<open>fs_step\<close> is any one operation with any arguments, and \<open>fs_reach\<close> any sequence of
  them from an empty filesystem.
\<close>

definition fs_inv :: "fsenv \<Rightarrow> memfs \<Rightarrow> bool" where
  "fs_inv env s \<longleftrightarrow> tree_ok s \<and> store_ok env s"

lemma fs_invD: "fs_inv env s \<Longrightarrow> tree_ok s" "fs_inv env s \<Longrightarrow> store_ok env s"
  by (simp_all add: fs_inv_def)

section \<open>Names and dates are no part of a file's content\<close>

definition file_view :: "fnode \<Rightarrow> fnode" where
  "file_view n = n\<lparr>fn_kids := [], fn_mtime := 0\<rparr>"

lemma open_host_view: "open_host env (file_view n) = open_host env n"
  by (simp add: open_host_def file_view_def)

lemma view_fields [simp]:
  "fn_backing (file_view n) = fn_backing n" "fn_host_size (file_view n) = fn_host_size n"
  "fn_disc_dec (file_view n) = fn_disc_dec n" "fn_pkg_dec (file_view n) = fn_pkg_dec n"
  "fn_mirror (file_view n) = fn_mirror n" "fn_mirror_at (file_view n) = fn_mirror_at n"
  "fn_mirror_len (file_view n) = fn_mirror_len n" "fn_data (file_view n) = fn_data n"
  "fn_dir (file_view n) = fn_dir n" "read_only (file_view n) = read_only n"
  by (simp_all add: file_view_def read_only_def)

lemma raw_bytes_view: "raw_bytes env (file_view n) = raw_bytes env n"
  by (simp add: raw_bytes_def open_host_view split: option.split)

lemma console_view: "console_bytes env (file_view n) = console_bytes env n"
  by (simp add: console_bytes_def raw_bytes_view split: option.split backing.split)

lemma source_ok_view: "source_ok env (file_view n) = source_ok env n"
  by (simp add: source_ok_def opens_well_def raw_bytes_view open_host_view console_view
      split: option.split backing.split)

lemma handle_ok_view: "handle_ok env (file_view n) f = handle_ok env n f"
  by (simp add: handle_ok_def raw_bytes_view split: option.split)

lemma view_cong:
  assumes "file_view a = file_view b"
  shows "console_bytes env a = console_bytes env b" "source_ok env a = source_ok env b"
    "handle_ok env a f = handle_ok env b f" "read_only a = read_only b" "fn_mirror a = fn_mirror b"
    "fn_mirror_at a = fn_mirror_at b" "fn_mirror_len a = fn_mirror_len b" "fn_data a = fn_data b"
  using assms console_view source_ok_view handle_ok_view view_fields by metis+

lemma strip_view: "strip_kids a = strip_kids b \<Longrightarrow> file_view a = file_view b"
proof -
  have "file_view n = (strip_kids n)\<lparr>fn_mtime := 0\<rparr>" for n by (simp add: file_view_def strip_kids_def)
  then show "strip_kids a = strip_kids b \<Longrightarrow> file_view a = file_view b" by simp
qed

lemma view_upd [simp]:
  "file_view (n\<lparr>fn_mtime := t\<rparr>) = file_view n" "file_view (n\<lparr>fn_kids := k\<rparr>) = file_view n"
  by (simp_all add: file_view_def)

lemma store_ok_view:
  assumes v: "\<And>i. file_view (fs_nodes s' i) = file_view (fs_nodes s i)"
    and "fs_next s' = fs_next s" "fs_readers s' = fs_readers s" "fs_recent s' = fs_recent s"
  shows "store_ok env s' = store_ok env s" "content env s' = content env s"
proof -
  note c = view_cong[OF v]
  have "mirror_ok env s' (fs_nodes s' i) = mirror_ok env s (fs_nodes s i)" for i
    by (simp add: mirror_ok_def c(1,4,5,6,7) assms(2) cong: option.case_cong)
  then show "store_ok env s' = store_ok env s"
    by (simp add: store_ok_def recent_ok_def assms(2-4) c(2,3,4))
  show "content env s' = content env s"
    by (rule ext) (simp add: content_def Let_def c(1,5,6,7,8) cong: option.case_cong)
qed

section \<open>A node more\<close>

definition fresh_ok :: "fsenv \<Rightarrow> fnode \<Rightarrow> bool" where
  "fresh_ok env n \<longleftrightarrow> fn_mirror n = None \<and> fn_kids n = [] \<and> (read_only n \<longrightarrow> source_ok env n)"

lemma fresh_dir: "fresh_ok env (blank_node\<lparr>fn_dir := d, fn_data := b\<rparr>)"
  by (simp add: fresh_ok_def blank_node_def read_only_def)

lemma fresh_blank: "fresh_ok env (blank_node\<lparr>fn_dir := True\<rparr>)" "fresh_ok env blank_node"
  "fresh_ok env (blank_node\<lparr>fn_data := b\<rparr>)"
  by (simp_all add: fresh_ok_def blank_node_def read_only_def)

lemma new_node_store:
  assumes ok: "store_ok env s" and n: "fresh_ok env n"
  shows "store_ok env (snd (new_node n s))"
    "i < fs_next s \<Longrightarrow> content env (snd (new_node n s)) i = content env s i"
    "content env (snd (new_node n s)) (fs_next s) = fn_data n"
proof -
  let ?s = "snd (new_node n s)" and ?c = "fs_next s"
  have nodes: "fs_nodes ?s i = (if i = ?c then n\<lparr>fn_mtime := now_mtime s\<rparr> else fs_nodes s i)" for i
    by (simp add: new_node_def)
  have f: "fs_next ?s = Suc ?c" "fs_readers ?s = fs_readers s" "fs_recent ?s = fs_recent s"
    by (simp_all add: new_node_def)
  note V = view_cong[OF view_upd(1)[where n = n and t = "now_mtime s"]]
  have mo: "mirror_ok env ?s x" if "mirror_ok env s x" for x
    using that by (auto simp: mirror_ok_def nodes f split: option.splits)
  show "store_ok env ?s" unfolding store_ok_def
  proof (intro conjI allI impI ballI)
    fix i
    show "source_ok env (fs_nodes ?s i)" if "i < fs_next ?s" "read_only (fs_nodes ?s i)"
      using that n store_okD(1)[OF ok, of i] by (cases "i = ?c") (auto simp: nodes f V fresh_ok_def)
    show "mirror_ok env ?s (fs_nodes ?s i)"
      using mo[OF store_okD(2)[OF ok, of i]] n
      by (cases "i = ?c") (simp_all add: nodes mirror_ok_None fresh_ok_def)
    show "handle_ok env (fs_nodes ?s i) (fs_readers ?s i)"
      using store_okD(3)[OF ok, of i] store_okD(4)[OF ok, of ?c]
      by (cases "i = ?c") (simp_all add: nodes f handle_ok_def)
    show "fs_readers ?s i = None" if "fs_next ?s \<le> i" using that store_okD(4)[OF ok, of i] by (simp add: f)
    show "length (fs_recent ?s) = RECENT_READS" using store_okD(5)[OF ok] by (simp add: f)
  next
    fix r assume "r \<in> set (fs_recent ?s)"
    then have "recent_ok s r" using store_okD(6)[OF ok] by (simp add: f)
    then show "recent_ok ?s r" by (auto simp: recent_ok_def f nodes)
  qed
  show "content env ?s i = content env s i" if "i < ?c" for i
  proof -
    have "m < ?c" if "fn_mirror (fs_nodes s i) = Some m" for m
      using store_okD(2)[OF ok, of i] that by (simp add: mirror_ok_def)
    then show ?thesis using that by (auto simp: content_def Let_def nodes split: option.split)
  qed
  show "content env ?s ?c = fn_data n" using n by (simp add: content_def nodes fresh_ok_def)
qed

lemma add_node_store:
  assumes ok: "store_ok env s" and n: "fresh_ok env n"
  shows "store_ok env (add_node d leaf n s)"
    "i < fs_next s \<Longrightarrow> content env (add_node d leaf n s) i = content env s i"
    "content env (add_node d leaf n s) (fs_next s) = fn_data n"
proof -
  have e: "add_node d leaf n s = set_kid d leaf (fs_next s) (snd (new_node n s))"
    by (simp add: add_node_def new_node_def)
  have v: "file_view (fs_nodes (set_kid d leaf c t) i) = file_view (fs_nodes t i)" for c t i
    by (simp add: set_kid_def)
  note S = store_ok_view[of "set_kid d leaf (fs_next s) (snd (new_node n s))", OF v]
  note N = new_node_store[OF ok n]
  show "store_ok env (add_node d leaf n s)" unfolding e using N(1) by (subst S(1)) (simp_all add: set_kid_def)
  have c: "content env (add_node d leaf n s) = content env (snd (new_node n s))"
    unfolding e by (rule S(2)) (simp_all add: set_kid_def)
  show "i < fs_next s \<Longrightarrow> content env (add_node d leaf n s) i = content env s i"
    "content env (add_node d leaf n s) (fs_next s) = fn_data n"
    using N(2,3) by (simp_all add: c)
qed

lemma add_node_inv:
  assumes inv: "fs_inv env s" and d: "tree s ps = Some d" "is_dir s d" and n: "fresh_ok env n"
  shows "fs_inv env (add_node d leaf n s)"
  using tree_add_node(2)[OF fs_invD(1)[OF inv] d] add_node_store(1)[OF fs_invD(2)[OF inv] n] n
  by (simp add: fs_inv_def fresh_ok_def)

lemma mkdirs_loop_store:
  "store_ok env s \<Longrightarrow> mkdirs_loop qs cur s = (r, s') \<Longrightarrow> store_ok env s'
    \<and> (\<forall>i < fs_next s. content env s' i = content env s i) \<and> fs_next s \<le> fs_next s'"
proof (induction qs cur s rule: mkdirs_loop.induct)
  case (2 p qs cur s)
  show ?case
  proof (cases "kid s cur p")
    case None
    let ?t = "add_node cur p (blank_node\<lparr>fn_dir := True\<rparr>) s"
    note A = add_node_store[OF 2(3) fresh_blank(1)]
    have "fs_next ?t = Suc (fs_next s)" by (simp add: add_node_def new_node_def set_kid_def)
    then show ?thesis using 2(1)[OF None A(1)] 2(4) None A(2) by auto
  next
    case (Some c)
    then show ?thesis using 2(2)[OF Some _ 2(3)] 2(3,4) by (auto split: if_splits)
  qed
qed auto

lemma mkdirs_inv:
  assumes "fs_inv env s" "mkdirs rel s = (r, s')"
  shows "fs_inv env s'"
  using mkdirs_spec(1)[OF fs_invD(1)[OF assms(1)] assms(2)] mkdirs_loop_store[OF fs_invD(2)[OF assms(1)]]
    assms(2) by (auto simp: fs_inv_def dirs_made_def mkdirs_def)

lemma graft_node_inv:
  assumes inv: "fs_inv env s" and n: "fresh_ok env n"
  shows "fs_inv env (snd (graft_node rel n s))"
proof (cases "split_path rel = []")
  case False
  obtain r s1 where m: "mkdirs (dir_string (split_path rel)) s = (r, s1)" by fastforce
  have i1: "fs_inv env s1" by (rule mkdirs_inv[OF inv m])
  show ?thesis
  proof (cases r)
    case None
    then show ?thesis using i1 m False by (simp add: graft_node_def Let_def)
  next
    case (Some d)
    note M = mkdirs_spec(3)[OF fs_invD(1)[OF inv] m, of d]
    then show ?thesis using add_node_inv[OF i1 _ _ n] m Some False
      by (auto simp: graft_node_def Let_def)
  qed
qed (use inv in \<open>simp add: graft_node_def\<close>)

lemma put_inv:
  assumes inv: "fs_inv env s" and p: "memfs_put rel data s = Some s'"
  shows "fs_inv env s'"
proof -
  obtain d s1 where m: "mkdirs (dir_string (split_path rel)) s = (Some d, s1)"
    and s': "s' = add_node d (last (split_path rel)) (blank_node\<lparr>fn_data := data\<rparr>) s1"
    using p by (auto simp: memfs_put_def Let_def split: if_splits prod.splits option.splits)
  have i1: "fs_inv env s1" by (rule mkdirs_inv[OF inv m])
  show ?thesis unfolding s'
    using mkdirs_spec(3)[OF fs_invD(1)[OF inv] m, of d] add_node_inv[OF i1 _ _ fresh_blank(3)] by blast
qed

lemma put_spec:
  assumes inv: "fs_inv env s" and p: "memfs_put rel data s = Some s'"
  shows "\<exists>n. tree s' (split_path rel) = Some n \<and> \<not> is_dir s' n \<and> content env s' n = data \<and> n < fs_next s'"
    and "i < fs_next s \<Longrightarrow> content env s' i = content env s i" "fs_next s \<le> fs_next s'"
    and "tree s qs = Some k \<Longrightarrow> \<not> prefix (split_path rel) qs \<Longrightarrow> \<not> is_dir s k
      \<Longrightarrow> tree s' qs = Some k \<and> \<not> is_dir s' k"
proof -
  obtain d s1 where m: "mkdirs (dir_string (split_path rel)) s = (Some d, s1)" and ne: "split_path rel \<noteq> []"
    and s': "s' = add_node d (last (split_path rel)) (blank_node\<lparr>fn_data := data\<rparr>) s1"
    using p by (auto simp: memfs_put_def Let_def split: if_splits prod.splits option.splits)
  note M = mkdirs_spec[OF fs_invD(1)[OF inv] m, unfolded split_dir_string]
  have ok1: "tree_ok s1" using M(1) by (simp add: dirs_made_def)
  have S: "store_ok env s1" "\<forall>i < fs_next s. content env s1 i = content env s i" "fs_next s \<le> fs_next s1"
    using mkdirs_loop_store[OF fs_invD(2)[OF inv]] m by (auto simp: mkdirs_def)
  have d: "tree s1 (butlast (split_path rel)) = Some d" "is_dir s1 d" using M(3)[of d] by auto
  have nk: "fn_kids (blank_node\<lparr>fn_data := data\<rparr>) = []" by (simp add: blank_node_def)
  note A = tree_add_node[OF ok1 d nk, where leaf = "last (split_path rel)"]
  note C = add_node_store[OF S(1) fresh_blank(3)[where b = data], where d = d and leaf = "last (split_path rel)"]
  have e: "butlast (split_path rel) @ [last (split_path rel)] = split_path rel" using ne by simp
  have t: "tree s' = tree_put (split_path rel) (fs_next s1) (tree s1)" using A(1) by (simp add: s' e)
  show "\<exists>n. tree s' (split_path rel) = Some n \<and> \<not> is_dir s' n \<and> content env s' n = data \<and> n < fs_next s'"
  proof (intro exI conjI)
    show "tree s' (split_path rel) = Some (fs_next s1)" by (simp add: t tree_put_def)
    show "\<not> is_dir s' (fs_next s1)" unfolding s' A(5) by (simp add: blank_node_def)
    show "content env s' (fs_next s1) = data" using C(3) by (simp add: s'[symmetric])
    show "fs_next s1 < fs_next s'" using A(3) by (simp add: s'[symmetric])
  qed
  show "content env s' i = content env s i" if "i < fs_next s" using C(2) S(2,3) that by (simp add: s')
  show "fs_next s \<le> fs_next s'" using A(3) S(3) by (simp add: s')
  assume q: "tree s qs = Some k" "\<not> prefix (split_path rel) qs" "\<not> is_dir s k"
  have t1: "tree s1 qs = Some k" using M(1) q(1) by (simp add: dirs_made_def)
  have "k < fs_next s" using tree_next[OF fs_invD(1)[OF inv] q(1)] .
  then have k1: "\<not> is_dir s1 k" using M(1) q(1,3) strip_kids_eqD[OF files_keptD[of s s1 k]] by (simp add: dirs_made_def)
  have kn: "k \<noteq> fs_next s1" "k \<noteq> d" using tree_next[OF ok1 t1] k1 d(2) by auto
  show "tree s' qs = Some k \<and> \<not> is_dir s' k"
  proof (intro conjI)
    show "tree s' qs = Some k" using q(2) t1 by (auto simp: t tree_put_def)
    show "\<not> is_dir s' k" using A(6)[OF kn] k1 unfolding s' by simp
  qed
qed

text \<open>Which paths a put changes: its own, what was below it, and the directories it had to make.\<close>

lemma put_paths:
  assumes inv: "fs_inv env s" and p: "memfs_put rel data s = Some s'"
  shows "\<exists>n \<ge> fs_next s. tree s' (split_path rel) = Some n"
    and "\<not> prefix (split_path rel) qs \<Longrightarrow> tree s qs \<noteq> None \<or> \<not> prefix qs (split_path rel)
      \<Longrightarrow> tree s' qs = tree s qs"
    and "i < fs_next s \<Longrightarrow> is_dir s' i = is_dir s i"
proof -
  obtain d s1 where m: "mkdirs (dir_string (split_path rel)) s = (Some d, s1)" and ne: "split_path rel \<noteq> []"
    and s': "s' = add_node d (last (split_path rel)) (blank_node\<lparr>fn_data := data\<rparr>) s1"
    using p by (auto simp: memfs_put_def Let_def split: if_splits prod.splits option.splits)
  note M = mkdirs_spec[OF fs_invD(1)[OF inv] m, unfolded split_dir_string]
  have ok1: "tree_ok s1" and fk: "files_kept s s1" using M(1) by (simp_all add: dirs_made_def)
  have d: "tree s1 (butlast (split_path rel)) = Some d" "is_dir s1 d" using M(3)[of d] by auto
  have nk: "fn_kids (blank_node\<lparr>fn_data := data\<rparr>) = []" by simp
  note A = tree_add_node[OF ok1 d nk, where leaf = "last (split_path rel)"]
  have e: "butlast (split_path rel) @ [last (split_path rel)] = split_path rel" using ne by simp
  have t: "tree s' = tree_put (split_path rel) (fs_next s1) (tree s1)" using A(1) by (simp add: s' e)
  show "\<exists>n \<ge> fs_next s. tree s' (split_path rel) = Some n"
    using fk by (auto simp: t tree_put_def files_kept_def)
  show "tree s' qs = tree s qs"
    if "\<not> prefix (split_path rel) qs" "tree s qs \<noteq> None \<or> \<not> prefix qs (split_path rel)"
  proof -
    have "prefix (butlast (split_path rel)) (split_path rel)" by (metis e prefixI)
    then have "tree s qs \<noteq> None \<or> \<not> prefix qs (butlast (split_path rel))"
      using that(2) prefix_order.trans by blast
    then have "tree s1 qs = tree s qs" using M(1) unfolding dirs_made_def by blast
    then show ?thesis using that(1) by (auto simp: t tree_put_def)
  qed
  show "is_dir s' i = is_dir s i" if i: "i < fs_next s"
  proof -
    have n: "i \<noteq> fs_next s1" using i fk by (simp add: files_kept_def)
    have "is_dir s' i = is_dir s1 i" using A(6)[OF n] A(7) by (cases "i = d") (simp_all add: s')
    then show ?thesis using strip_kids_eqD[OF files_keptD[OF fk i]] by simp
  qed
qed

section \<open>The device\<close>

lemma kids_change_store:
  "store_ok env (drop_kid d leaf s) = store_ok env s"
  "store_ok env (set_kid d leaf c s) = store_ok env s"
  "store_ok env (upd_node i (\<lambda>x. x\<lparr>fn_mtime := t\<rparr>) s) = store_ok env s"
  by (rule store_ok_view; simp add: drop_kid_def set_kid_def)+

lemma wrote_inv:
  assumes "fs_inv env s" "wrote env i new s s'" shows "fs_inv env s'"
proof -
  have "fn_kids (fs_nodes s' j) = fn_kids (fs_nodes s j) \<and> is_dir s' j = is_dir s j" for j
    using assms(2) by (cases "j = i") (auto simp: wrote_def)
  from tree_frame(2)[OF this] assms show ?thesis by (auto simp: fs_inv_def wrote_def)
qed

lemma mtime_inv: "fs_inv env s \<Longrightarrow> fs_inv env (upd_node i (\<lambda>x. x\<lparr>fn_mtime := t\<rparr>) s)"
  using tree_frame(2)[of "upd_node i (\<lambda>x. x\<lparr>fn_mtime := t\<rparr>) s" s] by (simp add: fs_inv_def kids_change_store)

lemma create_dir_inv:
  assumes inv: "fs_inv env s" and c: "create_dir path s = Inr s'"
  shows "fs_inv env s'"
proof -
  obtain d leaf where "s' = add_node d leaf (blank_node\<lparr>fn_dir := True\<rparr>) s"
    using c by (auto simp: create_dir_def split: prod.splits option.splits)
  then show ?thesis
    using create_dir_spec(5)[OF fs_invD(1)[OF inv] c] add_node_store(1)[OF fs_invD(2)[OF inv] fresh_blank(1)]
    by (simp add: fs_inv_def)
qed

lemma remove_inv: "fs_inv env s \<Longrightarrow> remove path s = Inr s' \<Longrightarrow> fs_inv env s'"
  by (rule remove_spec[of s path s'])
    (auto simp: fs_inv_def remove_def kids_change_store split: prod.splits option.splits if_splits)

lemma remove_dir_inv: "fs_inv env s \<Longrightarrow> remove_dir path s = Inr s' \<Longrightarrow> fs_inv env s'"
  by (rule remove_dir_spec[of s path s'])
    (auto simp: fs_inv_def remove_dir_def kids_change_store split: prod.splits option.splits if_splits)

lemma rename_inv: "fs_inv env s \<Longrightarrow> rename a b s = Inr s' \<Longrightarrow> fs_inv env s'"
  by (rule rename_spec[of s a b s'])
    (auto simp: fs_inv_def rename_def Let_def kids_change_store split: prod.splits option.splits if_splits)

lemma set_length_inv:
  "fs_inv env s \<Longrightarrow> \<not> read_only (fs_nodes s i) \<Longrightarrow> fs_inv env (set_length env i len s)"
  using wrote_inv set_length_spec fs_invD(2) by blast

lemma trunc_wrote:
  assumes "store_ok env s" "\<not> read_only (fs_nodes s i)"
  shows "wrote env i [] s (upd_node i (\<lambda>x. (drop_mirror x)\<lparr>fn_data := [], fn_mtime := t\<rparr>) s)"
  using assms(2) by (intro wroteI[OF assms(1) same_nodes_refl assms(2)])
    (simp_all add: drop_mirror_def mirror_ok_def read_only_def)

lemma open_existing_inv:
  assumes "fs_inv env s" "open_existing env m i s = Inr (f, s')"
  shows "fs_inv env s'"
  using assms wrote_inv[OF assms(1) trunc_wrote[OF fs_invD(2)[OF assms(1)]], of i "now_mtime s"]
  by (auto simp: open_existing_def Let_def split: if_splits)

lemma dev_open_inv:
  assumes inv: "fs_inv env s" and o: "dev_open env path m s = Inr (f, s')"
  shows "fs_inv env s'"
proof -
  obtain r w where l: "lookup s (strip_root path) = (r, w)" by fastforce
  show ?thesis
  proof (cases r)
    case None
    then obtain d leaf where w: "w = Some (d, leaf)"
      and e: "open_existing env m (fs_next s) (add_node d leaf blank_node s) = Inr (f, s')"
      using o l by (auto simp: dev_open_def split: option.splits if_splits)
    note L = lookup_place[OF fs_invD(1)[OF inv] l[unfolded w]]
    show ?thesis by (rule open_existing_inv[OF add_node_inv[OF inv L(2,3) fresh_blank(2)] e])
  next
    case (Some i)
    then show ?thesis using o l open_existing_inv[OF inv] by (auto simp: dev_open_def split: if_splits)
  qed
qed

lemma remember_inv:
  assumes "fs_inv env s" "recent_ok s r"
  shows "fs_inv env (remember_read r s)"
proof -
  have t: "tree_ok (remember_read r s) = tree_ok s"
    by (rule tree_frame(2)) (simp_all add: remember_read_def)
  have "store_ok env (s\<lparr>fs_recent := (fs_recent s)[k := r], fs_recent_next := n\<rparr>)" for k n
    using fs_invD(2)[OF assms(1)] assms(2)
    by (auto simp: store_ok_def mirror_ok_def recent_ok_def dest!: set_update_subset_insert[THEN subsetD]
        cong: option.case_cong)
  then show ?thesis using assms(1) t by (auto simp: fs_inv_def remember_read_def)
qed

section \<open>Reads\<close>

definition file_ok :: "fsenv \<Rightarrow> memfs \<Rightarrow> mem_file \<Rightarrow> bool" where
  "file_ok env s f \<longleftrightarrow> mf_node f < fs_next s
     \<and> (if mf_host f = None then True
        else read_only (fs_nodes s (mf_node f)) \<and> handle_ok env (fs_nodes s (mf_node f)) (mf_host f))
     \<and> (case mf_mirror_reader f of
          None \<Rightarrow> True
        | Some (i, h) \<Rightarrow> handle_ok env (fs_nodes s i) h)"

lemma from_source_ro: "file_ok env s f \<Longrightarrow> from_source f s \<Longrightarrow> read_only (fs_nodes s (mf_node f))"
  by (auto simp: file_ok_def from_source_def has_stream_def read_only_def split: if_splits)

lemma fresh_handle_ok:
  assumes "store_ok env s" "i < fs_next s" "read_only (fs_nodes s i)"
  shows "handle_ok env (fs_nodes s i) (open_host env (fs_nodes s i))"
proof (cases "fn_backing (fs_nodes s i)")
  case (HostFile p)
  then have "opens_well env (fs_nodes s i)" using store_okD(1)[OF assms] by (simp add: source_ok_def)
  then show ?thesis by (rule opens_well_ok)
qed (simp_all add: open_host_def handle_ok_def)

lemma mirror_read:
  assumes ok: "store_ok env s" and f: "file_ok env s f" and ns: "\<not> from_source f s"
    and r: "mf_read_at env off len f s = (b, f', s')"
  shows "b = cut off len (content env s (mf_node f))" "file_ok env s' f'" "same_nodes s s'"
    "store_ok env s'" "mf_node f' = mf_node f" "mf_pos f' = mf_pos f"
proof -
  let ?n = "fs_nodes s (mf_node f)"
  have "b = cut off len (content env s (mf_node f)) \<and> file_ok env s' f' \<and> same_nodes s s' \<and> store_ok env s'
      \<and> mf_node f' = mf_node f \<and> mf_pos f' = mf_pos f"
  proof (cases "fn_mirror ?n")
    case None
    then show ?thesis using r ns f ok by (auto simp: mf_read_at_def content_def Let_def cut_beyond split: if_splits)
  next
    case (Some m)
    have mo: "m < fs_next s" "read_only (fs_nodes s m)"
      "fn_mirror_at ?n + fn_mirror_len ?n \<le> length (console_bytes env (fs_nodes s m))"
      using store_okD(2)[OF ok, of "mf_node f"] Some by (auto simp: mirror_ok_def)
    have h: "handle_ok env (fs_nodes s m) (mirror_handle env m f s)"
      using f fresh_handle_ok[OF ok mo(1,2)]
      by (auto simp: mirror_handle_def file_ok_def split: option.splits)
    have c: "content env s (mf_node f) = cut (fn_mirror_at ?n) (fn_mirror_len ?n) (console_bytes env (fs_nodes s m))"
      using Some by (simp add: content_def Let_def)
    show ?thesis
    proof (cases "off \<ge> fn_mirror_len ?n")
      case True
      then have "length (content env s (mf_node f)) \<le> off" using c by (simp add: length_cut)
      then show ?thesis using r ns Some True f ok by (simp add: mf_read_at_def Let_def cut_beyond)
    next
      case False
      obtain g h' k where nr: "node_read_at env (fs_nodes s m) (mirror_handle env m f s) (fn_mirror_at ?n + off)
          (min len (fn_mirror_len ?n - off)) = (g, h', k)" by (cases rule: prod_cases3)
      note N = node_read_cut[OF store_okD(1)[OF ok mo(1,2)] h nr]
      have e: "b = g" "f' = f\<lparr>mf_mirror_reader := Some (m, h')\<rparr>" "s' = add_decrypted k s"
        using r ns Some False nr by (simp_all add: mf_read_at_def Let_def)
      have "g = cut off len (content env s (mf_node f))" using N(1) c by (simp add: cut_cut)
      then show ?thesis using e f N(2) ok by (simp add: file_ok_def add_decrypted_def split: if_splits)
    qed
  qed
  then show "b = cut off len (content env s (mf_node f))" "file_ok env s' f'" "same_nodes s s'"
    "store_ok env s'" "mf_node f' = mf_node f" "mf_pos f' = mf_pos f" by auto
qed

lemma read_inv:
  assumes inv: "fs_inv env s" and f: "mf_node f < fs_next s" "mf_host f \<noteq> None \<longrightarrow> read_only (fs_nodes s (mf_node f))"
    and r: "mf_read_at env off len f s = (b, f', s')"
  shows "fs_inv env s'"
proof (cases "from_source f s")
  case True
  then have s': "s' = remember_read \<lparr>rr_source = mf_node f, rr_offset = off, rr_size = length b\<rparr> s"
    using r by (auto simp: mf_read_at_def Let_def split: prod.splits)
  have "read_only (fs_nodes s (mf_node f))"
    using True f(2) by (auto simp: from_source_def has_stream_def read_only_def)
  then show ?thesis unfolding s' using f(1) by (intro remember_inv[OF inv]) (simp add: recent_ok_def)
next
  case False
  then have "s' = s \<or> (\<exists>k. s' = add_decrypted k s)"
    using r by (auto simp: mf_read_at_def Let_def split: option.splits if_splits prod.splits)
  moreover have "tree_ok (add_decrypted k s) = tree_ok s" for k
    by (rule tree_frame(2)) (simp_all add: add_decrypted_def)
  moreover have "store_ok env (add_decrypted k s) = store_ok env s" for k
    by (rule store_ok_view(1)) (simp_all add: add_decrypted_def)
  ultimately show ?thesis using inv by (auto simp: fs_inv_def)
qed

section \<open>Marking an image or a package\<close>

lemma console_length:
  assumes "source_ok env n" "fn_backing n = HostFile p"
  shows "length (console_bytes env n) = fn_host_size n"
  using assms by (auto simp: source_ok_def opens_well_def by_sector_def console_bytes_def split: option.splits)

lemma mark_console_length:
  assumes "source_ok env n" "source_ok env m" "fn_backing m = fn_backing n" "fn_host_size m = fn_host_size n"
  shows "length (console_bytes env m) = length (console_bytes env n)"
proof (cases "fn_backing n")
  case (HostFile p)
  then show ?thesis using assms console_length by simp
next
  case Memory
  then show ?thesis using assms(1) by (simp add: source_ok_def)
qed (simp_all add: console_bytes_def assms(3,4))

text \<open>What is a mark: it changes nothing of a node but how its bytes are decrypted. The source it
  is made on has as many bytes as before, so what mirrors it still lies inside it.\<close>

definition mark_only :: "(fnode \<Rightarrow> fnode) \<Rightarrow> bool" where
  "mark_only f \<longleftrightarrow> (\<forall>n. fn_backing (f n) = fn_backing n \<and> fn_host_size (f n) = fn_host_size n
     \<and> fn_mirror (f n) = fn_mirror n \<and> fn_mirror_at (f n) = fn_mirror_at n
     \<and> fn_mirror_len (f n) = fn_mirror_len n \<and> fn_kids (f n) = fn_kids n \<and> fn_dir (f n) = fn_dir n)"

lemma mark_store:
  assumes ok: "store_ok env s" and f: "mark_only f"
    and src: "i < fs_next s \<Longrightarrow> read_only (f (fs_nodes s i)) \<Longrightarrow> source_ok env (f (fs_nodes s i))"
  shows "store_ok env (upd_node i f s)"
  unfolding store_ok_def
proof (intro conjI allI impI ballI)
  let ?s = "upd_node i f s"
  note F = f[unfolded mark_only_def, rule_format]
  have ro: "read_only (f n) = read_only n" for n by (simp add: read_only_def F)
  fix j
  show "source_ok env (fs_nodes ?s j)" if "j < fs_next ?s" "read_only (fs_nodes ?s j)"
    using that src store_okD(1)[OF ok, of j] by (cases "j = i") simp_all
  have "length (console_bytes env (f (fs_nodes s i))) = length (console_bytes env (fs_nodes s i))"
    if "i < fs_next s" "read_only (fs_nodes s i)"
    using that src store_okD(1)[OF ok that] ro by (intro mark_console_length) (simp_all add: F)
  then have "mirror_ok env ?s (fs_nodes s k)" if "mirror_ok env s (fs_nodes s k)" for k
    using that by (auto simp: mirror_ok_def ro split: option.splits)
  moreover have "mirror_ok env ?s (f n) = mirror_ok env ?s n" for n
    by (simp add: mirror_ok_def F ro split: option.split)
  ultimately show "mirror_ok env ?s (fs_nodes ?s j)" using store_okD(2)[OF ok] by simp
  have "raw_bytes env (f n) = raw_bytes env n" for n
    by (simp add: raw_bytes_def open_host_def F split: option.split backing.split)
  then have "handle_ok env (f n) x = handle_ok env n x" for n x
    by (simp add: handle_ok_def F split: option.split)
  then show "handle_ok env (fs_nodes ?s j) (fs_readers ?s j)" using store_okD(3)[OF ok] by simp
  show "fs_readers ?s j = None" if "fs_next ?s \<le> j" using that store_okD(4)[OF ok] by simp
  show "length (fs_recent ?s) = RECENT_READS" using store_okD(5)[OF ok] by simp
next
  fix r assume "r \<in> set (fs_recent (upd_node i f s))"
  then have "recent_ok s r" using store_okD(6)[OF ok] by simp
  then show "recent_ok (upd_node i f s) r"
    using f by (auto simp: recent_ok_def read_only_def mark_only_def)
qed

lemma mark_inv:
  assumes inv: "fs_inv env s" and f: "mark_only f"
    and src: "i < fs_next s \<Longrightarrow> read_only (f (fs_nodes s i)) \<Longrightarrow> source_ok env (f (fs_nodes s i))"
  shows "fs_inv env (upd_node i f s)"
proof -
  have "tree_ok (upd_node i f s) = tree_ok s"
    by (rule tree_frame(2)) (use f in \<open>auto simp: mark_only_def\<close>)
  then show ?thesis using mark_store[OF fs_invD(2)[OF inv] f src] inv by (simp add: fs_inv_def)
qed

lemma clear_readers_store: "store_ok env s \<Longrightarrow> store_ok env (s\<lparr>fs_readers := (\<lambda>_. None)\<rparr>)"
  by (auto simp: store_ok_def mirror_ok_def recent_ok_def handle_ok_def cong: option.case_cong)

lemma clear_readers_inv: "fs_inv env s \<Longrightarrow> fs_inv env (s\<lparr>fs_readers := (\<lambda>_. None)\<rparr>)"
  using tree_frame(2)[of "s\<lparr>fs_readers := (\<lambda>_. None)\<rparr>" s] clear_readers_store
  by (simp add: fs_inv_def)

lemma mark_package_inv:
  assumes inv: "fs_inv env s" and m: "memfs_mark_package rel dec s = (res, s')"
    and ok: "\<And>i. fst (lookup s rel) = Some i \<Longrightarrow> read_only (fs_nodes s' i) \<Longrightarrow> source_ok env (fs_nodes s' i)"
  shows "fs_inv env s'"
proof (cases "fst (lookup s rel)")
  case None
  then show ?thesis using inv m by (simp add: memfs_mark_package_def)
next
  case (Some i)
  show ?thesis
  proof (cases "is_host_file (fs_nodes s i)")
    case True
    let ?f = "\<lambda>x. x\<lparr>fn_pkg_dec := Some dec\<rparr>"
    have s': "s' = (upd_node i ?f s)\<lparr>fs_readers := (\<lambda>_. None)\<rparr>"
      using m Some True by (simp add: memfs_mark_package_def)
    have "fs_inv env (upd_node i ?f s)"
      by (rule mark_inv[OF inv]) (use ok[OF Some] s' in \<open>auto simp: mark_only_def\<close>)
    then show ?thesis unfolding s' by (rule clear_readers_inv)
  qed (use inv m Some in \<open>simp add: memfs_mark_package_def\<close>)
qed

lemma set_disc_inv:
  assumes inv: "fs_inv env s"
    and ok: "\<And>i. fst (lookup s rel) = Some i \<Longrightarrow> read_only (fs_nodes (memfs_set_disc_decryption rel on s) i)
      \<Longrightarrow> source_ok env (fs_nodes (memfs_set_disc_decryption rel on s) i)"
  shows "fs_inv env (memfs_set_disc_decryption rel on s)"
proof (cases "fst (lookup s rel)")
  case None
  then show ?thesis using inv by (simp add: memfs_set_disc_decryption_def)
next
  case (Some i)
  let ?f = "\<lambda>x. if on \<and> fn_disc_dec_off x \<noteq> None
             then x\<lparr>fn_disc_dec := fn_disc_dec_off x, fn_disc_dec_off := None\<rparr>
             else if \<not> on \<and> fn_disc_dec x \<noteq> None
             then x\<lparr>fn_disc_dec_off := fn_disc_dec x, fn_disc_dec := None\<rparr> else x"
  have e: "memfs_set_disc_decryption rel on s = (upd_node i ?f s)\<lparr>fs_readers := (\<lambda>_. None)\<rparr>"
    using Some by (simp add: memfs_set_disc_decryption_def)
  have "mark_only ?f" by (simp add: mark_only_def)
  moreover have "source_ok env (?f (fs_nodes s i))" if "read_only (?f (fs_nodes s i))"
    using ok[OF Some] that unfolding e by simp
  ultimately have "fs_inv env (upd_node i ?f s)" by (intro mark_inv[OF inv])
  then show ?thesis unfolding e by (rule clear_readers_inv)
qed

lemma remember_all_inv:
  "fs_inv env s \<Longrightarrow> \<forall>r \<in> set rs. recent_ok s r \<Longrightarrow> fs_inv env (fold remember_read rs s)
    \<and> fs_nodes (fold remember_read rs s) = fs_nodes s \<and> fs_next (fold remember_read rs s) = fs_next s"
proof (induction rs arbitrary: s)
  case (Cons r rs)
  have n: "fs_nodes (remember_read r s) = fs_nodes s" "fs_next (remember_read r s) = fs_next s"
    by (simp_all add: remember_read_def)
  have "fs_inv env (remember_read r s)" using remember_inv Cons.prems by simp
  then show ?case using Cons.IH[of "remember_read r s"] Cons.prems(2) n by (simp add: recent_ok_def)
qed simp

lemma mark_disc_inv:
  assumes inv: "fs_inv env s"
    and ok: "\<And>i. fst (lookup s rel) = Some i \<Longrightarrow> read_only (fs_nodes (memfs_mark_disc_image env rel s) i)
      \<Longrightarrow> source_ok env (fs_nodes (memfs_mark_disc_image env rel s) i)"
    and reads: "\<forall>r \<in> set (snd (env_disc_init env (memfs_root @ ''/'' @ rel))). recent_ok s r"
  shows "fs_inv env (memfs_mark_disc_image env rel s)"
proof (cases "fst (lookup s rel)")
  case None
  then show ?thesis using inv by (simp add: memfs_mark_disc_image_def)
next
  case (Some i)
  obtain made rs where d: "env_disc_init env (memfs_root @ ''/'' @ rel) = (made, rs)" by fastforce
  let ?f = "\<lambda>x. x\<lparr>fn_disc_tried := True, fn_disc_dec := (case made of None \<Rightarrow> fn_disc_dec x | Some d \<Rightarrow> Some d)\<rparr>"
  note R = remember_all_inv[OF inv, of rs]
  show ?thesis
  proof (cases "\<not> is_host_file (fs_nodes s i) \<or> fn_disc_tried (fs_nodes s i)")
    case True
    then show ?thesis using inv Some by (simp add: memfs_mark_disc_image_def)
  next
    case False
    then have e: "memfs_mark_disc_image env rel s = upd_node i ?f (fold remember_read rs s)"
      using Some d by (simp add: memfs_mark_disc_image_def)
    have "mark_only ?f" by (simp add: mark_only_def)
    moreover have "source_ok env (?f (fs_nodes (fold remember_read rs s) i))"
      if "read_only (?f (fs_nodes (fold remember_read rs s) i))"
      using ok[OF Some] that unfolding e by simp
    ultimately show ?thesis unfolding e using R reads d by (intro mark_inv) simp_all
  qed
qed

section \<open>Every sequence of operations\<close>

text \<open>A step is one operation of the device, of an open file or of the driver that changes the
  filesystem. The premises are what holds of the outside and of open files: a node grafted or
  marked is a source as documented (\<open>source_ok\<close>), a handle that may write is not on a read-only
  node, and a handle with a host descriptor is on a node with a host file.\<close>

inductive fs_step :: "fsenv \<Rightarrow> memfs \<Rightarrow> memfs \<Rightarrow> bool" for env where
  create_dir: "create_dir path s = Inr s' \<Longrightarrow> fs_step env s s'"
| remove_dir: "remove_dir path s = Inr s' \<Longrightarrow> fs_step env s s'"
| rename: "rename a b s = Inr s' \<Longrightarrow> fs_step env s s'"
| remove: "remove path s = Inr s' \<Longrightarrow> fs_step env s s'"
| utime: "utime path t s = Some s' \<Longrightarrow> fs_step env s s'"
| trunc: "dev_trunc env path len s = Inr s' \<Longrightarrow> fs_step env s s'"
| opened: "dev_open env path m s = Inr (f, s') \<Longrightarrow> fs_step env s s'"
| wrote: "(mf_writable f \<longrightarrow> \<not> read_only (fs_nodes s (mf_node f))) \<Longrightarrow>
    mf_write env alive buf f s = (k, f', s') \<Longrightarrow> fs_step env s s'"
| truncated: "(mf_writable f \<longrightarrow> \<not> read_only (fs_nodes s (mf_node f))) \<Longrightarrow>
    mf_trunc env len f s = (r, s') \<Longrightarrow> fs_step env s s'"
| read: "mf_node f < fs_next s \<Longrightarrow> (mf_host f \<noteq> None \<longrightarrow> read_only (fs_nodes s (mf_node f))) \<Longrightarrow>
    mf_read_at env off len f s = (b, f', s') \<Longrightarrow> fs_step env s s'"
| mkdirs: "fs_step env s (memfs_mkdirs rel s)"
| put: "memfs_put rel data s = Some s' \<Longrightarrow> fs_step env s s'"
| graft: "source_ok env n \<Longrightarrow> fn_mirror n = None \<Longrightarrow> fn_kids n = [] \<Longrightarrow> fs_step env s (snd (graft_node rel n s))"
| mark_package: "memfs_mark_package rel dec s = (r, s') \<Longrightarrow>
    (\<And>i. fst (lookup s rel) = Some i \<Longrightarrow> read_only (fs_nodes s' i) \<Longrightarrow> source_ok env (fs_nodes s' i))
    \<Longrightarrow> fs_step env s s'"
| mark_disc: "memfs_mark_disc_image env rel s = s' \<Longrightarrow>
    (\<And>i. fst (lookup s rel) = Some i \<Longrightarrow> read_only (fs_nodes s' i) \<Longrightarrow> source_ok env (fs_nodes s' i)) \<Longrightarrow>
    \<forall>r \<in> set (snd (env_disc_init env (memfs_root @ ''/'' @ rel))). recent_ok s r
    \<Longrightarrow> fs_step env s s'"
| set_disc: "memfs_set_disc_decryption rel on s = s' \<Longrightarrow>
    (\<And>i. fst (lookup s rel) = Some i \<Longrightarrow> read_only (fs_nodes s' i) \<Longrightarrow> source_ok env (fs_nodes s' i))
    \<Longrightarrow> fs_step env s s'"
| reset: "fs_step env s (memfs_mirror_reset s)"
| clock: "fs_step env s (s\<lparr>fs_now := t\<rparr>)"

inductive fs_reach :: "fsenv \<Rightarrow> memfs \<Rightarrow> bool" for env where
  start: "fs_reach env (memfs_install now)"
| step: "fs_reach env s \<Longrightarrow> fs_step env s s' \<Longrightarrow> fs_reach env s'"

text \<open>A write of no bytes past the end of a file makes the bytes that are kept longer; the node
  stays well formed then too.\<close>

lemma write_node_wrote:
  assumes ok: "store_ok env s" and i: "\<not> read_only (fs_nodes s i)"
  shows "\<exists>X. wrote env i X s (write_node env alive i pos buf s)"
proof (cases "buf = []")
  case False
  then show ?thesis using write_node_spec[OF ok i] by blast
next
  case True
  let ?f = "\<lambda>x. x\<lparr>fn_data := overwrite pos [] (fn_data x), fn_mtime := now_mtime s\<rparr>"
  have "wrote env i (case fn_mirror (?f (fs_nodes s i)) of
            None \<Rightarrow> fn_data (?f (fs_nodes s i))
          | Some m \<Rightarrow> cut (fn_mirror_at (?f (fs_nodes s i))) (fn_mirror_len (?f (fs_nodes s i)))
                        (console_bytes env (fs_nodes s m))) s (upd_node i ?f s)"
    using i store_okD(2)[OF ok, of i]
    by (intro wroteI[OF ok same_nodes_refl i]) (auto simp: mirror_ok_def read_only_def split: option.splits)
  then show ?thesis using True by (auto simp: write_node_def Let_def store_bytes_eq)
qed

lemma write_inv:
  assumes inv: "fs_inv env s" and i: "mf_writable f \<longrightarrow> \<not> read_only (fs_nodes s (mf_node f))"
    and w: "mf_write env alive buf f s = (k, f', s')"
  shows "fs_inv env s'"
proof (cases "\<not> mf_writable f \<or> from_source f s")
  case True
  then show ?thesis using w inv by (auto simp: mf_write_def)
next
  case False
  then obtain p where "s' = write_node env alive (mf_node f) p buf s" using w by (auto simp: mf_write_def Let_def)
  then show ?thesis using write_node_wrote[OF fs_invD(2)[OF inv]] wrote_inv[OF inv] i False by blast
qed

lemma plain_fields_inv: "fs_inv env s \<Longrightarrow> fs_inv env (s\<lparr>fs_stats := x\<rparr>)" "fs_inv env s \<Longrightarrow> fs_inv env (s\<lparr>fs_now := t\<rparr>)"
proof -
  have "tree_ok (s\<lparr>fs_stats := x\<rparr>) = tree_ok s" "tree_ok (s\<lparr>fs_now := t\<rparr>) = tree_ok s"
    by (rule tree_frame(2); simp)+
  moreover have "store_ok env (s\<lparr>fs_now := t\<rparr>) = store_ok env s" by (rule store_ok_view) simp_all
  ultimately show "fs_inv env s \<Longrightarrow> fs_inv env (s\<lparr>fs_stats := x\<rparr>)" "fs_inv env s \<Longrightarrow> fs_inv env (s\<lparr>fs_now := t\<rparr>)"
    by (simp_all add: fs_inv_def)
qed

lemma fs_step_inv:
  assumes "fs_step env s s'" "fs_inv env s"
  shows "fs_inv env s'"
  using assms(1)
proof cases
  case (utime path t)
  then show ?thesis using mtime_inv[OF assms(2)] by (auto simp: utime_def split: option.splits)
next
  case (trunc path len)
  then show ?thesis using set_length_inv[OF assms(2)] by (auto simp: dev_trunc_def split: option.splits if_splits)
next
  case (truncated f len r)
  then show ?thesis using set_length_inv[OF assms(2)] assms(2) by (auto simp: mf_trunc_def split: if_splits)
next
  case (mkdirs rel)
  then show ?thesis using mkdirs_inv[OF assms(2)] by (metis memfs_mkdirs_def prod.collapse)
next
  case (graft n rel)
  then show ?thesis using graft_node_inv[OF assms(2)] by (simp add: fresh_ok_def)
next
  case reset
  then show ?thesis using plain_fields_inv[OF assms(2)] by (simp add: memfs_mirror_reset_def)
next
  case (clock t)
  then show ?thesis using plain_fields_inv[OF assms(2)] by simp
next
  case (mark_package rel dec r)
  then show ?thesis using mark_package_inv[OF assms(2)] by blast
next
  case (mark_disc rel)
  then show ?thesis using mark_disc_inv[OF assms(2)] by blast
next
  case (set_disc rel on)
  then show ?thesis using set_disc_inv[OF assms(2)] by blast
next
  case (wrote f buf alive k f')
  then show ?thesis using write_inv[OF assms(2)] by blast
next
  case (read f off len b f')
  then show ?thesis using read_inv[OF assms(2)] by blast
qed (use assms(2) in \<open>auto intro: create_dir_inv remove_dir_inv rename_inv remove_inv dev_open_inv put_inv\<close>)

lemma install_inv: "fs_inv env (memfs_install now)"
proof -
  let ?s = "memfs_install now"
  have n: "fs_nodes ?s i = blank_node\<lparr>fn_dir := (i = 0)\<rparr>" for i
    by (simp add: memfs_install_def blank_node_def)
  have f: "fs_next ?s = 1" "fs_root ?s = 0" "fs_readers ?s = (\<lambda>_. None)"
    "fs_recent ?s = replicate RECENT_READS \<lparr>rr_source = 0, rr_offset = 0, rr_size = 0\<rparr>"
    by (simp_all add: memfs_install_def)
  have "tree_ok ?s" by (simp add: tree_ok_def n f blank_node_def)
  moreover have "store_ok env ?s"
    by (simp add: store_ok_def n f blank_node_def read_only_def mirror_ok_def handle_ok_def recent_ok_def)
  ultimately show ?thesis by (simp add: fs_inv_def)
qed

text \<open>In an empty filesystem nothing is in the way of a path.\<close>

lemma put_into_new:
  assumes "split_path rel \<noteq> []"
  shows "\<exists>s. memfs_put rel data (memfs_install t) = Some s"
proof -
  obtain r s1 where m: "mkdirs (dir_string (split_path rel)) (memfs_install t) = (r, s1)" by fastforce
  have "tree (memfs_install t) qs = (if qs = [] then Some 0 else None)" for qs
    by (cases qs) (simp_all add: tree_def memfs_install_def blank_node_def)
  then have "\<not> blocked (memfs_install t) ps" for ps
    by (auto simp: blocked_def memfs_install_def split: if_splits)
  then have "r \<noteq> None" using mkdirs_spec(2)[OF fs_invD(1)[OF install_inv] m] by blast
  then show ?thesis using m assms by (auto simp: memfs_put_def)
qed

lemma fs_reach_inv: "fs_reach env s \<Longrightarrow> fs_inv env s"
  by (induction rule: fs_reach.induct) (auto intro: install_inv fs_step_inv)

end
