(* ===== verification/MemfsProps.thy ===== *)
theory MemfsProps
  imports MemfsReach
begin

text \<open>
  The properties of the in-memory filesystem. The runs that show their hypotheses can hold
  are on \<open>demo_fs\<close>: a disc image of four bytes, grafted as \<open>disc\<close>, and a file \<open>save\<close> that is
  a mirror of the two bytes in its middle.
\<close>

section \<open>A small filesystem\<close>

definition demo_bytes :: bytes where
  "demo_bytes = [10, 20, 30, 40]"

definition demo_env :: fsenv where
  "demo_env = \<lparr>env_open = (\<lambda>p. if p = ''d'' then Some (\<lambda>off k. Some (cut off k demo_bytes)) else None),
     env_zip = (\<lambda>_ _ _ _. []), env_sz = (\<lambda>_ _ _ _. []), env_disc = (\<lambda>_ _ b. b),
     env_disc_init = (\<lambda>_. (None, [])), env_aes = (\<lambda>_ b. b), env_sha1 = (\<lambda>b. b)\<rparr>"

definition demo_disc :: fnode where
  "demo_disc = blank_node\<lparr>fn_backing := HostFile ''d'', fn_host_size := 4\<rparr>"

definition demo_save :: fnode where
  "demo_save = blank_node\<lparr>fn_mirror := Some 1, fn_mirror_at := 1, fn_mirror_len := 2\<rparr>"

definition demo_fs :: memfs where
  "demo_fs = (memfs_install 0)\<lparr>fs_next := 3, fs_nodes := (\<lambda>i.
     if i = 0 then blank_node\<lparr>fn_dir := True, fn_kids := [(''disc'', 1), (''save'', 2)]\<rparr>
     else if i = 1 then demo_disc else if i = 2 then demo_save else blank_node)\<rparr>"

lemma demo_nodes:
  "fs_nodes demo_fs 0 = blank_node\<lparr>fn_dir := True, fn_kids := [(''disc'', 1), (''save'', 2)]\<rparr>"
  "fs_nodes demo_fs (Suc 0) = demo_disc" "fs_nodes demo_fs 2 = demo_save"
  "i \<noteq> 0 \<Longrightarrow> i \<noteq> 1 \<Longrightarrow> i \<noteq> 2 \<Longrightarrow> fs_nodes demo_fs i = blank_node"
  "fs_root demo_fs = 0" "fs_next demo_fs = 3" "fs_readers demo_fs = (\<lambda>_. None)"
  "fs_recent demo_fs = replicate RECENT_READS \<lparr>rr_source = 0, rr_offset = 0, rr_size = 0\<rparr>"
  by (simp_all add: demo_fs_def memfs_install_def)

lemma demo_raw: "raw_bytes demo_env demo_disc = demo_bytes"
  by (simp add: raw_bytes_def open_host_def demo_env_def demo_disc_def blank_node_def demo_bytes_def cut_def)

lemma demo_console: "console_bytes demo_env demo_disc = demo_bytes"
  using demo_raw by (simp add: console_bytes_def) (simp add: demo_disc_def blank_node_def)

lemma demo_source: "source_ok demo_env demo_disc"
proof -
  have d: "fn_backing demo_disc = HostFile ''d''" "fn_disc_dec demo_disc = None" "fn_pkg_dec demo_disc = None"
    "fn_host_size demo_disc = 4"
    by (simp_all add: demo_disc_def)
  show ?thesis
    by (simp add: source_ok_def opens_well_def d demo_raw open_host_def)
      (simp add: demo_env_def demo_bytes_def)
qed

lemma demo_store: "store_ok demo_env demo_fs"
proof -
  have c: "i = 0 \<or> i = 1 \<or> i = 2 \<or> (i \<noteq> 0 \<and> i \<noteq> 1 \<and> i \<noteq> 2)" for i :: nat by auto
  have ro: "\<not> read_only (fs_nodes demo_fs i) \<or> i = 1" for i
    using c[of i] by (auto simp: demo_nodes read_only_def blank_node_def demo_save_def)
  have "mirror_ok demo_env demo_fs (fs_nodes demo_fs i)" for i
  proof (cases "i = 2")
    case True
    have "read_only demo_disc" by (simp add: demo_disc_def read_only_def)
    then show ?thesis using True
      by (simp add: mirror_ok_def demo_nodes demo_save_def demo_console read_only_def blank_node_def demo_bytes_def)
  next
    case False
    then show ?thesis using c[of i] by (auto simp: demo_nodes mirror_ok_None blank_node_def demo_disc_def)
  qed
  moreover have "read_only (fs_nodes demo_fs i) \<Longrightarrow> source_ok demo_env (fs_nodes demo_fs i)" for i
    using ro[of i] demo_source by (auto simp: demo_nodes)
  ultimately show ?thesis
    by (simp add: store_ok_def handle_ok_def demo_nodes(6-8) recent_ok_def)
qed

lemma demo_kids:
  "kid demo_fs i p = (if i = 0 then (if p = ''disc'' then Some 1 else if p = ''save'' then Some 2 else None) else None)"
  by (simp add: demo_fs_def demo_disc_def demo_save_def)

lemma demo_tree: "tree_ok demo_fs"
proof -
  have "om_ok (fn_kids (fs_nodes demo_fs i))" for i
    by (cases "i = 0 \<or> i = 1 \<or> i = 2")
      (auto simp: demo_nodes blank_node_def demo_disc_def demo_save_def)
  then show ?thesis
    by (auto simp: tree_ok_def kid_ok_def demo_kids demo_nodes split: if_splits)
qed

lemma demo_content: "content demo_env demo_fs 2 = [20, 30]"
  by (simp add: content_def demo_nodes demo_save_def demo_console cut_def demo_bytes_def)

lemma demo_memory: "\<not> read_only (fs_nodes demo_fs 2)"
  by (simp add: demo_nodes demo_save_def blank_node_def read_only_def)

definition demo_file :: mem_file where
  "demo_file = \<lparr>mf_node = 2, mf_pos = 0, mf_writable = True, mf_append = False, mf_host = None, mf_mirror_reader = None\<rparr>"

lemma demo_file_ok: "file_ok demo_env demo_fs demo_file" "\<not> from_source demo_file demo_fs"
  by (simp_all add: file_ok_def demo_file_def demo_nodes from_source_def has_stream_def demo_save_def blank_node_def)

section \<open>Files\<close>

text \<open>C2. A write does to the content of a file what it does to plain bytes, and touches no other
  file, whether the bytes end up kept, start a mirror of a source, extend one, or break one up;
  all of the buffer is written and the position moves past it.\<close>

theorem write_is_plain_write:
  assumes "store_ok env s" "\<not> read_only (fs_nodes s (mf_node f))" "mf_writable f" "\<not> from_source f s" "buf \<noteq> []"
  defines "pos \<equiv> (if mf_append f then length (content env s (mf_node f)) else mf_pos f)"
  shows "\<exists>s'. mf_write env alive buf f s = (length buf, f\<lparr>mf_pos := pos + length buf\<rparr>, s')
    \<and> store_ok env s'
    \<and> content env s' = (content env s)(mf_node f := overwrite pos buf (content env s (mf_node f)))"
proof -
  have p: "(if mf_append f then logical_size (fs_nodes s (mf_node f)) else mf_pos f) = pos"
    using logical_size_content[OF assms(1)] by (simp add: pos_def)
  have "wrote env (mf_node f) (overwrite pos buf (content env s (mf_node f))) s
      (write_node env alive (mf_node f) pos buf s)"
    using write_node_spec[OF assms(1,2)] assms(5) by blast
  then show ?thesis using assms(3,4) by (simp add: mf_write_def Let_def p wrote_def)
qed

theorem write_is_plain_write_witness:
  "\<exists>s'. mf_write demo_env (\<lambda>_. True) [99] demo_file demo_fs = (1, demo_file\<lparr>mf_pos := 1\<rparr>, s')
    \<and> content demo_env s' 2 = [99, 30]"
proof -
  have f: "\<not> read_only (fs_nodes demo_fs (mf_node demo_file))" "mf_writable demo_file" "mf_node demo_file = 2"
    "\<not> mf_append demo_file" "mf_pos demo_file = 0"
    using demo_memory by (simp_all add: demo_file_def)
  have o: "overwrite 0 [99] [20, 30 :: u8] = [99, 30]" by (simp add: overwrite_def splice_def)
  show ?thesis
    using write_is_plain_write[OF demo_store f(1,2) demo_file_ok(2), of "[99]" "\<lambda>_. True"] f
    by (auto simp: demo_content o)
qed

text \<open>C11. A read of a file of the machine's own gives the stretch of its content asked for, cut
  at its end, whether the bytes are kept or read through a mirror; it changes no file.\<close>

theorem read_is_plain_read:
  assumes "store_ok env s" "file_ok env s f" "\<not> from_source f s"
  shows "\<exists>f' s'. mf_read env len f s = (cut (mf_pos f) len (content env s (mf_node f)), f', s')
    \<and> mf_pos f' = mf_pos f + min len (length (content env s (mf_node f)) - mf_pos f)
    \<and> file_ok env s' f' \<and> store_ok env s' \<and> content env s' = content env s"
proof -
  obtain b f' s' where r: "mf_read_at env (mf_pos f) len f s = (b, f', s')" by (cases rule: prod_cases3)
  note M = mirror_read[OF assms r]
  show ?thesis using M same_nodes_content[OF M(3)] r
    by (auto simp: mf_read_def length_cut file_ok_def split: if_splits)
qed

theorem read_is_plain_read_witness:
  "fst (mf_read demo_env 9 demo_file demo_fs) = [20, 30]"
proof -
  have "mf_node demo_file = 2" "mf_pos demo_file = 0" by (simp_all add: demo_file_def)
  then show ?thesis
    using read_is_plain_read[OF demo_store demo_file_ok, of 9] by (auto simp: demo_content cut_def)
qed

text \<open>C12. A handle that has stopped being the file (this read through it fails to seek, or comes
  back short) is healed by one reopen: the read still gives the file's bytes, and the handle
  kept from here on is the one just opened, which gives the file's bytes at every offset.\<close>

theorem broken_handle_is_healed:
  fixes off len :: nat
  assumes "opens_well env n" "fn_backing n = HostFile p" "off < fn_host_size n"
  defines "want \<equiv> min len (fn_host_size n - off)"
  assumes "\<And>b. h off want = Some b \<Longrightarrow> length b < want"
  shows "\<exists>h'. env_open env p = Some h'
    \<and> read_raw env n (Some h) off len = (cut off len (raw_bytes env n), Some h')
    \<and> (\<forall>o' k. o' + k \<le> fn_host_size n \<longrightarrow> h' o' k = Some (cut o' k (raw_bytes env n)))"
proof -
  let ?raw = "raw_bytes env n"
  obtain h' where h': "env_open env p = Some h'" "length ?raw = fn_host_size n"
    "\<And>o' k. o' + k \<le> fn_host_size n \<Longrightarrow> h' o' k = Some (cut o' k ?raw)"
    using assms(1,2) by (auto simp: opens_well_def open_host_def)
  have "off + want \<le> fn_host_size n" "cut off want ?raw = cut off len ?raw"
    using assms(3) h'(2) by (auto simp: want_def cut_min)
  then have "h' off want = Some (cut off len ?raw)" using h'(3) by metis
  then have "read_raw env n (Some h) off len = (cut off len ?raw, Some h')"
    using assms(2,3,5) h'(1)
    by (auto simp: read_raw_def host_read_at_def host_path_def Let_def want_def[symmetric] split: option.splits)
  then show ?thesis using h' by blast
qed

theorem broken_handle_is_healed_witness:
  "fst (read_raw demo_env demo_disc (Some (\<lambda>_ _. None)) 1 2) = [20, 30]"
proof -
  have "opens_well demo_env demo_disc" "fn_backing demo_disc = HostFile ''d''" "1 < fn_host_size demo_disc"
    using demo_source by (simp_all add: source_ok_def demo_disc_def)
  from broken_handle_is_healed[OF this, of "\<lambda>_ _. None" 2] show ?thesis
    by (auto simp: demo_raw demo_bytes_def cut_def)
qed

text \<open>C13. Opening refuses, in this order, a path with no directory above it or a missing file
  not to be created, an existing file to be created exclusively, a directory, and a read-only
  file opened for writing; a refusal leaves everything as it was, a success gives a handle at the start.\<close>

theorem open_refusals:
  assumes "tree_ok s"
  shows "case dev_open env path m s of
      Inl e \<Rightarrow> (case tree s (path_of path) of
          None \<Rightarrow> e = Noent
        | Some i \<Rightarrow> e = (if om_excl m then Exist else if is_dir s i then Isdir else Readonly)
            \<and> (e = Readonly \<longrightarrow> read_only (fs_nodes s i) \<and> (om_write m \<or> om_append m)))
    | Inr (f, s') \<Rightarrow> mf_pos f = 0 \<and> mf_writable f = (om_write m \<or> om_append m)
        \<and> tree s' (path_of path) = Some (mf_node f) \<and> \<not> is_dir s' (mf_node f)
        \<and> (mf_writable f \<longrightarrow> \<not> read_only (fs_nodes s' (mf_node f)))
        \<and> (case tree s (path_of path) of
              None \<Rightarrow> om_create m \<and> fn_data (fs_nodes s' (mf_node f)) = []
            | Some i \<Rightarrow> mf_node f = i \<and> \<not> om_excl m \<and> \<not> is_dir s i
                \<and> (om_write m \<or> om_append m \<longrightarrow> \<not> read_only (fs_nodes s i)))"
proof -
  obtain r w where l: "lookup s (strip_root path) = (r, w)" by fastforce
  have r: "r = tree s (path_of path)" by (rule lookup_cases(1)[OF assms l])
  show ?thesis
  proof (cases r)
    case None
    show ?thesis
    proof (cases "w = None \<or> \<not> om_create m")
      case True
      then show ?thesis using l None r by (auto simp: dev_open_def split: option.split)
    next
      case False
      then obtain d leaf where w: "w = Some (d, leaf)" and c: "om_create m" by auto
      note L = lookup_place[OF assms l[unfolded w]]
      have b: "fn_kids blank_node = []" by simp
      have e: "butlast (path_of path) @ [leaf] = path_of path" using L(1) by simp
      let ?t = "add_node d leaf blank_node s"
      note A = tree_add_node[OF assms L(2,3) b, where leaf = leaf, unfolded e]
      have nd: "fs_nodes ?t (fs_next s) = blank_node\<lparr>fn_mtime := now_mtime s\<rparr>" by (rule A(5))
      have o: "dev_open env path m s = open_existing env m (fs_next s) ?t"
        using l None w c by (simp add: dev_open_def)
      define s1 where "s1 = (if om_trunc m \<and> (om_write m \<or> om_append m)
          then upd_node (fs_next s) (\<lambda>x. (drop_mirror x)\<lparr>fn_data := [], fn_mtime := now_mtime ?t\<rparr>) ?t else ?t)"
      have fr: "fn_kids (fs_nodes s1 i) = fn_kids (fs_nodes ?t i) \<and> is_dir s1 i = is_dir ?t i" for i
        by (simp add: s1_def drop_mirror_def)
      have t1: "tree s1 = tree ?t" by (rule tree_frame(1)[OF fr]) (simp_all add: s1_def)
      have n1: "\<not> is_dir s1 (fs_next s)" "\<not> read_only (fs_nodes s1 (fs_next s))" "fn_data (fs_nodes s1 (fs_next s)) = []"
        by (simp_all add: s1_def nd read_only_def drop_mirror_def)
      have "open_existing env m (fs_next s) ?t
          = Inr (new_mem_file env (fs_next s) (om_write m \<or> om_append m) (om_append m) s1, s1)"
        by (simp add: open_existing_def Let_def nd s1_def read_only_def)
      then show ?thesis using None r c n1 A(1)
        by (simp add: o new_mem_file_def t1 tree_put_def)
    qed
  next
    case (Some i)
    define s1 where "s1 = (if om_trunc m \<and> (om_write m \<or> om_append m)
          then upd_node i (\<lambda>x. (drop_mirror x)\<lparr>fn_data := [], fn_mtime := now_mtime s\<rparr>) s else s)"
    have fr: "fn_kids (fs_nodes s1 j) = fn_kids (fs_nodes s j) \<and> is_dir s1 j = is_dir s j" for j
      by (simp add: s1_def drop_mirror_def)
    have t1: "tree s1 = tree s" by (rule tree_frame(1)[OF fr]) (simp_all add: s1_def)
    have r1: "read_only (fs_nodes s1 i) = read_only (fs_nodes s i)"
      by (simp add: s1_def)
    have "dev_open env path m s = (if om_excl m then Inl Exist else if is_dir s i then Inl Isdir
        else if (om_write m \<or> om_append m) \<and> read_only (fs_nodes s i) then Inl Readonly
        else Inr (new_mem_file env i (om_write m \<or> om_append m) (om_append m) s1, s1))"
      using l Some by (auto simp: dev_open_def open_existing_def Let_def s1_def)
    then show ?thesis using Some r fr[of i] r1 by (auto simp: new_mem_file_def t1)
  qed
qed

theorem open_refusals_witness:
  "dev_open demo_env ''/disc'' \<lparr>om_write = True, om_append = False, om_create = False, om_excl = False, om_trunc = False\<rparr>
     demo_fs = Inl Readonly"
proof -
  let ?m = "\<lparr>om_write = True, om_append = False, om_create = False, om_excl = False, om_trunc = False\<rparr>"
  have p: "split_path (strip_root ''/disc'') = [''disc'']"
    by (simp add: strip_root_def memfs_root_def split_path_def is_slash_def keep_part_def)
  have t: "tree demo_fs [''disc''] = Some 1" by (simp add: tree_def demo_kids demo_nodes)
  have d: "read_only demo_disc" "\<not> fn_dir demo_disc" by (simp_all add: demo_disc_def read_only_def)
  show ?thesis
    using open_refusals[OF demo_tree, where env = demo_env and path = "''/disc''" and m = ?m] t d
    by (auto simp: p demo_nodes split: sum.splits prod.splits)
qed

end
