(* ===== verification/MemfsNames.thy ===== *)
theory MemfsNames
  imports MemfsProps
begin

text \<open>
  The properties of the filesystem's names: making, moving, removing and listing, each
  stated on the map from paths to nodes.
\<close>

lemma demo_paths:
  "split_path (strip_root ''/save'') = [''save'']" "split_path (strip_root ''/disc'') = [''disc'']"
  "split_path (strip_root ''/new'') = [''new'']" "split_path ''a/b'' = [''a'', ''b'']"
  "split_path (strip_root ''/'') = []"
  by (simp_all add: strip_root_def memfs_root_def split_path_def is_slash_def keep_part_def)

lemma demo_look:
  "tree demo_fs [''save''] = Some 2" "tree demo_fs [''disc''] = Some 1" "tree demo_fs [''new''] = None"
  "tree demo_fs [''a''] = None" "tree demo_fs [] = Some 0"
  by (simp_all add: tree_def demo_kids demo_nodes)

text \<open>C14. Whatever is done to it, the filesystem stays well formed: what can be reached from the
  root is a tree (a node has one path at most, and one parent and name), only directories have
  children and children are in name order; and every mirror is a stretch that lies inside a
  read-only source. (A directory renamed to a path below itself is out of reach from then on. The
  sources are as documented, \<open>source_ok\<close>, when they are grafted or marked.)\<close>

theorem filesystem_stays_well_formed:
  assumes "fs_reach env s"
  shows "tree_ok s \<and> store_ok env s
    \<and> (\<forall>ps qs i. tree s ps = Some i \<and> tree s qs = Some i \<longrightarrow> ps = qs)"
  using fs_reach_inv[OF assms] tree_unique by (auto simp: fs_inv_def)

theorem filesystem_stays_well_formed_witness:
  "tree_ok (memfs_mkdirs ''a/b'' (memfs_install 5))"
  using filesystem_stays_well_formed[OF fs_reach.step[OF fs_reach.start[of demo_env 5] fs_step.mkdirs[of demo_env _ "''a/b''"]]]
  by simp

text \<open>C15. A rename moves the whole subtree: what was below the old path is below the new one,
  what stood at the new path is gone, nothing is left at the old one, and every other path
  leads where it did. When the new path lies below the old one, \<open>rename\<close> does not refuse: what
  is at and below the old path is out of reach from then on, and every other path leads where
  it did. Either way no file's content changes.\<close>

theorem rename_moves_the_subtree:
  assumes "tree_ok s" "store_ok env s" "rename a b s = Inr s'"
  shows "tree_ok s' \<and> content env s' = content env s \<and> tree s (path_of a) \<noteq> None
    \<and> (if strict_prefix (path_of a) (path_of b)
       then \<forall>qs. tree s' qs = (if prefix (path_of a) qs then None else tree s qs)
       else (\<forall>rest. tree s' (path_of b @ rest) = tree s (path_of a @ rest))
         \<and> (\<forall>qs. \<not> prefix (path_of b) qs \<longrightarrow>
              tree s' qs = (if prefix (path_of a) qs then None else tree s qs)))"
proof -
  obtain n where R: "tree s' = (if strict_prefix (path_of a) (path_of b) then tree_erase (path_of a) (tree s)
      else tree_move (path_of a) (path_of b) (tree s))" "tree_ok s'"
    "\<And>i. i \<noteq> n \<Longrightarrow> strip_kids (fs_nodes s' i) = strip_kids (fs_nodes s i)"
    "\<exists>t. strip_kids (fs_nodes s' n) = (strip_kids (fs_nodes s n))\<lparr>fn_mtime := t\<rparr>" "fs_next s' = fs_next s"
    "tree s (path_of a) = Some n"
    using rename_spec[OF assms(1,3)] by metis
  have v: "file_view (fs_nodes s' i) = file_view (fs_nodes s i)" for i
  proof (cases "i = n")
    case True
    have sk: "file_view x = (strip_kids x)\<lparr>fn_mtime := 0\<rparr>" for x by (simp add: file_view_def strip_kids_def)
    from R(4) obtain t where "strip_kids (fs_nodes s' n) = (strip_kids (fs_nodes s n))\<lparr>fn_mtime := t\<rparr>" by blast
    then show ?thesis using True by (simp add: sk)
  next
    case False
    then show ?thesis using strip_view[OF R(3)] by blast
  qed
  have "content env s' = content env s"
  proof (rule store_ok_view(2)[OF v R(5)])
    show "fs_readers s' = fs_readers s" "fs_recent s' = fs_recent s"
      using assms(3) by (auto simp: rename_def Let_def set_kid_def drop_kid_def
          split: prod.splits option.splits if_splits)
  qed
  then show ?thesis using R(1,2,6) by (auto simp: tree_move_def tree_erase_def)
qed

theorem rename_moves_the_subtree_witness:
  "\<exists>s'. rename ''/save'' ''/new'' demo_fs = Inr s' \<and> tree s' [''new''] = Some 2 \<and> content demo_env s' 2 = [20, 30]"
proof -
  have l: "lookup demo_fs (strip_root ''/save'') = (Some 2, Some (0, ''save''))"
    "lookup demo_fs (strip_root ''/new'') = (None, Some (0, ''new''))"
    by (simp_all add: lookup_def demo_paths demo_kids demo_nodes)
  then obtain s' where s': "rename ''/save'' ''/new'' demo_fs = Inr s'"
    by (auto simp: rename_def Let_def)
  have ns: "\<not> strict_prefix (path_of ''/save'') (path_of ''/new'')" by (simp add: demo_paths)
  note M = rename_moves_the_subtree[OF demo_tree demo_store s', unfolded if_not_P[OF ns]]
  have "tree s' ([''new''] @ []) = tree demo_fs ([''save''] @ [])"
    using M unfolding demo_paths by blast
  then show ?thesis using M s' by (simp add: demo_look demo_content)
qed

text \<open>What the check that is missing from \<open>rename\<close> lets happen: a directory moved to a
  path below itself is accepted, and everything in it is out of reach from then on.\<close>

lemma rename_below_itself_loses_the_subtree:
  assumes "tree_ok s" "rename a b s = Inr s'" "strict_prefix (path_of a) (path_of b)"
  shows "\<forall>qs. tree s' qs = (if prefix (path_of a) qs then None else tree s qs)"
  by (rule rename_spec[OF assms(1,2)]) (simp add: assms(3) tree_erase_def)

definition demo_dir :: memfs where
  "demo_dir = memfs_mkdirs ''d'' (memfs_install 0)"

lemma rename_below_itself_loses_the_subtree_witness:
  "\<exists>s'. rename ''/d'' ''/d/x'' demo_dir = Inr s' \<and> tree demo_dir [''d''] \<noteq> None \<and> tree s' = (\<lambda>qs. if qs = [] then Some 0 else None)"
proof -
  have p: "split_path (strip_root ''/d'') = [''d'']" "split_path (strip_root ''/d/x'') = [''d'', ''x'']"
    "split_path ''d'' = [''d'']"
    by (simp_all add: strip_root_def memfs_root_def split_path_def is_slash_def keep_part_def)
  have n: "fs_nodes demo_dir i = (if i = 0 then blank_node\<lparr>fn_dir := True, fn_kids := [(''d'', 1)]\<rparr>
      else if i = 1 then blank_node\<lparr>fn_dir := True, fn_mtime := now_mtime (memfs_install 0)\<rparr> else blank_node)" for i
    by (simp add: demo_dir_def memfs_mkdirs_def mkdirs_def p memfs_install_def add_node_def new_node_def
        set_kid_def upd_node_def)
  have r: "fs_root demo_dir = 0"
    by (simp add: demo_dir_def memfs_mkdirs_def mkdirs_def p memfs_install_def add_node_def new_node_def
        set_kid_def upd_node_def)
  have ok: "tree_ok demo_dir"
    using fs_reach_inv[OF fs_reach.step[OF fs_reach.start[of demo_env 0] fs_step.mkdirs]]
    by (simp add: demo_dir_def fs_inv_def)
  have l: "lookup demo_dir (strip_root ''/d'') = (Some 1, Some (0, ''d''))"
    "lookup demo_dir (strip_root ''/d/x'') = (None, Some (1, ''x''))"
    by (simp_all add: lookup_def p n r)
  then obtain s' where s': "rename ''/d'' ''/d/x'' demo_dir = Inr s'" by (auto simp: rename_def Let_def)
  have sp: "strict_prefix (path_of ''/d'') (path_of ''/d/x'')" by (simp add: p)
  have t: "tree demo_dir qs = (case qs of [] \<Rightarrow> Some 0 | [x] \<Rightarrow> if x = ''d'' then Some 1 else None | _ \<Rightarrow> None)" for qs
    by (cases qs; cases "tl qs") (auto simp: tree_def r n split: list.split)
  have "tree s' = (\<lambda>qs. if qs = [] then Some 0 else None)"
    using rename_below_itself_loses_the_subtree[OF ok s' sp]
    by (auto simp: fun_eq_iff p t r split: list.split)
  then show ?thesis using s' t by simp
qed

text \<open>C16. Removing a file or an empty directory takes away exactly that path; a missing path, a file
  given to \<open>remove_dir\<close>, a directory given to \<open>remove\<close>, a directory with entries and the root
  are refused.\<close>

theorem removal_takes_one_path:
  assumes "tree_ok s"
  shows "(case remove path s of
      Inl e \<Rightarrow> e = Noent \<and> (case tree s (path_of path) of None \<Rightarrow> True | Some i \<Rightarrow> is_dir s i)
    | Inr s' \<Rightarrow> (\<exists>i. tree s (path_of path) = Some i \<and> \<not> is_dir s i)
        \<and> tree_ok s' \<and> tree s' = (tree s)(path_of path := None))
    \<and> (case remove_dir path s of
      Inl e \<Rightarrow> (case tree s (path_of path) of
          None \<Rightarrow> e = Noent
        | Some i \<Rightarrow> if is_dir s i \<and> path_of path \<noteq> [] then e = Notempty \<and> fn_kids (fs_nodes s i) \<noteq> []
            else e = Noent)
    | Inr s' \<Rightarrow> (\<exists>i. tree s (path_of path) = Some i \<and> is_dir s i \<and> fn_kids (fs_nodes s i) = [])
        \<and> path_of path \<noteq> []
        \<and> tree_ok s' \<and> tree s' = (tree s)(path_of path := None))"
proof -
  have leaf: "tree_erase p (tree s) = (tree s)(p := None)" if "tree s p = Some i" "fn_kids (fs_nodes s i) = []" for p i
  proof
    fix qs
    show "tree_erase p (tree s) qs = ((tree s)(p := None)) qs"
    proof (cases "prefix p qs \<and> qs \<noteq> p")
      case True
      then obtain zs where "qs = p @ zs" "zs \<noteq> []" by (auto simp: prefix_def)
      then obtain x rest where "qs = p @ x # rest" by (cases zs) auto
      then show ?thesis using that by (simp add: tree_erase_def tree_append)
    next
      case False
      then show ?thesis by (auto simp: tree_erase_def)
    qed
  qed
  have nokids: "fn_kids (fs_nodes s i) = []" if "\<not> is_dir s i" for i
  proof (rule ccontr)
    assume "fn_kids (fs_nodes s i) \<noteq> []"
    then obtain p c m where "fn_kids (fs_nodes s i) = (p, c) # m" by (cases "fn_kids (fs_nodes s i)") auto
    then have "kid s i p = Some c" by simp
    from kid_okD(3)[OF assms this] that show False by simp
  qed
  obtain r w where l: "lookup s (strip_root path) = (r, w)" by fastforce
  note L = lookup_cases[OF assms l]
  have place: "w \<noteq> None" if rn: "r \<noteq> None" and ne: "path_of path \<noteq> []"
  proof -
    obtain ps p where q: "path_of path = ps @ [p]" using ne by (cases "path_of path" rule: rev_cases) auto
    then obtain i d where i: "tree s ps = Some d" "kid s d p = Some i"
      using rn L(1) by (auto simp: tree_snoc bind_eq_Some_conv)
    show ?thesis using L(2) q i kid_okD(3)[OF assms i(2)] by simp
  qed
  have root: "path_of path = [] \<Longrightarrow> w = None \<and> r = Some (fs_root s) \<and> is_dir s (fs_root s)"
    using L tree_okD(1)[OF assms] by simp
  have r1: "case remove path s of
      Inl e \<Rightarrow> e = Noent \<and> (case tree s (path_of path) of None \<Rightarrow> True | Some i \<Rightarrow> is_dir s i)
    | Inr s' \<Rightarrow> (\<exists>i. tree s (path_of path) = Some i \<and> \<not> is_dir s i)
        \<and> tree_ok s' \<and> tree s' = (tree s)(path_of path := None)"
  proof (cases "remove path s")
    case (Inl e)
    then show ?thesis using l L(1)[symmetric] place root
      by (cases "path_of path = []"; cases r; cases w) (auto simp: remove_def split: if_splits)
  next
    case (Inr s')
    have "(\<exists>i. tree s (path_of path) = Some i \<and> \<not> is_dir s i)
        \<and> tree_ok s' \<and> tree s' = (tree s)(path_of path := None)"
      by (rule remove_spec[OF assms Inr]) (use leaf nokids in simp)
    then show ?thesis using Inr by simp
  qed
  have r2: "case remove_dir path s of
      Inl e \<Rightarrow> (case tree s (path_of path) of
          None \<Rightarrow> e = Noent
        | Some i \<Rightarrow> if is_dir s i \<and> path_of path \<noteq> [] then e = Notempty \<and> fn_kids (fs_nodes s i) \<noteq> []
            else e = Noent)
    | Inr s' \<Rightarrow> (\<exists>i. tree s (path_of path) = Some i \<and> is_dir s i \<and> fn_kids (fs_nodes s i) = [])
        \<and> path_of path \<noteq> []
        \<and> tree_ok s' \<and> tree s' = (tree s)(path_of path := None)"
  proof (cases "remove_dir path s")
    case (Inl e)
    then show ?thesis using l L(1)[symmetric] place root
      by (cases "path_of path = []"; cases r; cases w) (auto simp: remove_dir_def split: if_splits)
  next
    case (Inr s')
    have "(\<exists>i. tree s (path_of path) = Some i \<and> is_dir s i \<and> fn_kids (fs_nodes s i) = [])
        \<and> path_of path \<noteq> []
        \<and> tree_ok s' \<and> tree s' = (tree s)(path_of path := None)"
      by (rule remove_dir_spec[OF assms Inr]) (use leaf in simp)
    then show ?thesis using Inr by simp
  qed
  from r1 r2 show ?thesis by blast
qed

theorem removal_takes_one_path_witness:
  "\<exists>s'. remove ''/save'' demo_fs = Inr s' \<and> tree s' [''save''] = None \<and> tree s' [''disc''] = Some 1"
proof -
  have "lookup demo_fs (strip_root ''/save'') = (Some 2, Some (0, ''save''))"
    by (simp add: lookup_def demo_paths demo_kids demo_nodes)
  then have "remove ''/save'' demo_fs = Inr (drop_kid 0 ''save'' demo_fs)"
    by (simp add: remove_def demo_nodes demo_save_def)
  then show ?thesis
    using removal_takes_one_path[OF demo_tree, of "''/save''"] by (simp add: demo_paths demo_look)
qed

end
