(* ===== verification/MemfsList.thy ===== *)
theory MemfsList
  imports MemfsNames
begin

text \<open>
  Making directories and files from the driver, listing a directory, and the traversal of
  the save-data export, which ends and lists every file it should.
\<close>

text \<open>C17. \<open>mkdirs\<close> makes the whole path unless a file stands in its way: then every prefix of the path
  is a directory. Nothing that existed moves, and no path outside the one asked for appears.\<close>

theorem mkdirs_makes_the_path:
  assumes "tree_ok s" "store_ok env s" "mkdirs rel s = (r, s')"
  shows "(r = None \<longleftrightarrow> (\<exists>qs n. prefix qs (split_path rel) \<and> tree s qs = Some n \<and> \<not> is_dir s n))
    \<and> (\<forall>d. r = Some d \<longrightarrow> tree s' (split_path rel) = Some d
        \<and> (\<forall>qs. prefix qs (split_path rel) \<longrightarrow> (\<exists>n. tree s' qs = Some n \<and> is_dir s' n)))
    \<and> (\<forall>qs. tree s qs \<noteq> None \<or> \<not> prefix qs (split_path rel) \<longrightarrow> tree s' qs = tree s qs)
    \<and> (\<forall>i < fs_next s. content env s' i = content env s i)"
proof -
  note M = mkdirs_spec[OF assms(1,3)]
  have ok': "tree_ok s'" using M(1) by (simp add: dirs_made_def)
  have pre: "\<exists>n. tree s' qs = Some n \<and> is_dir s' n" if r: "r = Some d" and q: "prefix qs (split_path rel)" for d qs
  proof -
    have d: "tree s' (split_path rel) = Some d" "is_dir s' d" using M(3)[OF r] by auto
    obtain zs where z: "split_path rel = qs @ zs" using q by (auto simp: prefix_def)
    then obtain n where n: "tree s' qs = Some n" "walk s' zs n = Some d"
      using d(1) by (auto simp: tree_def walk_append bind_eq_Some_conv)
    show ?thesis
    proof (cases zs)
      case Nil
      then show ?thesis using n d by auto
    next
      case (Cons p ps)
      then obtain c where "kid s' n p = Some c" using n(2) by (auto split: option.splits)
      then show ?thesis using n(1) kid_okD(3)[OF ok'] by auto
    qed
  qed
  have c: "\<forall>i < fs_next s. content env s' i = content env s i"
    using mkdirs_loop_store[OF assms(2)] assms(3) by (auto simp: mkdirs_def)
  show ?thesis using M(1,2) M(3) pre c by (auto simp: dirs_made_def blocked_def)
qed

theorem mkdirs_makes_the_path_witness:
  "\<exists>d s'. mkdirs ''a/b'' demo_fs = (Some d, s') \<and> tree s' [''a'', ''b''] = Some d \<and> tree s' [''save''] = Some 2"
proof -
  obtain r s' where m: "mkdirs ''a/b'' demo_fs = (r, s')" by fastforce
  note M = mkdirs_makes_the_path[OF demo_tree demo_store m, unfolded demo_paths]
  have "tree demo_fs qs = (if qs = [] then Some 0 else None)" if "prefix qs [''a'', ''b'']" for qs
    using that by (auto simp: prefix_Cons tree_def demo_nodes demo_kids)
  then have "r \<noteq> None" using M by (auto simp: demo_nodes)
  moreover have "\<not> prefix [''save''] [''a'', ''b'']" by simp
  ultimately show ?thesis using M m demo_look(1) by auto
qed

text \<open>C18. What the driver puts in a file is what the file holds: after \<open>memfs_put\<close> the path leads to a
  fresh file with exactly those bytes. Every path that is not at or below it, and is not a
  directory that had to be made for it, leads where it did (or nowhere, as before), and every
  file that was there holds what it held.\<close>

theorem put_then_look:
  assumes "tree_ok s" "store_ok env s" "memfs_put rel data s = Some s'"
  shows "(\<exists>n \<ge> fs_next s. tree s' (split_path rel) = Some n \<and> fst (lookup s' rel) = Some n
      \<and> \<not> is_dir s' n \<and> content env s' n = data)
    \<and> (\<forall>qs. \<not> prefix (split_path rel) qs \<and> (tree s qs \<noteq> None \<or> \<not> prefix qs (split_path rel))
        \<longrightarrow> tree s' qs = tree s qs)
    \<and> (\<forall>i < fs_next s. is_dir s' i = is_dir s i \<and> content env s' i = content env s i)"
proof -
  have inv: "fs_inv env s" using assms(1,2) by (simp add: fs_inv_def)
  note P = put_paths[OF inv assms(3)]
  have "tree s' (split_path rel) = fst (lookup s' rel)"
    using lookup_node[OF fs_invD(1)[OF put_inv[OF inv assms(3)]], of rel] by simp
  then show ?thesis using P(1) put_spec(1,2)[OF inv assms(3)] P(2,3) by auto
qed

theorem put_then_look_witness:
  "\<exists>n s'. memfs_put ''new'' [1, 2] demo_fs = Some s' \<and> fst (lookup s' ''new'') = Some n \<and> content demo_env s' n = [1, 2]"
proof -
  have "split_path ''new'' = [''new'']" "split_path [] = []"
    by (simp_all add: split_path_def is_slash_def keep_part_def)
  then obtain s' where "memfs_put ''new'' [1, 2] demo_fs = Some s'"
    by (auto simp: memfs_put_def dir_string_def mkdirs_def)
  then show ?thesis using put_then_look[OF demo_tree demo_store] by blast
qed

text \<open>C19. A directory lists \<open>"."\<close> and \<open>".."\<close> first, even when it is empty, then exactly its entries,
  each once, in the order of their names.\<close>

theorem listing_is_dots_then_names:
  assumes "tree_ok s" "open_dir path s = Inr d"
  shows "\<exists>n names. tree s (path_of path) = Some n \<and> md_at d = 0
    \<and> map fst (md_entries d) = ''.'' # ''..'' # names \<and> sorted names \<and> distinct names
    \<and> set names = {p. tree s (path_of path @ [p]) \<noteq> None}"
proof -
  obtain n where n: "tree s (path_of path) = Some n" and d: "d = \<lparr>md_entries = mem_dir_entries n s, md_at = 0\<rparr>"
    using assms(2) lookup_node[OF assms(1), of "strip_root path"]
    by (auto simp: open_dir_def split: option.splits if_splits)
  let ?names = "map fst (fn_kids (fs_nodes s n))"
  have ok: "om_ok (fn_kids (fs_nodes s n))" by (rule tree_okD(3)[OF assms(1)])
  have "map fst (md_entries d) = ''.'' # ''..'' # ?names"
    by (simp add: d mem_dir_entries_def comp_def split_beta)
  then show ?thesis using n kids.keys_sorted[OF ok] kids.set_keys[OF ok]
    by (intro exI[of _ n] exI[of _ ?names]) (simp add: d tree_snoc)
qed

theorem listing_is_dots_then_names_witness:
  "\<exists>d. open_dir ''/'' demo_fs = Inr d \<and> take 2 (map fst (md_entries d)) = [''.'', ''..'']"
proof -
  have "lookup demo_fs (strip_root ''/'') = (Some 0, None)" by (simp add: lookup_def demo_paths demo_nodes)
  then obtain d where d: "open_dir ''/'' demo_fs = Inr d" by (auto simp: open_dir_def demo_nodes)
  show ?thesis using listing_is_dots_then_names[OF demo_tree d] d by auto
qed

section \<open>The traversal of the export\<close>

definition exported :: "memfs \<Rightarrow> nat \<Rightarrow> bool" where
  "exported s c \<longleftrightarrow> \<not> is_dir s c \<and> \<not> read_only (fs_nodes s c) \<and> fn_mirror (fs_nodes s c) = None"

definition below :: "memfs \<Rightarrow> nat \<times> string \<Rightarrow> (string \<times> bytes) set" where
  "below s f = (case f of (n, pre) \<Rightarrow>
     {(pre @ concat (map (\<lambda>p. p @ ''/'') ps) @ x, fn_data (fs_nodes s c)) | ps x c.
        walk s (ps @ [x]) n = Some c \<and> exported s c})"

lemma below_step:
  assumes "tree_ok s"
  shows "below s (n, pre) = set (concat (map (list_entry s pre) (fn_kids (fs_nodes s n))))
    \<union> (\<Union>(name, c) \<in> {k \<in> set (fn_kids (fs_nodes s n)). is_dir s (snd k)}. below s (c, pre @ name @ ''/''))"
  (is "?L = ?A \<union> ?B")
proof -
  have mem: "(p, c) \<in> set (fn_kids (fs_nodes s n)) \<longleftrightarrow> kid s n p = Some c" for p c
    by (rule om_get_mem[OF tree_okD(3)[OF assms]])
  have A: "?A = {(pre @ x, fn_data (fs_nodes s c)) | x c. kid s n x = Some c \<and> exported s c}"
  proof -
    have "?A = (\<Union>(x, c) \<in> set (fn_kids (fs_nodes s n)). {e. e = (pre @ x, fn_data (fs_nodes s c)) \<and> exported s c})"
      by (auto simp: list_entry_def exported_def split: if_splits)
    then show ?thesis by (fastforce simp flip: mem)
  qed
  have B: "?B = {(pre @ concat (map (\<lambda>p. p @ ''/'') (name # ps)) @ x, fn_data (fs_nodes s c)) | name ps x c.
      walk s ((name # ps) @ [x]) n = Some c \<and> exported s c}"
  proof -
    have dir: "is_dir s d" if "walk s (ps @ [x]) d = Some c" for ps x d c
      using that kid_okD(3)[OF assms] by (cases ps) (auto split: option.splits)
    show ?thesis (is "_ = ?C")
    proof
      show "?B \<subseteq> ?C" by (fastforce simp: below_def mem)
      show "?C \<subseteq> ?B"
      proof
        fix e assume "e \<in> ?C"
        then obtain name ps x c d where e: "e = (pre @ concat (map (\<lambda>p. p @ ''/'') (name # ps)) @ x, fn_data (fs_nodes s c))"
          "kid s n name = Some d" "walk s (ps @ [x]) d = Some c" "exported s c"
          by (auto split: option.splits)
        then have "e \<in> below s (d, pre @ name @ ''/'')" by (auto simp: below_def)
        moreover have "(name, d) \<in> set (fn_kids (fs_nodes s n))" "is_dir s d" using e(2) dir[OF e(3)] by (simp_all add: mem)
        ultimately show "e \<in> ?B" by force
      qed
    qed
  qed
  have "?L = {(pre @ x, fn_data (fs_nodes s c)) | x c. kid s n x = Some c \<and> exported s c}
     \<union> {(pre @ concat (map (\<lambda>p. p @ ''/'') (name # ps)) @ x, fn_data (fs_nodes s c)) | name ps x c.
        walk s ((name # ps) @ [x]) n = Some c \<and> exported s c}" (is "_ = ?D \<union> ?C")
  proof
    show "?L \<subseteq> ?D \<union> ?C"
    proof
      fix e assume "e \<in> ?L"
      then obtain ps x c where e: "e = (pre @ concat (map (\<lambda>p. p @ ''/'') ps) @ x, fn_data (fs_nodes s c))"
        "walk s (ps @ [x]) n = Some c" "exported s c" by (auto simp: below_def)
      show "e \<in> ?D \<union> ?C"
      proof (cases ps)
        case Nil
        then show ?thesis using e by (auto split: option.splits)
      next
        case (Cons name qs)
        then show ?thesis using e by blast
      qed
    qed
    show "?D \<union> ?C \<subseteq> ?L"
    proof
      fix e assume "e \<in> ?D \<union> ?C"
      then show "e \<in> ?L"
      proof
        assume "e \<in> ?D"
        then obtain x c where "e = (pre @ concat (map (\<lambda>p. p @ ''/'') []) @ x, fn_data (fs_nodes s c))"
          "walk s ([] @ [x]) n = Some c" "exported s c" by auto
        then show ?thesis unfolding below_def by blast
      next
        assume "e \<in> ?C"
        then show ?thesis unfolding below_def by blast
      qed
    qed
  qed
  then show ?thesis unfolding A B .
qed

lemma list_loop_lists:
  assumes "tree_ok s"
  shows "list_loop fuel s fs out = Some r \<Longrightarrow> set r = set out \<union> (\<Union>f \<in> set fs. below s f)"
  using assms
proof (induction fuel s fs out rule: list_loop.induct)
  case (3 fuel s n pre fs out)
  let ?ks = "fn_kids (fs_nodes s n)"
  let ?fs = "map (\<lambda>(name, c). (c, pre @ name @ ''/'')) (filter (\<lambda>(name, c). is_dir s c) ?ks) @ fs"
  have a: "set r = set (out @ concat (map (list_entry s pre) ?ks)) \<union> (\<Union>f \<in> set ?fs. below s f)"
    using 3 by (simp add: Let_def)
  have b: "(\<Union>f \<in> set ?fs. below s f) =
      (\<Union>(name, c) \<in> {k \<in> set ?ks. is_dir s (snd k)}. below s (c, pre @ name @ ''/'')) \<union> (\<Union>f \<in> set fs. below s f)"
    by auto
  show ?case
    unfolding a[unfolded b]
    by (simp only: list.set(2) UN_insert below_step[OF 3(3), of n pre] set_append Un_assoc)
qed auto

text \<open>The stack never holds a directory twice, nor one that was taken from it before: each
  has been put there by its only parent.\<close>

definition stack_ok :: "memfs \<Rightarrow> nat \<Rightarrow> string list \<Rightarrow> nat set \<Rightarrow> nat list \<Rightarrow> bool" where
  "stack_ok s start p0 V ids \<longleftrightarrow> tree s p0 = Some start \<and> distinct ids \<and> V \<inter> set ids = {} \<and> V \<subseteq> {..<fs_next s}
     \<and> (\<forall>v \<in> V \<union> set ids. (\<exists>ps. tree s (p0 @ ps) = Some v) \<and> (v = start \<or> (\<exists>i \<in> V. \<exists>p. kid s i p = Some v)))"

lemma stack_ok_push:
  assumes ok: "tree_ok s" and st: "stack_ok s start p0 V (n # ids)"
  shows "stack_ok s start p0 (insert n V)
    (map snd (filter (\<lambda>(name, c). P c) (fn_kids (fs_nodes s n))) @ ids)"
proof -
  let ?ks = "filter (\<lambda>(name, c). P c) (fn_kids (fs_nodes s n))"
  note S = st[unfolded stack_ok_def]
  have oks: "om_ok (fn_kids (fs_nodes s n))" by (rule tree_okD(3)[OF ok])
  have kidI: "\<exists>p. kid s n p = Some c" if "c \<in> snd ` set ?ks" for c
    using that om_get_mem[OF oks] by fastforce
  obtain pn where pn: "tree s (p0 @ pn) = Some n" using S by auto
  have new: "c \<notin> V \<union> set (n # ids)" if c: "c \<in> snd ` set ?ks" for c
  proof
    assume cV: "c \<in> V \<union> set (n # ids)"
    obtain p where p: "kid s n p = Some c" using kidI[OF c] by blast
    have "c \<noteq> start"
    proof
      assume "c = start"
      then have "tree s (p0 @ pn @ [p]) = Some start" using pn p tree_snoc[of s "p0 @ pn" p] by simp
      from tree_unique[OF ok this, of p0] show False using S by simp
    qed
    then obtain i q where i: "i \<in> V" "kid s i q = Some c" using S cV by auto
    then have "i = n" using kid_okD(5)[OF ok p, where j = i and q = q] by simp
    then show False using i(1) S by simp
  qed
  have dist: "distinct (map snd ?ks)"
  proof -
    have "distinct ?ks" using oks by (simp add: om_ok_def strict_sorted_iff distinct_map)
    moreover have "inj_on snd (set ?ks)"
    proof (rule inj_onI)
      fix a b assume a: "a \<in> set ?ks" "b \<in> set ?ks" "snd a = snd b"
      then have "kid s n (fst a) = Some (snd a)" "kid s n (fst b) = Some (snd a)"
        using om_get_mem[OF oks] by (metis filter_is_subset prod.collapse subsetD)+
      then have "fst a = fst b" using kid_okD(5)[OF ok, where i = n and j = n] by blast
      then show "a = b" using a(3) by (simp add: prod_eq_iff)
    qed
    ultimately show ?thesis by (simp add: distinct_map)
  qed
  have kids: "(\<exists>ps. tree s (p0 @ ps) = Some c) \<and> (\<exists>i \<in> insert n V. \<exists>p. kid s i p = Some c)"
    if c: "c \<in> snd ` set ?ks" for c
  proof -
    obtain p where p: "kid s n p = Some c" using kidI[OF c] by blast
    then have "tree s (p0 @ (pn @ [p])) = Some c" using pn tree_snoc[of s "p0 @ pn" p] by simp
    then show ?thesis using p by blast
  qed
  have "n < fs_next s" by (rule tree_next[OF ok pn])
  then show ?thesis unfolding stack_ok_def
    using S dist new kids by (auto simp: stack_ok_def)
qed

lemma stack_ok_card:
  assumes "tree_ok s" "stack_ok s start p0 V (n # ids)"
  shows "card (insert n V) = Suc (card V)" "card V < fs_next s"
proof -
  have V: "V \<subseteq> {..<fs_next s}" "n \<notin> V" and n: "\<exists>ps. tree s (p0 @ ps) = Some n"
    using assms(2) by (auto simp: stack_ok_def)
  have f: "finite V" by (rule finite_subset[OF V(1)]) simp
  show "card (insert n V) = Suc (card V)" using f V(2) by simp
  have "n < fs_next s" using n tree_next[OF assms(1)] by blast
  then have "V \<subset> {..<fs_next s}" using V by blast
  then show "card V < fs_next s" using psubset_card_mono[of "{..<fs_next s}" V] by simp
qed

lemma list_loop_ends:
  assumes ok: "tree_ok s"
  shows "stack_ok s start p0 V (map fst fs) \<Longrightarrow> fs_next s \<le> fuel + card V \<Longrightarrow> list_loop fuel s fs out \<noteq> None"
  using ok
proof (induction fuel s fs out arbitrary: V rule: list_loop.induct)
  case (2 s f fs out)
  then show ?case using stack_ok_card(2)[OF 2(3), of start p0 V "fst f"] by simp
next
  case (3 fuel s n pre fs out)
  let ?ks = "filter (\<lambda>(name, c). is_dir s c) (fn_kids (fs_nodes s n))"
  have st: "stack_ok s start p0 V (n # map fst fs)" using 3(2) by simp
  have e: "map fst (map (\<lambda>(name, c). (c, pre @ name @ ''/'')) ?ks @ fs) = map snd ?ks @ map fst fs"
    by (simp add: comp_def split_beta)
  have "stack_ok s start p0 (insert n V) (map fst (map (\<lambda>(name, c). (c, pre @ name @ ''/'')) ?ks @ fs))"
    unfolding e by (rule stack_ok_push[OF 3(4) st])
  moreover have "fs_next s \<le> fuel + card (insert n V)" using 3(3) stack_ok_card(1)[OF 3(4) st] by simp
  ultimately show ?case using 3(1)[OF refl _ _ 3(4)] by (simp add: Let_def)
qed auto

text \<open>The count of the machine's bytes ends in the same way; it goes through every node.\<close>

lemma bytes_loop_ends:
  assumes ok: "tree_ok s"
  shows "stack_ok s start p0 V ids \<Longrightarrow> fs_next s \<le> fuel + card V \<Longrightarrow> bytes_loop fuel s ids acc \<noteq> None"
  using ok
proof (induction fuel s ids acc arbitrary: V rule: bytes_loop.induct)
  case (2 s n ns acc)
  then show ?case using stack_ok_card(2)[OF 2(3), of start p0 V n] by simp
next
  case (3 fuel s n ns acc)
  let ?ks = "fn_kids (fs_nodes s n)"
  have "stack_ok s start p0 (insert n V) (map snd ?ks @ ns)"
    using stack_ok_push[OF 3(4,2), where P = "\<lambda>_. True"] by (simp add: split_def)
  then have "stack_ok s start p0 (insert n V) (rev (map snd ?ks) @ ns)" by (simp add: stack_ok_def)
  moreover have "fs_next s \<le> fuel + card (insert n V)" using 3(3) stack_ok_card(1)[OF 3(4,2)] by simp
  ultimately show ?case using 3(1)[OF _ _ 3(4)] by simp
qed auto

lemma memfs_bytes_ends: "tree_ok s \<Longrightarrow> memfs_bytes s \<noteq> None"
proof -
  assume ok: "tree_ok s"
  have "stack_ok s (fs_root s) [] {} [fs_root s]"
    by (auto simp: stack_ok_def tree_def intro!: exI[of _ "[]"])
  then show ?thesis unfolding memfs_bytes_def using bytes_loop_ends[OF ok, of "fs_root s" "[]" "{}"] by simp
qed

text \<open>C20. The traversal behind the save-data export ends, however the tree is shaped, and lists
  exactly the machine's own files below the directory, each under its path and with its bytes:
  grafted files and mirrors are left out.\<close>

theorem export_lists_the_machines_files:
  assumes "tree_ok s" "fst (lookup s rel) = Some n" "is_dir s n"
  shows "\<exists>out. memfs_list rel s = Some out \<and>
    set out = {(concat (map (\<lambda>p. p @ ''/'') ps) @ x, fn_data (fs_nodes s c)) | ps x c.
      tree s (split_path rel @ ps @ [x]) = Some c \<and> \<not> is_dir s c \<and> \<not> read_only (fs_nodes s c)
      \<and> fn_mirror (fs_nodes s c) = None}"
proof -
  have n: "tree s (split_path rel) = Some n" using lookup_node[OF assms(1), of rel] assms(2) by simp
  have st: "stack_ok s n (split_path rel) {} (map fst [(n, [])])"
    using n by (auto simp: stack_ok_def intro!: exI[of _ "[]"])
  then obtain out where out: "list_loop (fs_next s) s [(n, [])] [] = Some out"
    using list_loop_ends[OF assms(1) st, of "fs_next s" "[]"] by auto
  have "set out = below s (n, [])" using list_loop_lists[OF assms(1) out] by simp
  moreover have "walk s (ps @ [x]) n = tree s (split_path rel @ ps @ [x])" for ps x
    using tree_append[OF n] by simp
  ultimately show ?thesis using out assms(2,3)
    by (intro exI[of _ out]) (simp add: memfs_list_def below_def exported_def)
qed

theorem export_lists_the_machines_files_witness:
  "\<exists>out. memfs_list [] demo_fs = Some out \<and> set out = {}"
proof -
  have "lookup demo_fs [] = (Some 0, None)" by (simp add: lookup_def demo_nodes)
  then obtain out where o: "memfs_list [] demo_fs = Some out"
    "set out = {(concat (map (\<lambda>p. p @ ''/'') ps) @ x, fn_data (fs_nodes demo_fs c)) | ps x c.
      tree demo_fs (split_path [] @ ps @ [x]) = Some c \<and> \<not> is_dir demo_fs c \<and> \<not> read_only (fs_nodes demo_fs c)
      \<and> fn_mirror (fs_nodes demo_fs c) = None}"
    using export_lists_the_machines_files[OF demo_tree, of "[]" 0] by (auto simp: demo_nodes)
  have "\<not> (\<not> read_only (fs_nodes demo_fs c) \<and> fn_mirror (fs_nodes demo_fs c) = None)"
    if "tree demo_fs (ps @ [x]) = Some c" for ps x c
  proof -
    have "c = 1 \<or> c = 2" using that by (auto simp: tree_snoc bind_eq_Some_conv demo_kids split: if_splits)
    then show ?thesis by (auto simp: demo_nodes demo_disc_def demo_save_def read_only_def)
  qed
  then have "set out = {}" unfolding o(2) by auto
  then show ?thesis using o(1) by blast
qed

end
