(* ===== verification/PageWindows.thy ===== *)
theory PageWindows
  imports Prelude
begin

text \<open>
  The page windows of \<open>waterbox/rpcs3-driver.cpp\<close>. The RSX reads guest memory through pages
  the texture cache has locked; such a page is opened for it, noted on a list, and put back
  to what the emulator believes it is before another thread runs. \<open>page_prot\<close> is the
  protection the operating system was last asked for (a page nobody asked for is open), so
  the two views a page has, the emulator's belief and the machine's, are both in the state.
  Page numbers are below 2 to the 20 wherever an array of the source is indexed.
\<close>

section \<open>State\<close>

text \<open>The emulator's protections: the three the driver names, and any other by its number.\<close>

datatype protection = Rw | Ro | No | OtherProt u8

definition PAGES :: nat where "PAGES = 2 ^ 20"
definition window_run :: nat where "window_run = 256"
definition WINDOW_ROOM :: nat where "WINDOW_ROOM = 16384"

record windows =
  s_page_belief :: "nat \<Rightarrow> protection option"
  s_noting :: bool
  s_window_pages :: "nat list"
  s_page_open :: "nat \<Rightarrow> bool"
  s_windows_opened :: u64
  hooked :: bool
  page_prot :: "nat \<Rightarrow> protection"

definition no_windows :: windows where
  "no_windows = \<lparr>s_page_belief = (\<lambda>_. None), s_noting = True, s_window_pages = [],
     s_page_open = (\<lambda>_. False), s_windows_opened = 0, hooked = False, page_prot = (\<lambda>_. Rw)\<rparr>"

text \<open>\<open>memset(&a[first], x, n)\<close>.\<close>

definition fill :: "nat \<Rightarrow> nat \<Rightarrow> 'a \<Rightarrow> (nat \<Rightarrow> 'a) \<Rightarrow> nat \<Rightarrow> 'a" where
  "fill first n x a = (\<lambda>p. if first \<le> p \<and> p < first + n then x else a p)"

lemma fill_apply [simp]: "fill first n x a p = (if first \<le> p \<and> p < first + n then x else a p)"
  by (simp add: fill_def)

section \<open>What the emulator asks for\<close>

text \<open>\<open>chimera_rpcs3_note_protect\<close>, called by the emulator's \<open>memory_protect\<close> with an offset from the
  guest's base (a pointer below it gives an offset past the 4 GiB, which is refused alike). The
  sums are taken on 64-bit words: a size of 0 at offset 0 wraps to the whole view.\<close>

definition note_protect :: "u64 \<Rightarrow> u64 \<Rightarrow> protection \<Rightarrow> windows \<Rightarrow> windows" where
  "note_protect off len prot s =
     (if \<not> s_noting s \<or> off \<ge> 0x100000000 then s
      else (let first = unat (off div 4096);
                end_page = unat (min ((off + len - 1) div 4096) (2 ^ 20 - 1))
            in s\<lparr>s_page_belief := fill first (end_page + 1 - first) (Some prot) (s_page_belief s),
                 s_page_open := (if s_window_pages s \<noteq> []
                                 then fill first (end_page + 1 - first) False (s_page_open s)
                                 else s_page_open s)\<rparr>))"

text \<open>The emulator's \<open>memory_protect\<close> on whole pages of the guest: the operating system is asked, and
  the note taken.\<close>

definition memory_protect :: "nat \<Rightarrow> nat \<Rightarrow> protection \<Rightarrow> windows \<Rightarrow> windows" where
  "memory_protect page count prot s =
     note_protect (of_nat page * 4096) (of_nat count * 4096) prot
       (s\<lparr>page_prot := fill page count prot (page_prot s)\<rparr>)"

section \<open>Windows\<close>

definition protect_pages :: "nat \<Rightarrow> nat \<Rightarrow> protection \<Rightarrow> windows \<Rightarrow> windows" where
  "protect_pages page count prot s =
     (memory_protect page count prot (s\<lparr>s_noting := False\<rparr>))\<lparr>s_noting := True\<rparr>"

definition believed :: "windows \<Rightarrow> nat \<Rightarrow> protection" where
  "believed s page = (case s_page_belief s page of None \<Rightarrow> Rw | Some p \<Rightarrow> p)"

text \<open>How many of the listed pages, \<open>n\<close> counted so far, follow \<open>first\<close> without a gap and with its belief.\<close>

fun run_from :: "(nat \<Rightarrow> protection option) \<Rightarrow> nat \<Rightarrow> nat \<Rightarrow> nat list \<Rightarrow> nat" where
  "run_from belief first n [] = n"
| "run_from belief first n (p # ps) =
     (if p = first + n \<and> belief (first + n) = belief first then run_from belief first (Suc n) ps else n)"

lemma run_from_ge: "n \<le> run_from belief first n ps"
  by (induction ps arbitrary: n) (auto intro: le_trans[OF le_SucI[OF order_refl]] simp: Suc_le_eq dest: Suc_leD)

function close_loop :: "nat list \<Rightarrow> windows \<Rightarrow> windows" where
  "close_loop [] s = s"
| "close_loop (first # ps) s =
     (let n = run_from (s_page_belief s) first 1 ps;
          s1 = protect_pages first n (believed s first) s
      in close_loop (drop (n - 1) ps) (s1\<lparr>s_page_open := fill first n False (s_page_open s1)\<rparr>))"
  by pat_completeness auto
termination
  by (relation "measure (\<lambda>(ps, s). length ps)") auto

declare close_loop.simps(2) [simp del]

definition close_windows :: "windows \<Rightarrow> windows" where
  "close_windows s = (close_loop (s_window_pages s) s)\<lparr>s_window_pages := []\<rparr>"

definition make_room :: "nat \<Rightarrow> windows \<Rightarrow> windows" where
  "make_room runs s =
     (if length (s_window_pages s) + runs * window_run > WINDOW_ROOM then close_windows s else s)"

text \<open>The loop of \<open>open_window\<close>: how many pages the run has, and the list with those not open yet on it.\<close>

function open_run :: "windows \<Rightarrow> nat \<Rightarrow> nat \<Rightarrow> nat list \<Rightarrow> nat \<times> nat list" where
  "open_run s page n pages =
     (if n < window_run \<and> page + n < PAGES \<and> s_page_belief s (page + n) = s_page_belief s page
         \<and> length pages < WINDOW_ROOM
      then open_run s page (Suc n)
             (if \<not> s_page_open s (page + n) then pages @ [page + n] else pages)
      else (n, pages))"
  by pat_completeness auto
termination
  by (relation "measure (\<lambda>(s, page, n, pages). window_run - n)") auto

declare open_run.simps [simp del]

definition open_window :: "nat \<Rightarrow> windows \<Rightarrow> windows" where
  "open_window page s =
     (let s1 = make_room 1 (s\<lparr>hooked := True\<rparr>);
          (n, pages) = open_run s1 page 0 (s_window_pages s1);
          s2 = protect_pages page n Rw (s1\<lparr>s_window_pages := pages\<rparr>)
      in s2\<lparr>s_page_open := fill page n True (s_page_open s2),
            s_windows_opened := s_windows_opened s2 + 1\<rparr>)"

text \<open>The loop of \<open>chimera_rpcs3_super_access\<close> over its pages.\<close>

definition open_if_locked :: "nat \<Rightarrow> windows \<Rightarrow> windows" where
  "open_if_locked page s =
     (if believed s page \<noteq> Rw \<and> \<not> s_page_open s page then open_window page s else s)"

definition super_access :: "u32 \<Rightarrow> u32 \<Rightarrow> windows \<Rightarrow> windows" where
  "super_access address len s =
     (if len = 0 then s
      else (let first = unat (address div 4096);
                end_page = unat ((ucast address + ucast len - 1 :: u64) div 4096)
            in fold open_if_locked [first..<min (end_page + 1) PAGES]
                 (make_room (end_page + 1 - first) s)))"

definition window_count :: "windows \<Rightarrow> u64" where
  "window_count s = s_windows_opened s"

section \<open>The probe\<close>

text \<open>\<open>chimera_rpcs3_window_probe\<close>. \<open>mem\<close> holds the bytes of the allocation that starts at page \<open>a\<close>.
  A read of a page that is neither open nor read-only is a fault nobody serves: \<open>None\<close>, and
  the run dies of it.\<close>

definition mark :: "nat \<Rightarrow> u8" where
  "mark i = of_nat (i * 7 + 1)"

definition read_byte :: "(nat \<Rightarrow> u8) \<Rightarrow> nat \<Rightarrow> windows \<Rightarrow> nat \<Rightarrow> u8 option" where
  "read_byte mem a s off = (if page_prot s (a + off div 4096) \<in> {Rw, Ro} then Some (mem off) else None)"

definition reads :: "(nat \<Rightarrow> u8) \<Rightarrow> nat \<Rightarrow> windows \<Rightarrow> nat \<Rightarrow> bool option" where
  "reads mem a s i = map_option (\<lambda>b. b = mark i) (read_byte mem a s (i * 4096))"

fun probe_loop :: "(nat \<Rightarrow> windows \<Rightarrow> windows) \<Rightarrow> (nat \<Rightarrow> u8) \<Rightarrow> nat \<Rightarrow> nat list \<Rightarrow> int \<Rightarrow> windows \<Rightarrow> (int \<times> windows) option" where
  "probe_loop get mem a [] good s = Some (good, s)"
| "probe_loop get mem a (i # is) good s =
     (let s1 = get i s in
      case reads mem a s1 i of
        None \<Rightarrow> None
      | Some r \<Rightarrow> probe_loop get mem a is (good + of_bool r) s1)"

definition page_addr :: "nat \<Rightarrow> u32" where
  "page_addr page = of_nat (page * 4096)"

definition marked :: "nat \<Rightarrow> (nat \<Rightarrow> u8) \<Rightarrow> nat \<Rightarrow> u8" where
  "marked pages mem0 = (\<lambda>off. if off mod 4096 = 0 \<and> off div 4096 < pages then mark (off div 4096) else mem0 off)"

text \<open>The fourth part of the probe: eight bytes over the boundary of two pages locked differently, with
  room on the list for one run and a bit.\<close>

definition probe_boundary :: "(nat \<Rightarrow> u8) \<Rightarrow> nat \<Rightarrow> nat \<Rightarrow> windows \<Rightarrow> (bool \<times> windows) option" where
  "probe_boundary mem a pages s =
     (let s1 = memory_protect (a + 1) 1 Ro (memory_protect a pages No (close_windows s));
          s2 = fold (\<lambda>k. super_access (page_addr (a + (2 + k * 256))) 8)
                 [0..<(WINDOW_ROOM - 256 + 255) div 256] s1;
          s3 = super_access (page_addr a + 4092) 8 s2
      in case (read_byte mem a s3 4092, reads mem a s3 1) of
           (Some b, Some r) \<Rightarrow> Some (b = 0 \<and> r, close_windows (memory_protect a pages Rw s3))
         | (Some b, None) \<Rightarrow> if b = 0 then None else Some (False, close_windows (memory_protect a pages Rw s3))
         | (None, _) \<Rightarrow> None)"

text \<open>\<open>alloc\<close> is \<open>vm::alloc\<close>: the first page of the memory it gives, its bytes, and the pages as it
  leaves them. Giving it back at the end is left out.\<close>

definition window_probe ::
  "bool \<Rightarrow> nat \<Rightarrow> (windows \<Rightarrow> (nat \<times> (nat \<Rightarrow> u8) \<times> windows) option) \<Rightarrow> windows \<Rightarrow> (int \<times> windows) option" where
  "window_probe booted pages alloc s =
     (if \<not> booted \<or> pages < WINDOW_ROOM + 2 then Some (-1, s)
      else case alloc s of
        None \<Rightarrow> Some (-2, s)
      | Some (a, mem0, s0) \<Rightarrow>
          if list_ex (\<lambda>i. page_prot s0 (a + i) \<noteq> Rw) [0..<pages] then None
          else
          (let mem = marked pages mem0 in
           case probe_loop (\<lambda>i t. if \<not> s_page_open t (a + i) then open_window (a + i) t else t)
                  mem a [0..<pages] 0 (memory_protect a pages No s0) of
             None \<Rightarrow> None
           | Some (g1, s1) \<Rightarrow>
               (case probe_loop (\<lambda>i. super_access (page_addr (a + i)) 8) mem a [0..<pages] g1 (close_windows s1) of
                  None \<Rightarrow> None
                | Some (g2, s2) \<Rightarrow>
                    (let s3 = super_access (page_addr (a + (pages - 1))) 8
                                (memory_protect (a + (pages - 1)) 1 No s2)
                     in case reads mem a s3 (pages - 1) of
                          None \<Rightarrow> None
                        | Some r \<Rightarrow>
                            map_option (\<lambda>(b, s4). (g2 + of_bool r + of_bool b, s4))
                              (probe_boundary mem a pages s3)))))"

end
