(* ===== verification/WindowsProps.thy ===== *)
theory WindowsProps
  imports PageWindows VschedOps
begin

text \<open>
  What the page windows keep: the machine's view of a page is the emulator's belief, except
  for the pages a window holds open, and those are on the list of pages to put back.
\<close>

section \<open>The operations on the record\<close>

lemma protect_pages_eq: "protect_pages page n prot s = s\<lparr>s_noting := True, page_prot := fill page n prot (page_prot s)\<rparr>"
  by (simp add: protect_pages_def memory_protect_def note_protect_def)

lemma unat_page: "a < 2 ^ 20 \<Longrightarrow> unat (of_nat a * 4096 :: u64) = a * 4096"
  by (subst unat_mult_lem[THEN iffD1]) (simp_all add: unat_of_nat take_bit_nat_eq_self)

lemma memory_protect_eq:
  assumes "page + n \<le> PAGES" "0 < n" "s_noting s"
  shows "memory_protect page n prot s = s\<lparr>page_prot := fill page n prot (page_prot s),
      s_page_belief := fill page n (Some prot) (s_page_belief s),
      s_page_open := (if s_window_pages s \<noteq> [] then fill page n False (s_page_open s) else s_page_open s)\<rparr>"
proof -
  let ?off = "of_nat page * 4096 :: u64" and ?len = "of_nat n * 4096 :: u64"
  have P: "page < 2 ^ 20" "page + n \<le> 2 ^ 20" using assms by (simp_all add: PAGES_def)
  have o: "?off = of_nat (page * 4096)" "?off + ?len - 1 = of_nat (page * 4096 + n * 4096 - 1)"
    using assms(2) by (simp_all add: of_nat_diff)
  have u: "unat ?off = page * 4096" using P by (rule_tac unat_page) simp
  have u2: "unat (?off + ?len - 1) = page * 4096 + n * 4096 - 1"
    unfolding o(2) using P by (simp add: unat_of_nat take_bit_nat_eq_self)
  have d: "unat (?off div 4096) = page" using u by (simp add: unat_div)
  have "(page * 4096 + n * 4096 - 1) div 4096 = page + n - 1"
  proof -
    have "page * 4096 + n * 4096 - 1 = (page + n - 1) * 4096 + 4095" using assms(2) by (simp add: algebra_simps)
    then show ?thesis by simp
  qed
  then have e: "unat ((?off + ?len - 1) div 4096) = page + n - 1" using u2 by (simp add: unat_div)
  then have "(?off + ?len - 1) div 4096 \<le> 2 ^ 20 - 1" using P by (simp add: word_le_nat_alt)
  then have m: "unat (min ((?off + ?len - 1) div 4096) (2 ^ 20 - 1)) = page + n - 1" using e by (simp add: min_def)
  have lt: "\<not> ?off \<ge> 0x100000000" using u P by (simp add: word_le_nat_alt)
  show ?thesis
    unfolding memory_protect_def note_protect_def using assms(2,3) lt d m
    by (simp add: Let_def)
qed

definition win_ok :: "windows \<Rightarrow> bool" where
  "win_ok s \<longleftrightarrow> s_noting s \<and> length (s_window_pages s) \<le> WINDOW_ROOM \<and> (\<forall>p \<in> set (s_window_pages s). p < PAGES)
     \<and> (\<forall>p. s_page_open s p \<longrightarrow> p \<in> set (s_window_pages s))
     \<and> (\<forall>p. page_prot s p = (if s_page_open s p then Rw else believed s p))
     \<and> (s_window_pages s \<noteq> [] \<longrightarrow> hooked s)"

lemma win_okD:
  assumes "win_ok s"
  shows "s_noting s" "length (s_window_pages s) \<le> WINDOW_ROOM" "p \<in> set (s_window_pages s) \<Longrightarrow> p < PAGES"
    "s_page_open s p \<Longrightarrow> p \<in> set (s_window_pages s)"
    "page_prot s p = (if s_page_open s p then Rw else believed s p)" "s_window_pages s \<noteq> [] \<Longrightarrow> hooked s"
  using assms by (auto simp: win_ok_def)

lemma believed_upd [simp]:
  "believed (s\<lparr>s_noting := n\<rparr>) = believed s" "believed (s\<lparr>s_window_pages := ps\<rparr>) = believed s"
  "believed (s\<lparr>s_page_open := op\<rparr>) = believed s" "believed (s\<lparr>page_prot := pp\<rparr>) = believed s"
  "believed (s\<lparr>hooked := h\<rparr>) = believed s" "believed (s\<lparr>s_windows_opened := w\<rparr>) = believed s"
  by (auto simp: believed_def fun_eq_iff)

lemma memory_protect_ok:
  assumes "win_ok s" "page + n \<le> PAGES" "0 < n"
  shows "win_ok (memory_protect page n prot s)"
    "page_prot (memory_protect page n prot s) = fill page n prot (page_prot s)"
    "\<not> (page \<le> p \<and> p < page + n) \<Longrightarrow> believed (memory_protect page n prot s) p = believed s p"
    "page \<le> p \<Longrightarrow> p < page + n \<Longrightarrow> believed (memory_protect page n prot s) p = prot"
proof -
  note e = memory_protect_eq[OF assms(2,3) win_okD(1)[OF assms(1)], of prot]
  have nil: "s_window_pages s = [] \<Longrightarrow> \<not> s_page_open s q" for q using win_okD(4)[OF assms(1), of q] by auto
  show "page_prot (memory_protect page n prot s) = fill page n prot (page_prot s)" by (simp add: e)
  have b: "believed (memory_protect page n prot s) q = (if page \<le> q \<and> q < page + n then prot else believed s q)" for q
    by (auto simp: e believed_def)
  show "\<not> (page \<le> p \<and> p < page + n) \<Longrightarrow> believed (memory_protect page n prot s) p = believed s p"
    "page \<le> p \<Longrightarrow> p < page + n \<Longrightarrow> believed (memory_protect page n prot s) p = prot" using b by auto
  show "win_ok (memory_protect page n prot s)"
    unfolding win_ok_def b using assms(1) nil by (auto simp: e win_ok_def)
qed

section \<open>Closing\<close>

lemma run_from_spec:
  "run_from b f n ps = m \<Longrightarrow> n \<le> m \<and> take (m - n) ps = [f + n..<f + m] \<and> (\<forall>k. n \<le> k \<longrightarrow> k < m \<longrightarrow> b (f + k) = b f)"
proof (induction ps arbitrary: n)
  case (Cons p ps)
  show ?case
  proof (cases "p = f + n \<and> b (f + n) = b f")
    case True
    then have r: "run_from b f (Suc n) ps = m" using Cons.prems by simp
    from Cons.IH[OF r] have IH: "Suc n \<le> m" "take (m - Suc n) ps = [f + Suc n..<f + m]"
      "\<And>k. Suc n \<le> k \<Longrightarrow> k < m \<Longrightarrow> b (f + k) = b f" by auto
    have "take (m - n) (p # ps) = [f + n..<f + m]"
      using IH(1,2) True by (cases "m - n") (simp_all add: upt_conv_Cons Suc_diff_le[symmetric] diff_Suc split: nat.split)
    then show ?thesis using IH True by (metis Suc_le_eq le_eq_less_or_eq less_imp_le_nat)
  next
    case False
    then show ?thesis using Cons.prems by auto
  qed
qed auto

lemma close_loop_spec:
  "s_page_belief (close_loop ps s) = s_page_belief s \<and> s_window_pages (close_loop ps s) = s_window_pages s
   \<and> hooked (close_loop ps s) = hooked s \<and> s_windows_opened (close_loop ps s) = s_windows_opened s
   \<and> (s_noting s \<longrightarrow> s_noting (close_loop ps s))
   \<and> s_page_open (close_loop ps s) = (\<lambda>p. s_page_open s p \<and> p \<notin> set ps)
   \<and> page_prot (close_loop ps s) = (\<lambda>p. if p \<in> set ps then believed s p else page_prot s p)"
proof (induction ps s rule: close_loop.induct)
  case (2 f ps s)
  define n where "n = run_from (s_page_belief s) f 1 ps"
  define s1 where "s1 = protect_pages f n (believed s f) s"
  define s2 where "s2 = s1\<lparr>s_page_open := fill f n False (s_page_open s1)\<rparr>"
  have r: "1 \<le> n" "take (n - 1) ps = [f + 1..<f + n]" "\<And>k. 1 \<le> k \<Longrightarrow> k < n \<Longrightarrow> s_page_belief s (f + k) = s_page_belief s f"
    using run_from_spec[OF n_def[symmetric]] by auto
  have st: "set ps = {f + 1..<f + n} \<union> set (drop (n - 1) ps)"
    by (subst append_take_drop_id[of "n - 1" ps, symmetric]) (simp only: set_append r(2) set_upt)
  have mem: "p \<in> set (f # ps) \<longleftrightarrow> (f \<le> p \<and> p < f + n) \<or> p \<in> set (drop (n - 1) ps)" for p
    using st r(1) by auto
  have bel: "f \<le> p \<Longrightarrow> p < f + n \<Longrightarrow> believed s p = believed s f" for p
    using r(3)[of "p - f"] by (cases "p = f") (auto simp: believed_def)
  have e: "close_loop (f # ps) s = close_loop (drop (n - 1) ps) s2"
    by (simp add: close_loop.simps(2) Let_def n_def s1_def s2_def)
  have b2: "believed s2 = believed s" by (simp add: s2_def s1_def protect_pages_eq)
  have i: "s_page_belief s2 = s_page_belief s" "s_window_pages s2 = s_window_pages s" "hooked s2 = hooked s"
    "s_windows_opened s2 = s_windows_opened s" "s_noting s2" "s_page_open s2 = fill f n False (s_page_open s)"
    "page_prot s2 = fill f n (believed s f) (page_prot s)"
    by (simp_all add: s2_def s1_def protect_pages_eq)
  note IH = 2[OF n_def s1_def, folded s2_def, unfolded i b2]
  have "s_page_open (close_loop (f # ps) s) = (\<lambda>p. s_page_open s p \<and> p \<notin> set (f # ps))"
    using IH unfolding e mem fill_def by (simp add: fun_eq_iff)
  moreover have "page_prot (close_loop (f # ps) s) = (\<lambda>p. if p \<in> set (f # ps) then believed s p else page_prot s p)"
  proof
    fix p
    show "page_prot (close_loop (f # ps) s) p = (if p \<in> set (f # ps) then believed s p else page_prot s p)"
      using IH bel[of p] unfolding e mem fill_def by (cases "f \<le> p \<and> p < f + n") auto
  qed
  ultimately show ?case using IH i(5) unfolding e by simp
qed simp

lemma close_windows_spec:
  assumes "win_ok s"
  shows "win_ok (close_windows s)" "s_window_pages (close_windows s) = []" "s_page_belief (close_windows s) = s_page_belief s"
    "\<not> s_page_open (close_windows s) p" "page_prot (close_windows s) = believed s" "hooked (close_windows s) = hooked s"
    "believed (close_windows s) = believed s"
proof -
  note C = close_loop_spec[of "s_window_pages s" s] and W = win_okD[OF assms]
  show l: "s_window_pages (close_windows s) = []" and b: "s_page_belief (close_windows s) = s_page_belief s"
    and "hooked (close_windows s) = hooked s" using C by (simp_all add: close_windows_def)
  show o: "\<not> s_page_open (close_windows s) p" for p using C W(4) by (auto simp: close_windows_def)
  show p: "page_prot (close_windows s) = believed s" using C W(4,5) by (auto simp: close_windows_def fun_eq_iff)
  show e: "believed (close_windows s) = believed s" by (simp add: believed_def fun_eq_iff b)
  show "win_ok (close_windows s)" using C W(1) l o p e by (simp add: win_ok_def) (simp add: close_windows_def)
qed

lemma make_room_spec:
  assumes "win_ok s"
  shows "win_ok (make_room k s)" "s_page_belief (make_room k s) = s_page_belief s"
    "k * window_run \<le> WINDOW_ROOM \<Longrightarrow> length (s_window_pages (make_room k s)) + k * window_run \<le> WINDOW_ROOM"
    "length (s_window_pages s) + k * window_run \<le> WINDOW_ROOM \<Longrightarrow> make_room k s = s"
    "hooked (make_room k s) = hooked s"
  using close_windows_spec[OF assms] assms by (auto simp: make_room_def)

section \<open>Opening\<close>

lemma open_run_spec:
  assumes "open_run s page n pages = (m, pages')" "length pages \<le> WINDOW_ROOM" "page + n \<le> PAGES"
  shows "n \<le> m \<and> page + m \<le> PAGES \<and> pages' = pages @ filter (\<lambda>p. \<not> s_page_open s p) [page + n..<page + m]
    \<and> length pages' \<le> WINDOW_ROOM \<and> (\<forall>k. n \<le> k \<longrightarrow> k < m \<longrightarrow> s_page_belief s (page + k) = s_page_belief s page)
    \<and> m \<le> max n window_run"
  using assms
proof (induction s page n pages rule: open_run.induct)
  case (1 s page n pages)
  let ?go = "n < window_run \<and> page + n < PAGES \<and> s_page_belief s (page + n) = s_page_belief s page
      \<and> length pages < WINDOW_ROOM"
  show ?case
  proof (cases ?go)
    case True
    let ?q = "if \<not> s_page_open s (page + n) then pages @ [page + n] else pages"
    have r: "open_run s page (Suc n) ?q = (m, pages')" using 1(2) True by (simp add: open_run.simps[of s page n])
    have I: "Suc n \<le> m \<and> page + m \<le> PAGES \<and> pages' = ?q @ filter (\<lambda>p. \<not> s_page_open s p) [page + Suc n..<page + m]
      \<and> length pages' \<le> WINDOW_ROOM \<and> (\<forall>k. Suc n \<le> k \<longrightarrow> k < m \<longrightarrow> s_page_belief s (page + k) = s_page_belief s page)
      \<and> m \<le> max (Suc n) window_run"
      by (rule 1(1)[OF True r]) (use True in auto)
    have u: "[page + n..<page + m] = (page + n) # [page + Suc n..<page + m]" using I by (simp add: upt_conv_Cons)
    have b: "n \<le> k \<Longrightarrow> k < m \<Longrightarrow> s_page_belief s (page + k) = s_page_belief s page" for k
      using I True by (cases "k = n") auto
    show ?thesis using I b True unfolding u by auto
  next
    case False
    then have "open_run s page n pages = (n, pages)" by (subst open_run.simps) (rule if_not_P)
    then show ?thesis using 1(2-4) by auto
  qed
qed

lemma open_run_pos:
  assumes "open_run s page 0 pages = (m, pages')" "page < PAGES" "length pages < WINDOW_ROOM"
  shows "0 < m"
proof -
  have "open_run s page 0 pages = open_run s page (Suc 0) (if \<not> s_page_open s page then pages @ [page] else pages)"
    using assms(2,3) by (subst open_run.simps) (simp add: window_run_def)
  with assms(1) have "open_run s page (Suc 0) (if \<not> s_page_open s page then pages @ [page] else pages) = (m, pages')" by simp
  from open_run_spec[OF this] show ?thesis using assms(2,3) by (cases "s_page_open s page") simp_all
qed

lemma open_window_spec:
  assumes "win_ok s" "page < PAGES"
  shows "win_ok (open_window page s)" "s_page_belief (open_window page s) = s_page_belief s"
    "s_page_open (open_window page s) page" "hooked (open_window page s)"
    "length (s_window_pages s) + window_run \<le> WINDOW_ROOM \<Longrightarrow>
       (\<forall>p. s_page_open s p \<longrightarrow> s_page_open (open_window page s) p)
       \<and> length (s_window_pages (open_window page s)) \<le> length (s_window_pages s) + window_run"
proof -
  define s1 where "s1 = make_room 1 (s\<lparr>hooked := True\<rparr>)"
  have h: "win_ok (s\<lparr>hooked := True\<rparr>)" using assms(1) by (auto simp: win_ok_def)
  have R: "win_ok s1" "s_page_belief s1 = s_page_belief s" "length (s_window_pages s1) + window_run \<le> WINDOW_ROOM" "hooked s1"
    "length (s_window_pages s) + window_run \<le> WINDOW_ROOM \<Longrightarrow> s1 = s\<lparr>hooked := True\<rparr>"
    using make_room_spec[OF h, of 1] by (simp_all add: s1_def window_run_def WINDOW_ROOM_def)
  obtain n pages where o: "open_run s1 page 0 (s_window_pages s1) = (n, pages)" by (cases "open_run s1 page 0 (s_window_pages s1)")
  have O: "page + n \<le> PAGES" "pages = s_window_pages s1 @ filter (\<lambda>p. \<not> s_page_open s1 p) [page..<page + n]"
    "length pages \<le> WINDOW_ROOM" "n \<le> window_run"
    using open_run_spec[OF o] R(3) assms(2) by auto
  have pos: "0 < n" by (rule open_run_pos[OF o assms(2)]) (use R(3) in \<open>simp add: window_run_def\<close>)
  have e: "open_window page s = s1\<lparr>s_window_pages := pages, s_noting := True, page_prot := fill page n Rw (page_prot s1),
      s_page_open := fill page n True (s_page_open s1), s_windows_opened := s_windows_opened s1 + 1\<rparr>"
    unfolding open_window_def Let_def s1_def[symmetric] by (simp add: o protect_pages_eq)
  have b: "believed (open_window page s) = believed s1" by (simp add: e)
  note W = win_okD[OF R(1)]
  show "s_page_belief (open_window page s) = s_page_belief s" "s_page_open (open_window page s) page" "hooked (open_window page s)"
    using pos R by (simp_all add: e)
  have "p < PAGES" if "p \<in> set pages" for p using that W(3) O(1,2) by auto
  moreover have "p \<in> set pages" if "page \<le> p \<and> p < page + n \<or> s_page_open s1 p" for p
    using that W(4)[of p] unfolding O(2) by auto
  ultimately show "win_ok (open_window page s)"
    unfolding win_ok_def b using W(5) O(3) R(4) by (auto simp: e)
  assume "length (s_window_pages s) + window_run \<le> WINDOW_ROOM"
  then have s1: "s1 = s\<lparr>hooked := True\<rparr>" by (rule R(5))
  have "length (filter (\<lambda>p. \<not> s_page_open s1 p) [page..<page + n]) \<le> n"
    by (rule le_trans[OF length_filter_le]) simp
  then show "(\<forall>p. s_page_open s p \<longrightarrow> s_page_open (open_window page s) p)
       \<and> length (s_window_pages (open_window page s)) \<le> length (s_window_pages s) + window_run"
    using O(2,4) s1 by (simp add: e)
qed

text \<open>Opening the pages of one access, with room for a run each: none is put back meanwhile.\<close>

lemma open_pages_spec:
  assumes "win_ok s" "\<forall>p \<in> set ps. p < PAGES" "length (s_window_pages s) + length ps * window_run \<le> WINDOW_ROOM"
  defines "s' \<equiv> fold open_if_locked ps s"
  shows "win_ok s' \<and> s_page_belief s' = s_page_belief s \<and> (\<forall>p. s_page_open s p \<longrightarrow> s_page_open s' p)
    \<and> (\<forall>p \<in> set ps. page_prot s' p = Rw) \<and> length (s_window_pages s') \<le> length (s_window_pages s) + length ps * window_run"
  using assms(1-3) unfolding s'_def
proof (induction ps arbitrary: s)
  case (Cons p ps)
  let ?t = "open_if_locked p s"
  have room: "length (s_window_pages s) + window_run \<le> WINDOW_ROOM" using Cons.prems(3) by simp
  have pp: "p < PAGES" using Cons.prems(2) by simp
  have t: "win_ok ?t" "s_page_belief ?t = s_page_belief s" "\<And>q. s_page_open s q \<Longrightarrow> s_page_open ?t q"
    "length (s_window_pages ?t) \<le> length (s_window_pages s) + window_run" "believed s p = Rw \<or> s_page_open ?t p"
    using open_window_spec[OF Cons.prems(1) pp] room Cons.prems(1) by (auto simp: open_if_locked_def)
  have IH: "win_ok (fold open_if_locked ps ?t)" "s_page_belief (fold open_if_locked ps ?t) = s_page_belief ?t"
    "\<And>q. s_page_open ?t q \<Longrightarrow> s_page_open (fold open_if_locked ps ?t) q"
    "\<And>q. q \<in> set ps \<Longrightarrow> page_prot (fold open_if_locked ps ?t) q = Rw"
    "length (s_window_pages (fold open_if_locked ps ?t)) \<le> length (s_window_pages ?t) + length ps * window_run"
    using Cons.IH[OF t(1)] Cons.prems(2,3) t(4) by auto
  have "believed (fold open_if_locked ps ?t) p = believed s p" using IH(2) t(2) by (simp add: believed_def)
  then have "page_prot (fold open_if_locked ps ?t) p = Rw"
    using t(5) IH(3)[of p] win_okD(5)[OF IH(1), of p] by auto
  then show ?case using IH t by auto
qed simp

section \<open>Every sequence of operations\<close>

inductive win_step :: "windows \<Rightarrow> windows \<Rightarrow> bool" where
  protect: "page + n \<le> PAGES \<Longrightarrow> 0 < n \<Longrightarrow> win_step s (memory_protect page n prot s)"
| fault: "page < PAGES \<Longrightarrow> win_step s (open_window page s)"
| access: "win_step s (super_access address len s)"
| leave: "win_step s (close_windows s)"

inductive win_reach :: "windows \<Rightarrow> bool" where
  start: "win_reach no_windows"
| step: "win_reach s \<Longrightarrow> win_step s s' \<Longrightarrow> win_reach s'"

lemma no_windows_ok: "win_ok no_windows"
  by (simp add: win_ok_def no_windows_def believed_def)

lemma open_fold_ok: "win_ok s \<Longrightarrow> \<forall>p \<in> set ps. p < PAGES \<Longrightarrow> win_ok (fold open_if_locked ps s)"
  by (induction ps arbitrary: s) (simp_all add: open_if_locked_def open_window_spec(1))

lemma super_access_ok: "win_ok s \<Longrightarrow> win_ok (super_access address len s)"
  by (auto simp: super_access_def Let_def intro!: open_fold_ok make_room_spec(1))

lemma win_step_ok: "win_step s s' \<Longrightarrow> win_ok s \<Longrightarrow> win_ok s'"
  by (induction rule: win_step.induct)
    (simp_all add: memory_protect_ok(1) open_window_spec(1) super_access_ok close_windows_spec(1))

lemma win_reach_ok: "win_reach s \<Longrightarrow> win_ok s"
  by (induction rule: win_reach.induct) (auto intro: no_windows_ok win_step_ok)

text \<open>C23. The cache's belief is never wrong: whatever the emulator locks, whatever faults and however many
  windows are open, a page no window holds open has the protection the emulator last asked
  for, the list of pages to put back never runs over its 16,384 entries and has every open page
  (it may have others, which the emulator has locked again meanwhile), and closing the windows
  puts every page back.\<close>

theorem windows_follow_the_belief:
  assumes "win_reach s"
  shows "length (s_window_pages s) \<le> 16384
    \<and> (\<forall>p. page_prot s p = (if s_page_open s p then Rw else believed s p))
    \<and> (\<forall>p. s_page_open s p \<longrightarrow> p \<in> set (s_window_pages s) \<and> p < 2 ^ 20)
    \<and> page_prot (close_windows s) = believed s \<and> s_page_belief (close_windows s) = s_page_belief s"
proof -
  note ok = win_reach_ok[OF assms]
  show ?thesis
    using win_okD[OF ok] close_windows_spec[OF ok] by (auto simp: WINDOW_ROOM_def PAGES_def)
qed

theorem windows_follow_the_belief_witness:
  "page_prot (close_windows (open_window 5 (memory_protect 4 3 No no_windows))) 5 = No"
proof -
  let ?s = "memory_protect 4 3 No no_windows"
  have r: "win_reach (open_window 5 ?s)"
    by (rule win_reach.step[OF win_reach.step[OF win_reach.start win_step.protect] win_step.fault]) (simp_all add: PAGES_def)
  have "win_ok ?s" "believed ?s 5 = No"
    using memory_protect_ok(1,4)[OF no_windows_ok, where page = 4 and n = 3 and prot = No] by (simp_all add: PAGES_def)
  then have "believed (open_window 5 ?s) 5 = No"
    using open_window_spec(2)[of ?s 5] by (simp add: believed_def PAGES_def)
  then show ?thesis using windows_follow_the_belief[OF r] by simp
qed

lemma super_access_opens:
  assumes "win_ok s" "unat address + unat len \<le> 2 ^ 32" "unat len \<le> 63 * 4096"
  shows "win_ok (super_access address len s) \<and> s_page_belief (super_access address len s) = s_page_belief s
    \<and> (\<forall>i < unat len. page_prot (super_access address len s) ((unat address + i) div 4096) = Rw)"
proof (cases "len = 0")
  case True
  then show ?thesis using assms(1) by (simp add: super_access_def)
next
  case False
  then have pos: "0 < unat len" by (simp add: unat_gt_0)
  define f where "f = unat address div 4096"
  define l where "l = (unat address + unat len - 1) div 4096"
  have first: "unat (address div 4096) = f" by (simp add: f_def unat_div)
  have s1: "unat (ucast address + ucast len :: u64) = unat address + unat len"
    using assms(2) by (subst unat_add_lem[THEN iffD1]) (simp_all add: unsigned_ucast_eq take_bit_nat_eq_self)
  have "unat (ucast address + ucast len - 1 :: u64) = unat address + unat len - 1"
    using s1 pos by (subst unat_sub) (simp_all add: word_le_nat_alt)
  then have fin: "unat ((ucast address + ucast len - 1 :: u64) div 4096) = l" by (simp add: l_def unat_div)
  have ll: "l < PAGES" using assms(2) pos by (simp add: l_def PAGES_def)
  have fl: "f \<le> l" using pos by (simp add: f_def l_def div_le_mono)
  have k: "l + 1 - f \<le> 64"
    using assms(3) unfolding f_def l_def by linarith
  then have room: "(l + 1 - f) * window_run \<le> WINDOW_ROOM" by (simp add: window_run_def WINDOW_ROOM_def)
  define s0 where "s0 = make_room (l + 1 - f) s"
  have M: "win_ok s0" "s_page_belief s0 = s_page_belief s" "length (s_window_pages s0) + (l + 1 - f) * window_run \<le> WINDOW_ROOM"
    using make_room_spec[OF assms(1), of "l + 1 - f"] room by (simp_all add: s0_def)
  define ps where "ps = [f..<l + 1]"
  have ps: "\<forall>p \<in> set ps. p < PAGES" "length ps = l + 1 - f" "\<And>p. p \<in> set ps \<longleftrightarrow> f \<le> p \<and> p \<le> l"
    using ll by (auto simp: ps_def)
  have e: "super_access address len s = fold open_if_locked ps s0"
    using False ll unfolding super_access_def Let_def first fin s0_def[symmetric] ps_def by (simp add: min_def del: upt_Suc)
  have O: "win_ok (super_access address len s)" "s_page_belief (super_access address len s) = s_page_belief s"
    "\<And>p. f \<le> p \<Longrightarrow> p \<le> l \<Longrightarrow> page_prot (super_access address len s) p = Rw"
    using open_pages_spec[OF M(1) ps(1)] M(2,3) unfolding e ps(2,3) by (simp_all add: ps(3))
  have "f \<le> (unat address + i) div 4096 \<and> (unat address + i) div 4096 \<le> l" if "i < unat len" for i
    using that by (auto simp: f_def l_def intro!: div_le_mono)
  then show ?thesis using O by simp
qed

text \<open>C25. A read through \<open>super_access\<close> faults nowhere: of a stretch of up to 64 pages of the guest, wherever it
  starts and however many windows are open, every page can be written when it returns, and
  making room for the last of them has not put the first one back.\<close>

theorem super_access_opens_every_page:
  assumes "win_ok s" "unat address + unat len \<le> 2 ^ 32" "unat len \<le> 63 * 4096"
  shows "win_ok (super_access address len s) \<and> s_page_belief (super_access address len s) = s_page_belief s
    \<and> (\<forall>i < unat len. page_prot (super_access address len s) ((unat address + i) div 4096) = Rw)"
  by (rule super_access_opens[OF assms])

theorem super_access_opens_every_page_witness:
  "page_prot (super_access 4092 8 (memory_protect 0 2 No no_windows)) 1 = Rw"
proof -
  have ok: "win_ok (memory_protect 0 2 No no_windows)"
    by (rule memory_protect_ok[OF no_windows_ok]) (simp_all add: PAGES_def)
  show ?thesis using super_access_opens_every_page[OF ok, of 4092 8] by (auto dest!: spec[of _ 4])
qed

end
