(* ===== verification/WindowsLeave.thy ===== *)
theory WindowsLeave
  imports WindowsProps VschedProps
begin

text \<open>
  The page windows together with the scheduler: the leave hook the first window installs
  closes them before another thread has the machine; and the driver's own probe of the windows.
\<close>

section \<open>Handing the machine over runs the leave hook\<close>

definition left_by :: "nat option \<Rightarrow> nat option \<Rightarrow> nat option \<Rightarrow> (nat \<times> nat) list" where
  "left_by hook cur cur' =
     (if cur' = cur then [] else (case hook of None \<Rightarrow> [] | Some h \<Rightarrow> [(h, the cur)]))"

lemma left_by_same [simp]: "left_by hook cur cur = []"
  by (simp add: left_by_def)

definition handed :: "vsched \<Rightarrow> vsched \<Rightarrow> bool" where
  "handed s s' \<longleftrightarrow> leave_log s' = leave_log s @ left_by (g_leave_hook s) (g_cur s) (g_cur s')"

definition quiet_leave :: "vsched \<Rightarrow> vsched \<Rightarrow> bool" where
  "quiet_leave s s' \<longleftrightarrow> leave_log s' = leave_log s \<and> g_cur s' = g_cur s \<and> g_leave_hook s' = g_leave_hook s"

named_theorems leave_quiet

lemma quiet_refl [leave_quiet]: "quiet_leave s s" by (simp add: quiet_leave_def)

lemma quiet_trans: "quiet_leave s t \<Longrightarrow> quiet_leave t u \<Longrightarrow> quiet_leave s u"
  by (simp add: quiet_leave_def)

lemma quiet_handed: "quiet_leave s t \<Longrightarrow> handed t u \<Longrightarrow> handed s u"
  "handed s t \<Longrightarrow> quiet_leave t u \<Longrightarrow> handed s u"
  by (simp_all add: quiet_leave_def handed_def)

lemma quiet_is_handed: "leave_log s' = leave_log s \<Longrightarrow> g_cur s' = g_cur s \<Longrightarrow> handed s s'"
  by (simp add: handed_def)

lemma quiet_aside_close [leave_quiet]: "quiet_leave s (aside_close b s)"
  by (simp add: quiet_leave_def aside_close_def)

lemma quiet_wake [leave_quiet]: "quiet_leave s (wake_expired s)"
  by (simp add: quiet_leave_def wake_expired_def aside_close_def Let_def)

lemma quiet_upd [leave_quiet]: "quiet_leave s (upd_thread r f s)"
  by (simp add: quiet_leave_def upd_thread_def)

lemma quiet_advance: "advance_to_next_deadline s = Inr s' \<Longrightarrow> quiet_leave s s'"
  by (auto simp: advance_to_next_deadline_def Let_def quiet_leave_def wake_expired_def aside_close_def split: if_splits)

lemma switch_to_handed: "handed s (switch_to p t s)"
  by (auto simp: handed_def left_by_def switch_to_def Let_def upd_thread_def split: option.split)

lemma schedule_away_handed: "schedule_away n self s = Inr s' \<Longrightarrow> handed s s'"
proof (induction n arbitrary: s)
  case (Suc n)
  let ?s1 = "wake_expired s"
  show ?case
  proof (cases "next_runnable_after ?s1 self")
    case (Some t)
    then have "s' = switch_to InWait t ?s1" using Suc.prems by (simp add: Let_def)
    then show ?thesis using quiet_handed(1)[OF quiet_wake switch_to_handed] by simp
  next
    case None
    show ?thesis
    proof (cases "case thread_of ?s1 self of None \<Rightarrow> False | Some x \<Rightarrow> vt_state x = RUNNABLE")
      case True
      then have "s' = ?s1" using Suc.prems None by (simp add: Let_def)
      then show ?thesis using quiet_wake[of s] by (auto simp: quiet_leave_def handed_def)
    next
      case False
      then have "sbind (advance_to_next_deadline ?s1) (schedule_away n self) = Inr s'"
        using Suc.prems None by (simp add: Let_def)
      then obtain s2 where "advance_to_next_deadline ?s1 = Inr s2" "schedule_away n self s2 = Inr s'"
        by (auto simp: sbind_eq_Inr)
      then show ?thesis
        using Suc.IH[of s2] quiet_trans[OF quiet_wake quiet_advance] quiet_handed(1) by blast
    qed
  qed
qed simp

lemma yield_handed: "handed s (vsched_yield c s)"
proof (cases "g_cur s")
  case None
  then show ?thesis by (simp add: vsched_yield_def handed_def)
next
  case (Some self)
  let ?s1 = "wake_expired (s\<lparr>g_now := g_now s + c\<rparr>)"
  have q: "quiet_leave s ?s1"
    using quiet_wake[of "s\<lparr>g_now := g_now s + c\<rparr>"] by (simp add: quiet_leave_def)
  then have "handed s ?s1" by (simp add: quiet_leave_def handed_def)
  then show ?thesis
    using Some quiet_handed(1)[OF q switch_to_handed] by (simp add: vsched_yield_def Let_def split: option.split)
qed

lemma wait_handed: "vsched_wait mem items timeout s = Inr (res, s') \<Longrightarrow> handed s s'"
proof -
  assume w: "vsched_wait mem items timeout s = Inr (res, s')"
  show "handed s s'"
  proof (cases "g_cur s")
    case None
    then show ?thesis using w by (simp add: vsched_wait_def handed_def)
  next
    case (Some self)
    show ?thesis
    proof (cases "list_ex (\<lambda>it. read_word mem (wi_addr it) \<noteq> wi_old it) items")
      case True
      then show ?thesis using w Some by (simp add: vsched_wait_def handed_def)
    next
      case False
      let ?b = "begin_wait items timeout self s"
      have q: "quiet_leave s ?b" by (simp add: quiet_leave_def begin_wait_def Let_def upd_thread_def)
      obtain s1 where s1: "schedule_away SCHEDULE_ROUNDS self ?b = Inr s1"
        "s' = wait_tail self s1 \<or> s' = s1"
        using w Some False by (auto simp: vsched_wait_def sbind_eq_Inr split: if_splits)
      have "quiet_leave s1 s'" using s1(2) by (auto simp: quiet_leave_def wait_tail_def upd_thread_def)
      then show ?thesis using quiet_handed(2)[OF quiet_handed(1)[OF q schedule_away_handed[OF s1(1)]]] by simp
    qed
  qed
qed

lemma rsx_idle_handed: "handed s (vsched_rsx_idle mem put s)"
  using yield_handed[of "s\<lparr>g_rsx_idle := g_cur s, g_rsx_put := put, g_rsx_put_seen := mem put\<rparr>" YIELD_COST_NS]
  by (simp add: vsched_rsx_idle_def handed_def)

lemma rsx_step_handed: "handed s (vsched_rsx_step s)"
  using yield_handed[of "s\<lparr>g_now := g_now s + drop_bit 10 RSX_CMD_NS_Q10, rsx_commands := 0\<rparr>" 0]
  by (simp add: vsched_rsx_step_def handed_def Let_def)

lemma charge_look_quiet: "quiet_leave s (charge_look k self s)"
  by (simp add: charge_look_def Let_def quiet_leave_def upd_thread_def)

lemma budget_handed: "handed s (vsched_budget_expired mem k s)"
proof (cases "g_cur s")
  case None
  then show ?thesis by (simp add: vsched_budget_expired_def handed_def)
next
  case (Some self)
  let ?c = "charge_look k self s"
  have y: "handed ?c (vsched_yield 0 (?c\<lparr>g_turn_run := 0\<rparr>))"
    using yield_handed[of "?c\<lparr>g_turn_run := 0\<rparr>" 0] by (simp add: handed_def)
  show ?thesis
    unfolding vsched_budget_expired_def Let_def Some
    using quiet_handed(1)[OF charge_look_quiet y] quiet_handed(1)[OF quiet_trans[OF charge_look_quiet quiet_wake] switch_to_handed]
      quiet_handed(1)[OF charge_look_quiet quiet_is_handed[OF refl refl]]
    by (simp split: option.split)
qed

lemma poll_handed: "handed s (snd (vsched_poll_yield k used s))"
proof -
  have y: "handed s (vsched_yield c ((upd_thread self f s)\<lparr>vsched_budget := b, g_turn_run := 0\<rparr>))" for c self f b
    using yield_handed[of "(upd_thread self f s)\<lparr>vsched_budget := b, g_turn_run := 0\<rparr>" c]
    by (simp add: handed_def upd_thread_def)
  show ?thesis using y by (auto simp: vsched_poll_yield_def quiet_is_handed split: option.split)
qed

lemma notify_quiet: "leave_log (vsched_notify a all s) = leave_log s \<and> g_cur (vsched_notify a all s) = g_cur s"
proof (induction a all s rule: vsched_notify.induct)
  case (1 a all s)
  have q: "leave_log (notify_one r s) = leave_log s" "g_cur (notify_one r s) = g_cur s" for r
    by (simp_all add: notify_one_def upd_thread_def)
  show ?case
    using 1 q by (subst (1 2) vsched_notify.simps) (auto split: option.split)
qed

lemma create_quiet: "vsched_create fn rc s = Inr (r, s') \<Longrightarrow> leave_log s' = leave_log s \<and> g_cur s' = g_cur s"
  by (auto simp: vsched_create_def take_slot_def Let_def sbind_eq_Inr split: option.splits if_splits)

lemma exec_call_handed:
  assumes "exec_call c s = Inr s'" "c \<noteq> CExit"
  shows "handed s s'"
proof (cases c)
  case (CCreate fn rc)
  then show ?thesis using assms(1) by (cases "vsched_create fn rc s") (auto dest!: create_quiet intro: quiet_is_handed)
next
  case (CWait mem items timeout)
  then show ?thesis using assms(1) by (cases "vsched_wait mem items timeout s") (auto dest: wait_handed)
next
  case (CSleep ns)
  then show ?thesis using assms(1) by (cases "vsched_sleep ns s") (auto simp: vsched_sleep_def dest: wait_handed)
next
  case (CNotify a all)
  then show ?thesis using assms(1) notify_quiet[of a all s] by (auto intro: quiet_is_handed)
qed (use assms in \<open>auto simp: yield_handed[unfolded handed_def] rsx_idle_handed[unfolded handed_def]
     rsx_step_handed[unfolded handed_def] budget_handed[unfolded handed_def] poll_handed[unfolded handed_def]
     handed_def vsched_advance_def vsched_aside_begin_def vsched_aside_end_def aside_close_def Let_def
     vsched_set_leave_hook_def vsched_register_slot_reset_def vsched_register_thread_exit_def tls_set_def
     split: if_splits\<close>)

lemma exit_leave_log: "vsched_exit s = Inr s' \<Longrightarrow> leave_log s' = leave_log s"
proof -
  have pick: "exit_pick n prev t = Inr (r, t') \<Longrightarrow> leave_log t' = leave_log t" for n prev t r t'
  proof (induction n arbitrary: t)
    case (Suc n)
    have w: "leave_log (wake_expired t) = leave_log t" using quiet_wake[of t] by (simp add: quiet_leave_def)
    show ?case
    proof (cases "next_runnable_after (wake_expired t) prev")
      case None
      then obtain u where "advance_to_next_deadline (wake_expired t) = Inr u" "exit_pick n prev u = Inr (r, t')"
        using Suc.prems by (auto simp: Let_def sbind_eq_Inr)
      then show ?thesis using Suc.IH[of u] quiet_advance w by (simp add: quiet_leave_def)
    qed (use Suc.prems w in \<open>simp add: Let_def\<close>)
  qed simp
  assume "vsched_exit s = Inr s'"
  then show ?thesis
    by (auto simp: vsched_exit_def sbind_eq_Inr exit_handover_def exit_unlink_def upd_thread_def
        split: option.splits if_splits dest!: pick)
qed

section \<open>The windows when the machine changes hands\<close>

text \<open>The hook \<open>open_window\<close> installs, and what the hooks run by a call do to the windows.\<close>

definition close_hook :: nat where
  "close_hook = 0"

definition run_leave_hooks :: "vsched \<Rightarrow> vsched \<Rightarrow> windows \<Rightarrow> windows" where
  "run_leave_hooks s s' w =
     fold (\<lambda>(h, self) w. if h = close_hook then close_windows w else w) (drop (length (leave_log s)) (leave_log s')) w"

text \<open>C24. No other thread ever sees a window: when a call of the scheduler hands the machine to another
  thread, the leave hook has put every page back to what the emulator believes it is. The one
  way to leave that skips the hook is \<open>vsched_exit\<close>, which leaves the windows as they are.\<close>

theorem handover_closes_windows:
  assumes "win_ok w" "hooked w \<longrightarrow> g_leave_hook s = Some close_hook" "exec_call c s = Inr s'"
  shows "(c \<noteq> CExit \<and> g_cur s' \<noteq> g_cur s \<longrightarrow>
        page_prot (run_leave_hooks s s' w) = believed w \<and> s_window_pages (run_leave_hooks s s' w) = []
        \<and> believed (run_leave_hooks s s' w) = believed w)
    \<and> (c = CExit \<longrightarrow> run_leave_hooks s s' w = w)"
proof (cases "c = CExit")
  case True
  then show ?thesis using exit_leave_log[of s s'] assms(3) by (simp add: run_leave_hooks_def)
next
  case False
  note H = exec_call_handed[OF assms(3) False, unfolded handed_def left_by_def]
  show ?thesis
  proof (cases "hooked w")
    case True
    then show ?thesis
      using H False assms(2) close_windows_spec[OF assms(1)] by (auto simp: run_leave_hooks_def)
  next
    case no: False
    have e: "s_window_pages w = []" using no win_okD(6)[OF assms(1)] by blast
    then have p: "page_prot w = believed w" using win_okD(4,5)[OF assms(1)] by (auto simp: fun_eq_iff)
    have "fold (\<lambda>(h, self) w. if h = close_hook then close_windows w else w) xs w = w \<or>
        fold (\<lambda>(h, self) w. if h = close_hook then close_windows w else w) xs w = close_windows w" if "length xs \<le> 1" for xs
      using that by (cases xs) (auto split: prod.split)
    then show ?thesis
      using H False close_windows_spec[OF assms(1)] e p by (auto simp: run_leave_hooks_def split: option.splits if_splits)
  qed
qed

lemma boot2_yields:
  "g_cur (vsched_yield 0 (boot2\<lparr>g_leave_hook := h\<rparr>)) = Some 1"
proof -
  let ?s = "boot2\<lparr>g_leave_hook := h\<rparr>"
  have w: "wake_expired ?s = ?s"
    by (simp add: wake_expired_def aside_overdue_def wakes_def boot_defs)
  have n: "next_runnable_after ?s 0 = Some 1"
    by (simp add: next_runnable_after_def ring_next_def runs_def can_run_def thread_of_def find_by_Cons boot_defs numeral_eq_Suc)
  have c: "g_cur ?s = Some 0" by (simp add: boot2_cur)
  have z: "?s\<lparr>g_now := g_now ?s + 0\<rparr> = ?s" by simp
  show ?thesis
    unfolding vsched_yield_def c option.case Let_def z w n
    by (simp add: switch_to_def c Let_def upd_thread_def)
qed

theorem handover_closes_windows_witness:
  "\<exists>w s s'. hooked w \<and> s_page_open w 0 \<and> exec_call (CYield 0) s = Inr s' \<and> page_prot (run_leave_hooks s s' w) = believed w"
proof -
  let ?s = "boot2\<lparr>g_leave_hook := Some close_hook\<rparr>" and ?w = "open_window 0 no_windows"
  have w: "win_ok ?w" "s_page_open ?w 0" "hooked ?w"
    using open_window_spec[OF no_windows_ok, of 0] by (simp_all add: PAGES_def)
  have y: "exec_call (CYield 0) ?s = Inr (vsched_yield 0 ?s)" by simp
  have "page_prot (run_leave_hooks ?s (vsched_yield 0 ?s) ?w) = believed ?w"
    using handover_closes_windows[OF w(1) _ y] boot2_yields[of "Some close_hook"] by (simp add: boot2_cur)
  then show ?thesis using w y by blast
qed

section \<open>The probe\<close>

lemma probe_loop_all:
  assumes "\<And>i t. i \<in> set is \<Longrightarrow> win_ok t \<Longrightarrow> win_ok (get i t) \<and> page_prot (get i t) (a + i) = Rw"
    "\<And>i. i \<in> set is \<Longrightarrow> mem (i * 4096) = mark i" "win_ok s"
  shows "\<exists>s'. probe_loop get mem a is good s = Some (good + int (length is), s') \<and> win_ok s'"
  using assms
proof (induction "is" arbitrary: good s)
  case (Cons i "is")
  have g: "win_ok (get i s)" "page_prot (get i s) (a + i) = Rw" using Cons.prems(1)[of i s] Cons.prems(3) by simp_all
  then have r: "reads mem a (get i s) i = Some True"
    using Cons.prems(2)[of i] by (simp add: reads_def read_byte_def)
  obtain s' where "probe_loop get mem a is (good + 1) (get i s) = Some (good + 1 + int (length is), s')" "win_ok s'"
    using Cons.IH[of "get i s" "good + 1"] Cons.prems(1,2) g(1) by auto
  then show ?case using r by (simp add: Let_def)
qed simp

lemma unat_page_addr: "p < 2 ^ 20 \<Longrightarrow> unat (page_addr p) = p * 4096"
  by (simp only: page_addr_def unat_of_nat) (simp add: take_bit_nat_eq_self)

lemma access_page:
  assumes "win_ok s" "p < PAGES"
  shows "win_ok (super_access (page_addr p) 8 s) \<and> page_prot (super_access (page_addr p) 8 s) p = Rw"
proof -
  have u: "unat (page_addr p) = p * 4096" using assms(2) by (simp add: unat_page_addr PAGES_def)
  have b: "unat (page_addr p) + unat (8 :: u32) \<le> 2 ^ 32" using assms(2) u by (simp add: PAGES_def)
  note A = super_access_opens[OF assms(1) b, simplified]
  from A[THEN conjunct2, THEN conjunct2, rule_format, of 0] show ?thesis using A u by simp
qed

lemma access_fold_ok: "win_ok s \<Longrightarrow> win_ok (fold (\<lambda>k. super_access (f k) 8) ks s)"
  by (induction ks arbitrary: s) (simp_all add: super_access_ok)

lemma probe_boundary_ok:
  assumes "win_ok s" "a + pages \<le> PAGES" "2 \<le> pages" "mem 4092 = 0" "mem 4096 = mark 1"
  shows "\<exists>s'. probe_boundary mem a pages s = Some (True, s') \<and> win_ok s' \<and> s_window_pages s' = []"
proof -
  define s1 where "s1 = memory_protect (a + 1) 1 Ro (memory_protect a pages No (close_windows s))"
  define s2 where "s2 = fold (\<lambda>k. super_access (page_addr (a + (2 + k * 256))) 8) [0..<(WINDOW_ROOM - 256 + 255) div 256] s1"
  define s3 where "s3 = super_access (page_addr a + 4092) 8 s2"
  have "win_ok s1" unfolding s1_def
    by (intro memory_protect_ok(1) close_windows_spec(1)) (use assms(1-3) in simp_all)
  then have ok2: "win_ok s2" unfolding s2_def by (rule access_fold_ok)
  have al: "a + 2 \<le> 2 ^ 20" using assms(2,3) by (simp add: PAGES_def)
  then have u: "unat (page_addr a) = a * 4096" by (simp add: unat_page_addr)
  have "page_addr a + 4092 = of_nat (a * 4096 + 4092)" by (simp add: page_addr_def)
  then have u2: "unat (page_addr a + 4092) = a * 4096 + 4092"
    using al by (simp only: unat_of_nat) (simp add: take_bit_nat_eq_self)
  have b: "unat (page_addr a + 4092) + unat (8 :: u32) \<le> 2 ^ 32" "unat (8 :: u32) \<le> 63 * 4096" using al by (simp_all add: u2)
  note S = super_access_opens[OF ok2 b, folded s3_def, unfolded u2]
  have S': "page_prot s3 ((a * 4096 + 4092 + i) div 4096) = Rw" if "i < 8" for i using S that by simp
  have d: "(a * 4096 + 4092 + 0) div 4096 = a" "(a * 4096 + 4092 + 4) div 4096 = a + 1" by simp_all
  have p: "page_prot s3 a = Rw" "page_prot s3 (a + 1) = Rw"
    using S'[of 0] S'[of 4] unfolding d by simp_all
  have r: "read_byte mem a s3 4092 = Some 0" "reads mem a s3 1 = Some True"
    using p assms(4,5) by (simp_all add: read_byte_def reads_def)
  have ok: "win_ok (memory_protect a pages Rw s3)"
    by (rule memory_protect_ok(1)) (use S assms(2,3) in simp_all)
  have "probe_boundary mem a pages s = Some (True, close_windows (memory_protect a pages Rw s3))"
    unfolding probe_boundary_def Let_def s1_def[symmetric] s2_def[symmetric] s3_def[symmetric] using r by simp
  then show ?thesis using close_windows_spec[OF ok] by blast
qed

text \<open>The driver's probe of the windows passes: whatever memory of at least 16,386 pages the allocator
  gives, all of its reads come back right, none of them faults, and no window stays open. So a
  list of windows that is full, a page locked again under an open window, and a read over two
  pages with the list nearly full are all served.\<close>

theorem window_probe_passes:
  assumes "WINDOW_ROOM + 2 \<le> pages" "alloc s = Some (a, mem0, s0)" "win_ok s0" "a + pages \<le> PAGES"
    "\<forall>i < pages. page_prot s0 (a + i) = Rw" "mem0 4092 = 0"
  shows "\<exists>s'. window_probe True pages alloc s = Some (2 * int pages + 2, s') \<and> win_ok s' \<and> s_window_pages s' = []"
proof -
  let ?mem = "marked pages mem0"
  have mem: "?mem (i * 4096) = mark i" if "i < pages" for i using that by (simp add: marked_def)
  have pp: "0 < pages" "2 \<le> pages" using assms(1) by (simp_all add: WINDOW_ROOM_def)
  have acc: "\<not> list_ex (\<lambda>i. page_prot s0 (a + i) \<noteq> Rw) [0..<pages]" using assms(5) by (simp add: list_ex_iff)
  have ok0: "win_ok (memory_protect a pages No s0)" by (rule memory_protect_ok(1)[OF assms(3,4) pp(1)])
  let ?get = "\<lambda>i t. if \<not> s_page_open t (a + i) then open_window (a + i) t else t"
  have g1: "win_ok (?get i t) \<and> page_prot (?get i t) (a + i) = Rw" if "i \<in> set [0..<pages]" "win_ok t" for i t
    using open_window_spec[OF that(2), of "a + i"] that win_okD(5) assms(4) by auto
  obtain s1 where s1: "probe_loop ?get ?mem a [0..<pages] 0 (memory_protect a pages No s0) = Some (int pages, s1)" "win_ok s1"
    using probe_loop_all[of "[0..<pages]" ?get a ?mem, OF g1 _ ok0, of 0] mem by auto
  have g2: "win_ok (super_access (page_addr (a + i)) 8 t) \<and> page_prot (super_access (page_addr (a + i)) 8 t) (a + i) = Rw"
    if "i \<in> set [0..<pages]" "win_ok t" for i t
    using access_page[OF that(2), of "a + i"] that(1) assms(4) by simp
  obtain s2 where s2: "probe_loop (\<lambda>i. super_access (page_addr (a + i)) 8) ?mem a [0..<pages] (int pages) (close_windows s1)
      = Some (2 * int pages, s2)" "win_ok s2"
    using probe_loop_all[of "[0..<pages]" "\<lambda>i. super_access (page_addr (a + i)) 8" a ?mem, OF g2 _ close_windows_spec(1)[OF s1(2)], of "int pages"] mem
    by auto
  define s3 where "s3 = super_access (page_addr (a + (pages - 1))) 8 (memory_protect (a + (pages - 1)) 1 No s2)"
  have "win_ok (memory_protect (a + (pages - 1)) 1 No s2)"
    by (rule memory_protect_ok(1)[OF s2(2)]) (use assms(4) pp in simp_all)
  then have s3: "win_ok s3" "page_prot s3 (a + (pages - 1)) = Rw"
    using access_page[of _ "a + (pages - 1)"] assms(4) pp by (simp_all add: s3_def)
  have r3: "reads ?mem a s3 (pages - 1) = Some True"
    using s3(2) mem[of "pages - 1"] pp by (simp add: reads_def read_byte_def)
  have m: "?mem 4092 = 0" "?mem 4096 = mark 1" using assms(6) mem[of 1] pp by (simp_all add: marked_def)
  obtain s4 where s4: "probe_boundary ?mem a pages s3 = Some (True, s4)" "win_ok s4" "s_window_pages s4 = []"
    using probe_boundary_ok[OF s3(1) assms(4) pp(2) m] by blast
  have "window_probe True pages alloc s = Some (2 * int pages + 2, s4)"
    using assms(1,2) acc s1(1) s2(1) r3 s4(1) by (simp add: window_probe_def Let_def s3_def)
  then show ?thesis using s4 by blast
qed

theorem window_probe_passes_witness:
  "\<exists>s'. window_probe True 16386 (\<lambda>s. Some (16, \<lambda>_. 0, s)) no_windows = Some (32774, s') \<and> win_ok s'"
proof -
  have room: "WINDOW_ROOM + 2 \<le> 16386" "16 + 16386 \<le> PAGES" by (simp_all add: WINDOW_ROOM_def PAGES_def)
  have rw: "\<forall>i < 16386. page_prot no_windows (16 + i) = Rw" by (simp add: no_windows_def)
  show ?thesis
    using window_probe_passes[where alloc = "\<lambda>s. Some (16, \<lambda>_. 0, s)" and s = no_windows and a = 16
        and ?mem0.0 = "\<lambda>_. 0" and ?s0.0 = no_windows, OF room(1) refl no_windows_ok room(2) rw refl] by auto
qed

end
