(* ===== verification/ZipIndex.thy ===== *)
theory ZipIndex
  imports MemfsState
begin

unbundle bit_operations_syntax

text \<open>
  Reading the central directory of a zip archive: \<open>zip_open\<close> of \<open>waterbox/archive.cpp\<close>. The file is
  what \<open>fopen\<close> and \<open>ftell\<close> say of it and an \<open>hfile\<close>; \<open>fits n\<close> says whether a vector of \<open>n\<close> elements can
  be had, since both the directory's buffer and the list of entries are asked for in sizes
  the file states (a size that cannot be had is the exception \<open>ZipBadAlloc\<close>). A pointer into a
  buffer is the list from there on. The one read that is not within its buffer whatever the file
  holds (a file of less than 22 bytes) is the value \<open>ZipOutOfBounds\<close>.
\<close>

section \<open>Little endian\<close>

definition rd16 :: "bytes \<Rightarrow> u16" where
  "rd16 p = ucast (p ! 0) OR push_bit 8 (ucast (p ! 1))"

definition rd32 :: "bytes \<Rightarrow> u32" where
  "rd32 p = ucast (p ! 0) OR push_bit 8 (ucast (p ! 1)) OR push_bit 16 (ucast (p ! 2)) OR push_bit 24 (ucast (p ! 3))"

definition rd64 :: "bytes \<Rightarrow> u64" where
  "rd64 p = ucast (rd32 p) OR push_bit 32 (ucast (rd32 (drop 4 p)))"

definition SIG_EOCD :: u32 where "SIG_EOCD = 0x06054b50"
definition SIG_EOCD64 :: u32 where "SIG_EOCD64 = 0x06064b50"
definition SIG_LOC64 :: u32 where "SIG_LOC64 = 0x07064b50"
definition SIG_CDIR :: u32 where "SIG_CDIR = 0x02014b50"
definition SIG_LOCAL :: u32 where "SIG_LOCAL = 0x04034b50"

definition read_exact :: "hfile \<Rightarrow> u64 \<Rightarrow> nat \<Rightarrow> bytes option" where
  "read_exact h offset n =
     (case h (unat offset) n of None \<Rightarrow> None | Some b \<Rightarrow> if length b = n then Some b else None)"

section \<open>Entries\<close>

record zip_entry =
  ze_path :: string
  ze_size :: u64
  ze_csize :: u64
  ze_header_offset :: u64
  ze_method :: u16

record zip_index =
  zi_path :: string
  zi_entries :: "zip_entry list"

text \<open>The members of the ZIP64 extra field, in their fixed order: each is there only when it is needed.\<close>

definition take_member :: "bool \<Rightarrow> (u64 \<Rightarrow> zip_entry \<Rightarrow> zip_entry) \<Rightarrow> bytes \<times> zip_entry \<Rightarrow> bytes \<times> zip_entry" where
  "take_member need upd x =
     (case x of (p, e) \<Rightarrow> if need \<and> 8 \<le> length p then (drop 8 p, upd (rd64 p) e) else (p, e))"

function apply_zip64_extra :: "bytes \<Rightarrow> zip_entry \<Rightarrow> bool \<Rightarrow> bool \<Rightarrow> bool \<Rightarrow> zip_entry" where
  "apply_zip64_extra extra e need_size need_csize need_offset =
     (if 4 \<le> length extra
      then (let id = rd16 extra; sz = unat (rd16 (drop 2 extra)) in
            if 4 + sz > length extra then e
            else if id = 1
            then snd (take_member need_offset (\<lambda>v e. e\<lparr>ze_header_offset := v\<rparr>)
                   (take_member need_csize (\<lambda>v e. e\<lparr>ze_csize := v\<rparr>)
                     (take_member need_size (\<lambda>v e. e\<lparr>ze_size := v\<rparr>) (take sz (drop 4 extra), e))))
            else apply_zip64_extra (drop (4 + sz) extra) e need_size need_csize need_offset)
      else e)"
  by pat_completeness auto
termination
  by (relation "measure (\<lambda>(extra, _). length extra)") auto

declare apply_zip64_extra.simps [simp del]

section \<open>The central directory\<close>

datatype zip_error = ZipNotOpened string | ZipEmpty | ZipNoEnd | ZipNotZip | ZipDirectoryRange
  | ZipDirectory | ZipMethod string | ZipNoFiles | ZipBadAlloc | ZipOutOfBounds

definition to_chars :: "bytes \<Rightarrow> string" where
  "to_chars = map (\<lambda>b. char_of (unat b))"

definition zip_path :: "string \<Rightarrow> string" where
  "zip_path name = dropWhile (\<lambda>c. c = CHR ''/'') (map (\<lambda>c. if c = CHR 0x5C then CHR ''/'' else c) name)"

text \<open>One record of the directory: its entry, and its length (\<open>None\<close> when it runs past the end).\<close>

definition cdir_record :: "bytes \<Rightarrow> (zip_entry \<times> nat) option" where
  "cdir_record cd =
     (let name_len = unat (rd16 (drop 28 cd)); extra_len = unat (rd16 (drop 30 cd));
          comment_len = unat (rd16 (drop 32 cd));
          e = \<lparr>ze_path = [], ze_size = ucast (rd32 (drop 24 cd)), ze_csize = ucast (rd32 (drop 20 cd)),
               ze_header_offset = ucast (rd32 (drop 42 cd)), ze_method = rd16 (drop 10 cd)\<rparr>
      in if 46 + name_len + extra_len + comment_len > length cd then None
         else Some ((apply_zip64_extra (take extra_len (drop (46 + name_len) cd)) e
                       (ze_size e = 0xFFFFFFFF) (ze_csize e = 0xFFFFFFFF) (ze_header_offset e = 0xFFFFFFFF))
                      \<lparr>ze_path := zip_path (to_chars (take name_len (drop 46 cd)))\<rparr>,
                    46 + name_len + extra_len + comment_len))"

lemma cdir_record_pos: "cdir_record cd = Some (e, n) \<Longrightarrow> 46 \<le> n \<and> n \<le> length cd"
  by (auto simp: cdir_record_def Let_def split: if_splits)

function cdir_loop :: "bytes \<Rightarrow> zip_entry list \<Rightarrow> zip_error + zip_entry list" where
  "cdir_loop cd entries =
     (if 46 \<le> length cd \<and> rd32 cd = SIG_CDIR
      then (case cdir_record cd of
              None \<Rightarrow> Inr entries
            | Some (e, n) \<Rightarrow>
                if ze_path e = [] \<or> last (ze_path e) = CHR ''/'' then cdir_loop (drop n cd) entries
                else if ze_method e \<noteq> 0 \<and> ze_method e \<noteq> 8 then Inl (ZipMethod (ze_path e))
                else cdir_loop (drop n cd) (entries @ [e]))
      else Inr entries)"
  by pat_completeness auto
termination
  by (relation "measure (\<lambda>(cd, entries). length cd)") (auto dest!: cdir_record_pos)

declare cdir_loop.simps [simp del]

section \<open>The end of the archive\<close>

definition TAIL_LEN :: nat where "TAIL_LEN = 66 * 1024"

fun eocd_scan :: "bytes \<Rightarrow> nat \<Rightarrow> nat option" where
  "eocd_scan tail 0 = (if rd32 tail = SIG_EOCD then Some 0 else None)"
| "eocd_scan tail (Suc i) = (if rd32 (drop (Suc i) tail) = SIG_EOCD then Some (Suc i) else eocd_scan tail i)"

text \<open>Count, size and offset of the directory as the record at \<open>eocd\<close> gives them, or the ZIP64 record
  the locator before it names.\<close>

definition zip64_end :: "hfile \<Rightarrow> bytes \<Rightarrow> nat \<Rightarrow> u64 \<times> u64 \<times> u64" where
  "zip64_end h tail eocd =
     (let plain = (ucast (rd16 (drop (eocd + 10) tail)), ucast (rd32 (drop (eocd + 12) tail)),
                   ucast (rd32 (drop (eocd + 16) tail)))
      in if 20 \<le> eocd \<and> rd32 (drop (eocd - 20) tail) = SIG_LOC64
         then (case read_exact h (rd64 (drop (eocd - 20 + 8) tail)) 56 of
                 None \<Rightarrow> plain
               | Some r \<Rightarrow> if rd32 r = SIG_EOCD64
                           then (rd64 (drop 32 r), rd64 (drop 40 r), rd64 (drop 48 r)) else plain)
         else plain)"

definition zip_directory :: "(nat \<Rightarrow> bool) \<Rightarrow> hfile \<Rightarrow> u64 \<Rightarrow> u64 \<times> u64 \<times> u64 \<Rightarrow> zip_error + zip_entry list" where
  "zip_directory fits h file_size e =
     (case e of (count, cd_size, cd_offset) \<Rightarrow>
        if cd_size = 0 \<or> cd_offset + cd_size > file_size then Inl ZipDirectoryRange
        else if \<not> fits (unat cd_size) then Inl ZipBadAlloc
        else (case read_exact h cd_offset (unat cd_size) of
                None \<Rightarrow> Inl ZipDirectory
              | Some cd \<Rightarrow>
                  if \<not> fits (unat count) then Inl ZipBadAlloc
                  else sbind (cdir_loop cd []) (\<lambda>es. if es = [] then Inl ZipNoFiles else Inr es)))"

definition zip_open :: "(nat \<Rightarrow> bool) \<Rightarrow> string \<Rightarrow> (int \<times> hfile) option \<Rightarrow> zip_error + zip_index" where
  "zip_open fits path found =
     (case found of
        None \<Rightarrow> Inl (ZipNotOpened path)
      | Some (size_l, h) \<Rightarrow>
          if size_l \<le> 0 then Inl ZipEmpty
          else
          (let file_size = nat size_l; tail_len = min file_size TAIL_LEN in
           case read_exact h (of_nat (file_size - tail_len)) tail_len of
             None \<Rightarrow> Inl ZipNoEnd
           | Some tail \<Rightarrow>
               if tail_len < 4 then Inl ZipOutOfBounds
               else (case eocd_scan tail (tail_len - 22) of
                       None \<Rightarrow> Inl ZipNotZip
                     | Some eocd \<Rightarrow>
                         if tail_len < eocd + 20 then Inl ZipOutOfBounds
                         else sbind (zip_directory fits h (of_nat file_size) (zip64_end h tail eocd))
                                (\<lambda>es. Inr \<lparr>zi_path = path, zi_entries = es\<rparr>))))"

section \<open>What an index holds\<close>

definition zip_path_ok :: "string \<Rightarrow> bool" where
  "zip_path_ok p \<longleftrightarrow> p \<noteq> [] \<and> CHR 0x5C \<notin> set p \<and> hd p \<noteq> CHR ''/'' \<and> last p \<noteq> CHR ''/''"

definition zip_entry_ok :: "zip_entry \<Rightarrow> bool" where
  "zip_entry_ok e \<longleftrightarrow> zip_path_ok (ze_path e) \<and> (ze_method e = 0 \<or> ze_method e = 8)"

lemma zip_path_plain: "CHR 0x5C \<notin> set (zip_path n) \<and> (zip_path n \<noteq> [] \<longrightarrow> hd (zip_path n) \<noteq> CHR ''/'')"
proof
  have "CHR 0x5C \<notin> set (map (\<lambda>c. if c = CHR 0x5C then CHR ''/'' else c) n)" by auto
  then show "CHR 0x5C \<notin> set (zip_path n)" unfolding zip_path_def using set_dropWhileD by metis
  show "zip_path n \<noteq> [] \<longrightarrow> hd (zip_path n) \<noteq> CHR ''/''"
    unfolding zip_path_def using hd_dropWhile[of "\<lambda>c. c = CHR ''/''"] by blast
qed

lemma cdir_record_path:
  "cdir_record cd = Some (e, n) \<Longrightarrow> \<exists>name. ze_path e = zip_path name"
  by (auto simp: cdir_record_def Let_def split: if_splits)

lemma cdir_loop_ok: "cdir_loop cd es = Inr es' \<Longrightarrow> \<forall>e \<in> set es. zip_entry_ok e \<Longrightarrow> \<forall>e \<in> set es'. zip_entry_ok e"
proof (induction cd es arbitrary: es' rule: cdir_loop.induct)
  case (1 cd es)
  show ?case
  proof (cases "46 \<le> length cd \<and> rd32 cd = SIG_CDIR")
    case True
    show ?thesis
    proof (cases "cdir_record cd")
      case None
      then show ?thesis using 1(3,4) True by (simp add: cdir_loop.simps)
    next
      case (Some en)
      obtain e n where en: "en = (e, n)" by (cases en)
      obtain name where p: "ze_path e = zip_path name" using cdir_record_path[OF Some[unfolded en]] by blast
      note u = 1(3)[unfolded cdir_loop.simps[of cd es]]
      show ?thesis
      proof (cases "ze_path e = [] \<or> last (ze_path e) = CHR ''/''")
        case skip: True
        then show ?thesis using 1(1)[OF True Some en[symmetric] skip _ 1(4), of es'] u True Some en by simp
      next
        case keep: False
        then have m: "ze_method e = 0 \<or> ze_method e = 8" using u True Some en by (auto split: if_splits)
        then have "zip_entry_ok e" using keep zip_path_plain[of name] p by (simp add: zip_entry_ok_def zip_path_ok_def)
        then show ?thesis
          using 1(2)[OF True Some en[symmetric] keep, of es'] u True Some en keep m 1(4) by (auto split: if_splits)
      qed
    qed
  next
    case False
    then have "cdir_loop cd es = Inr es" by (subst cdir_loop.simps) (rule if_not_P)
    then show ?thesis using 1(3,4) by simp
  qed
qed

end
