(* ===== verification/ZipProps.thy ===== *)
theory ZipProps
  imports ZipIndex
begin

text \<open>
  What \<open>zip_open\<close> makes of an archive: the form of every index it gives, and that it reads back the
  directory a ZIP64 writer writes. The writer here follows the format's description (4.3.12 to 4.3.16 and 4.5.3 of
  the application note), with the extra members only where a field does not fit 32 bits.
\<close>

section \<open>Little endian, written and read\<close>

definition put16 :: "u16 \<Rightarrow> bytes" where
  "put16 w = [ucast w, ucast (drop_bit 8 w)]"

definition put32 :: "u32 \<Rightarrow> bytes" where
  "put32 w = [ucast w, ucast (drop_bit 8 w), ucast (drop_bit 16 w), ucast (drop_bit 24 w)]"

definition put64 :: "u64 \<Rightarrow> bytes" where
  "put64 w = put32 (ucast w) @ put32 (ucast (drop_bit 32 w))"

named_theorems le_bytes

lemma put_length [simp]: "length (put16 a) = 2" "length (put32 b) = 4" "length (put64 c) = 8"
  by (simp_all add: put16_def put32_def put64_def)

lemma rd16_put16 [le_bytes]: "rd16 (put16 w @ r) = w"
  by (rule bit_word_eqI) (auto simp: rd16_def put16_def bit_simps)

lemma rd32_put32 [le_bytes]: "rd32 (put32 w @ r) = w"
proof (rule bit_word_eqI)
  fix n assume n: "n < LENGTH(32)"
  consider "n < 8" | "8 \<le> n" "n < 16" | "16 \<le> n" "n < 24" | "24 \<le> n" by linarith
  then show "bit (rd32 (put32 w @ r)) n = bit w n"
    by cases (use n in \<open>auto simp: rd32_def put32_def bit_simps\<close>)
qed

lemma rd64_put64 [le_bytes]: "rd64 (put64 w @ r) = w"
proof -
  have "drop 4 (put64 w @ r) = put32 (ucast (drop_bit 32 w)) @ r" by (simp add: put64_def)
  moreover have "rd32 (put64 w @ r) = ucast w" by (simp add: put64_def rd32_put32)
  ultimately have "rd64 (put64 w @ r) = ucast (ucast w :: u32) OR push_bit 32 (ucast (ucast (drop_bit 32 w) :: u32))"
    by (simp add: rd64_def rd32_put32)
  also have "\<dots> = w" by (rule bit_word_eqI) (auto simp: bit_simps)
  finally show ?thesis .
qed

lemma rd_put_only [le_bytes]: "rd16 (put16 w) = w" "rd32 (put32 v) = v" "rd64 (put64 x) = x"
  using rd16_put16[of w "[]"] rd32_put32[of v "[]"] rd64_put64[of x "[]"] by simp_all

section \<open>The writer\<close>

definition clip16 :: "u64 \<Rightarrow> u16" where
  "clip16 v = (if v \<ge> 0xFFFF then 0xFFFF else ucast v)"

definition clip32 :: "u64 \<Rightarrow> u32" where
  "clip32 v = (if v \<ge> 0xFFFFFFFF then 0xFFFFFFFF else ucast v)"

definition big :: "u64 \<Rightarrow> bool" where
  "big v \<longleftrightarrow> v \<ge> 0xFFFFFFFF"

definition of_chars :: "string \<Rightarrow> bytes" where
  "of_chars = map (\<lambda>c. of_nat (of_char c))"

definition zip64_members :: "zip_entry \<Rightarrow> bytes" where
  "zip64_members e =
     (if big (ze_size e) then put64 (ze_size e) else []) @ (if big (ze_csize e) then put64 (ze_csize e) else [])
     @ (if big (ze_header_offset e) then put64 (ze_header_offset e) else [])"

definition zip64_extra :: "zip_entry \<Rightarrow> bytes" where
  "zip64_extra e =
     (if zip64_members e = [] then []
      else put16 1 @ put16 (of_nat (length (zip64_members e))) @ zip64_members e)"

definition put_entry :: "zip_entry \<Rightarrow> bytes" where
  "put_entry e =
     put32 SIG_CDIR @ replicate 6 0 @ put16 (ze_method e) @ replicate 8 0
     @ put32 (clip32 (ze_csize e)) @ put32 (clip32 (ze_size e))
     @ put16 (of_nat (length (ze_path e))) @ put16 (of_nat (length (zip64_extra e))) @ put16 0 @ replicate 8 0
     @ put32 (clip32 (ze_header_offset e)) @ of_chars (ze_path e) @ zip64_extra e"

definition put_end64 :: "nat \<Rightarrow> nat \<Rightarrow> nat \<Rightarrow> bytes" where
  "put_end64 count cd_size cd_offset =
     put32 SIG_EOCD64 @ put64 44 @ replicate 20 0 @ put64 (of_nat count)
     @ put64 (of_nat cd_size) @ put64 (of_nat cd_offset)"

definition put_locator :: "nat \<Rightarrow> bytes" where
  "put_locator where_end = put32 SIG_LOC64 @ replicate 4 0 @ put64 (of_nat where_end) @ put32 1"

definition put_end :: "nat \<Rightarrow> nat \<Rightarrow> nat \<Rightarrow> nat \<Rightarrow> bytes" where
  "put_end count cd_size cd_offset comment_len =
     put32 SIG_EOCD @ replicate 6 0 @ put16 (clip16 (of_nat count)) @ put32 (clip32 (of_nat cd_size))
     @ put32 (clip32 (of_nat cd_offset)) @ put16 (of_nat comment_len)"

definition zip_write :: "bytes \<Rightarrow> zip_entry list \<Rightarrow> bytes \<Rightarrow> bytes" where
  "zip_write data es comment =
     (let cd = concat (map put_entry es) in
      data @ cd @ put_end64 (length es) (length cd) (length data) @ put_locator (length data + length cd)
      @ put_end (length es) (length cd) (length data) (length comment) @ comment)"

section \<open>One entry\<close>

lemma clip32_small: "\<not> big v \<Longrightarrow> (ucast (clip32 v) :: u64) = v"
proof -
  assume "\<not> big v"
  then have c: "clip32 v = ucast v" and v: "unat v < 2 ^ 32" by (simp_all add: clip32_def big_def word_le_nat_alt)
  show ?thesis
    by (rule word_unat_eq_iff[THEN iffD2]) (use v in \<open>simp add: c unsigned_ucast_eq take_bit_eq_mod unat_mod_distrib\<close>)
qed

lemma clip32_big: "(ucast (clip32 v) :: u64) = 0xFFFFFFFF \<longleftrightarrow> big v"
proof (cases "big v")
  case True
  then show ?thesis by (simp add: clip32_def big_def)
next
  case False
  then show ?thesis using clip32_small[OF False] by (auto simp: big_def)
qed

lemma to_of_chars: "to_chars (of_chars p) = p"
proof -
  have "char_of (unat (of_nat (of_char c) :: u8)) = c" for c
  proof -
    have "of_char c < (256 :: nat)" by simp
    then have "unat (of_nat (of_char c) :: u8) = of_char c" by (simp add: unat_of_nat)
    then show ?thesis by simp
  qed
  then show ?thesis by (simp add: to_chars_def of_chars_def comp_def)
qed

lemma zip_path_id: "zip_path_ok p \<Longrightarrow> zip_path p = p"
proof -
  assume a: "zip_path_ok p"
  have "map (\<lambda>c. if c = CHR 0x5C then CHR ''/'' else c) p = p"
    using a by (intro map_idI) (auto simp: zip_path_ok_def)
  moreover have "dropWhile (\<lambda>c. c = CHR ''/'') p = p"
    using a by (cases p) (simp_all add: zip_path_ok_def)
  ultimately show ?thesis by (simp add: zip_path_def)
qed

lemma members_length: "length (zip64_members e) \<le> 24"
  by (simp add: zip64_members_def)

lemma apply_zip64_extra_reads:
  assumes "ze_size e0 = ucast (clip32 (ze_size e))" "ze_csize e0 = ucast (clip32 (ze_csize e))"
    "ze_header_offset e0 = ucast (clip32 (ze_header_offset e))"
  shows "apply_zip64_extra (zip64_extra e) e0 (ze_size e0 = 0xFFFFFFFF) (ze_csize e0 = 0xFFFFFFFF)
      (ze_header_offset e0 = 0xFFFFFFFF)
    = e0\<lparr>ze_size := ze_size e, ze_csize := ze_csize e, ze_header_offset := ze_header_offset e\<rparr>"
proof -
  let ?m = "zip64_members e"
  have n: "ze_size e0 = 0xFFFFFFFF \<longleftrightarrow> big (ze_size e)" "ze_csize e0 = 0xFFFFFFFF \<longleftrightarrow> big (ze_csize e)"
    "ze_header_offset e0 = 0xFFFFFFFF \<longleftrightarrow> big (ze_header_offset e)" using assms by (simp_all add: clip32_big)
  have sm: "\<not> big (ze_size e) \<Longrightarrow> ze_size e0 = ze_size e" "\<not> big (ze_csize e) \<Longrightarrow> ze_csize e0 = ze_csize e"
    "\<not> big (ze_header_offset e) \<Longrightarrow> ze_header_offset e0 = ze_header_offset e"
    using assms by (simp_all add: clip32_small)
  show ?thesis
  proof (cases "?m = []")
    case True
    then have "\<not> big (ze_size e)" "\<not> big (ze_csize e)" "\<not> big (ze_header_offset e)"
      by (auto simp: zip64_members_def length_0_conv[symmetric] simp del: length_0_conv split: if_splits)
    then show ?thesis using sm True by (simp add: zip64_extra_def apply_zip64_extra.simps)
  next
    case False
    have l: "unat (of_nat (length ?m) :: u16) = length ?m" using members_length[of e] by (simp add: unat_of_nat)
    have x: "zip64_extra e = put16 1 @ put16 (of_nat (length ?m)) @ ?m" using False by (simp add: zip64_extra_def)
    have "apply_zip64_extra (zip64_extra e) e0 a b c
        = snd (take_member c (\<lambda>v e. e\<lparr>ze_header_offset := v\<rparr>)
            (take_member b (\<lambda>v e. e\<lparr>ze_csize := v\<rparr>) (take_member a (\<lambda>v e. e\<lparr>ze_size := v\<rparr>) (?m, e0))))" for a b c
      unfolding x by (subst apply_zip64_extra.simps) (simp add: le_bytes l Let_def)
    then show ?thesis
      unfolding n using sm
      by (auto simp: take_member_def zip64_members_def le_bytes)
  qed
qed


lemma put_entry_length [simp]: "length (put_entry e) = 46 + length (ze_path e) + length (zip64_extra e)"
  by (simp add: put_entry_def of_chars_def)

lemma extra_length: "length (zip64_extra e) \<le> 28"
  using members_length[of e] by (simp add: zip64_extra_def)

lemma put_entry_fields:
  assumes "p = put_entry e @ r"
  shows "rd32 p = SIG_CDIR" "rd16 (drop 10 p) = ze_method e" "rd32 (drop 20 p) = clip32 (ze_csize e)"
    "rd32 (drop 24 p) = clip32 (ze_size e)" "rd16 (drop 28 p) = of_nat (length (ze_path e))"
    "rd16 (drop 30 p) = of_nat (length (zip64_extra e))" "rd16 (drop 32 p) = 0"
    "rd32 (drop 42 p) = clip32 (ze_header_offset e)" "drop 46 p = of_chars (ze_path e) @ zip64_extra e @ r"
  unfolding assms put_entry_def by (simp_all add: le_bytes)

lemma cdir_record_put:
  assumes "zip_path_ok (ze_path e)" "length (ze_path e) < 2 ^ 16"
  shows "cdir_record (put_entry e @ r) = Some (e, length (put_entry e))"
proof -
  define p where "p = put_entry e @ r"
  note F = put_entry_fields[OF p_def]
  have n: "unat (of_nat (length (ze_path e)) :: u16) = length (ze_path e)" using assms(2) by (simp add: unat_of_nat)
  have x: "unat (of_nat (length (zip64_extra e)) :: u16) = length (zip64_extra e)"
    using extra_length[of e] by (simp add: unat_of_nat)
  have lp: "length (put_entry e) \<le> length p" by (simp add: p_def)
  have lo: "length (of_chars (ze_path e)) = length (ze_path e)" by (simp add: of_chars_def)
  have tl: "take (length (ze_path e)) (drop 46 p) = of_chars (ze_path e)" using F(9) lo by simp
  have "drop (46 + length (ze_path e)) p = drop (length (ze_path e)) (drop 46 p)" by (simp add: add.commute)
  then have dx: "take (length (zip64_extra e)) (drop (46 + length (ze_path e)) p) = zip64_extra e" using F(9) lo by simp
  define e0 where "e0 = \<lparr>ze_path = [], ze_size = ucast (clip32 (ze_size e)), ze_csize = ucast (clip32 (ze_csize e)),
    ze_header_offset = ucast (clip32 (ze_header_offset e)), ze_method = ze_method e\<rparr>"
  have a: "apply_zip64_extra (zip64_extra e) e0 (ze_size e0 = 0xFFFFFFFF) (ze_csize e0 = 0xFFFFFFFF)
      (ze_header_offset e0 = 0xFFFFFFFF)
    = e0\<lparr>ze_size := ze_size e, ze_csize := ze_csize e, ze_header_offset := ze_header_offset e\<rparr>"
    by (rule apply_zip64_extra_reads) (simp_all add: e0_def)
  have "cdir_record p = Some ((e0\<lparr>ze_size := ze_size e, ze_csize := ze_csize e, ze_header_offset := ze_header_offset e\<rparr>)
      \<lparr>ze_path := zip_path (to_chars (of_chars (ze_path e)))\<rparr>, length (put_entry e))"
    using lp unfolding cdir_record_def Let_def F(2-8) n x tl dx e0_def[symmetric] a by simp
  then show ?thesis using assms(1) by (simp add: p_def[symmetric] to_of_chars zip_path_id e0_def)
qed

lemma cdir_loop_put:
  "\<forall>e \<in> set es. zip_entry_ok e \<and> length (ze_path e) < 2 ^ 16
     \<Longrightarrow> cdir_loop (concat (map put_entry es)) acc = Inr (acc @ es)"
proof (induction es arbitrary: acc)
  case Nil
  then show ?case by (simp add: cdir_loop.simps)
next
  case (Cons e es)
  let ?r = "concat (map put_entry es)"
  have e: "zip_path_ok (ze_path e)" "ze_method e = 0 \<or> ze_method e = 8" "length (ze_path e) < 2 ^ 16"
    using Cons.prems by (simp_all add: zip_entry_ok_def)
  have k: "ze_path e \<noteq> []" "last (ze_path e) \<noteq> CHR ''/''" using e(1) by (simp_all add: zip_path_ok_def)
  have g: "46 \<le> length (put_entry e @ ?r) \<and> rd32 (put_entry e @ ?r) = SIG_CDIR"
    using put_entry_fields(1)[OF refl] by simp
  have "cdir_loop (put_entry e @ ?r) acc = cdir_loop ?r (acc @ [e])"
    by (subst cdir_loop.simps, unfold if_P[OF g] cdir_record_put[OF e(1,3)]) (use k e(2) in auto)
  then show ?case using Cons by simp
qed


section \<open>The whole archive\<close>

lemma eocd_scan_from:
  "rd32 (drop k tail) = SIG_EOCD \<Longrightarrow> k \<le> n \<Longrightarrow> \<forall>i. k < i \<and> i \<le> n \<longrightarrow> rd32 (drop i tail) \<noteq> SIG_EOCD
     \<Longrightarrow> eocd_scan tail n = Some k"
proof (induction n)
  case (Suc n)
  then show ?case by (cases "k = Suc n") auto
qed simp

lemma put_end_lengths [simp]:
  "length (put_end64 a b c) = 56" "length (put_locator d) = 20" "length (put_end a b c n) = 22"
  by (simp_all add: put_end64_def put_locator_def put_end_def)

lemma put_end64_fields:
  "rd32 (put_end64 a b c) = SIG_EOCD64" "rd64 (drop 32 (put_end64 a b c)) = of_nat a"
  "rd64 (drop 40 (put_end64 a b c)) = of_nat b" "rd64 (drop 48 (put_end64 a b c)) = of_nat c"
  by (simp_all add: put_end64_def le_bytes)

lemma put_locator_fields: "rd32 (put_locator d @ r) = SIG_LOC64" "rd64 (drop 8 (put_locator d @ r)) = of_nat d"
  by (simp_all add: put_locator_def le_bytes)

lemma put_end_sig: "rd32 (put_end a b c n @ r) = SIG_EOCD"
  by (simp add: put_end_def le_bytes)

definition bytes_file :: "bytes \<Rightarrow> hfile" where
  "bytes_file b = (\<lambda>pos n. Some (cut pos n b))"

lemma read_exact_bytes:
  "unat off = k \<Longrightarrow> k + n \<le> length b \<Longrightarrow> read_exact (bytes_file b) off n = Some (cut k n b)"
  by (auto simp add: read_exact_def bytes_file_def length_cut)

text \<open>No byte of the comment starts what looks like another end record.\<close>

definition comment_ok :: "zip_entry list \<Rightarrow> bytes \<Rightarrow> bytes \<Rightarrow> bool" where
  "comment_ok es data comment \<longleftrightarrow>
     length comment < 2 ^ 16
     \<and> (\<forall>i \<in> {1..length comment}. rd32 (drop i (put_end (length es) (length (concat (map put_entry es)))
            (length data) (length comment) @ comment)) \<noteq> SIG_EOCD)"

lemma zip_open_write:
  assumes es: "es \<noteq> []" "\<forall>e \<in> set es. zip_entry_ok e \<and> length (ze_path e) < 2 ^ 16"
    and len: "length (zip_write data es comment) < 2 ^ 63" and co: "comment_ok es data comment"
  shows "zip_open (\<lambda>_. True) path (Some (int (length (zip_write data es comment)), bytes_file (zip_write data es comment)))
    = Inr \<lparr>zi_path = path, zi_entries = es\<rparr>"
proof -
  define cd where "cd = concat (map put_entry es)"
  define f where "f = zip_write data es comment"
  define E where "E = put_end (length es) (length cd) (length data) (length comment) @ comment"
  define L where "L = put_locator (length data + length cd) @ E"
  define R where "R = put_end64 (length es) (length cd) (length data)"
  have f: "f = data @ cd @ R @ L"
    by (simp add: f_def zip_write_def Let_def cd_def[symmetric] E_def L_def R_def)
  have lE: "length E = 22 + length comment" and lL: "length L = 42 + length comment" and lR: "length R = 56"
    by (simp_all add: E_def L_def R_def)
  have lf: "length f = length data + length cd + 98 + length comment" by (simp add: f lL lR)
  have N: "length f < 2 ^ 63" using len by (simp add: f_def)
  have c16: "length comment < 2 ^ 16" using co by (simp add: comment_ok_def)
  define tl where "tl = min (length f) TAIL_LEN"
  have tl: "42 + length comment \<le> tl" "tl \<le> length f" using lf c16 by (auto simp: tl_def TAIL_LEN_def)
  define tail where "tail = drop (length f - tl) f"
  have un: "unat (of_nat n :: u64) = n" if "n \<le> length f" for n
    using that N by (simp add: unat_of_nat)
  have r1: "read_exact (bytes_file f) (of_nat (length f - tl)) tl = Some tail"
    using tl(2) by (subst read_exact_bytes[OF un]) (simp_all add: tail_def cut_def)
  have dl: "drop k f = drop (k - (length data + length cd + 56)) L" if "length data + length cd + 56 \<le> k" for k
    using that by (simp add: f lR)
  define eo where "eo = tl - 22 - length comment"
  have pos: "length f - tl + eo = length data + length cd + 56 + 20" using tl lf by (simp add: eo_def)
  have dE: "drop (eo + i) tail = drop i E" for i
  proof -
    have "drop (eo + i) tail = drop (length f - tl + eo + i) f" by (simp add: tail_def add_ac)
    also have "\<dots> = drop (20 + i) L" unfolding pos by (subst dl) simp_all
    also have "\<dots> = drop i E" by (simp add: L_def)
    finally show ?thesis .
  qed
  have scan: "eocd_scan tail (tl - 22) = Some eo"
  proof (rule eocd_scan_from)
    show "rd32 (drop eo tail) = SIG_EOCD" using dE[of 0] put_end_sig by (simp add: E_def)
    show "\<forall>i. eo < i \<and> i \<le> tl - 22 \<longrightarrow> rd32 (drop i tail) \<noteq> SIG_EOCD"
    proof (intro allI impI)
      fix i assume i: "eo < i \<and> i \<le> tl - 22"
      then have j: "i - eo \<in> {1..length comment}" "eo + (i - eo) = i" using tl by (auto simp: eo_def)
      show "rd32 (drop i tail) \<noteq> SIG_EOCD"
        using co[unfolded comment_ok_def cd_def[symmetric] E_def[symmetric], THEN conjunct2, rule_format, OF j(1)]
          dE[of "i - eo"] unfolding j(2) by simp
    qed
  qed (use tl in \<open>simp add: eo_def\<close>)
  have eo20: "20 \<le> eo" "eo + 20 \<le> tl" using tl by (simp_all add: eo_def)
  have "length f - tl + (eo - 20) = length data + length cd + 56" using pos eo20 by linarith
  then have dL: "drop (eo - 20) tail = L" using dl[of "length data + length cd + 56"]
    by (simp add: tail_def add.commute[of "eo - 20"])
  then have dL8: "drop (eo - 20 + 8) tail = drop 8 L" by (metis add.commute drop_drop)
  have loc: "rd32 L = SIG_LOC64" "rd64 (drop 8 L) = of_nat (length data + length cd)"
    unfolding L_def by (rule put_locator_fields)+
  have r2: "read_exact (bytes_file f) (of_nat (length data + length cd)) 56 = Some R"
    using lf by (subst read_exact_bytes[OF un]) (simp_all add: cut_def f R_def)
  have z64: "zip64_end (bytes_file f) tail eo = (of_nat (length es), of_nat (length cd), of_nat (length data))"
    using eo20(1) unfolding zip64_end_def Let_def dL dL8 loc r2 by (simp add: R_def put_end64_fields)
  have cd0: "0 < length cd" using es(1) by (cases es) (simp_all add: cd_def)
  have lens: "length cd \<le> length f" "length data \<le> length f" using lf by simp_all
  have r3: "read_exact (bytes_file f) (of_nat (length data)) (length cd) = Some cd"
    using lf by (subst read_exact_bytes[OF un]) (simp_all add: cut_def f)
  have w: "(of_nat (length cd) :: u64) \<noteq> 0" "\<not> (of_nat (length data) + of_nat (length cd) :: u64) > of_nat (length f)"
  proof -
    show "(of_nat (length cd) :: u64) \<noteq> 0" using un[OF lens(1)] cd0 by (metis unat_0 less_irrefl)
    have "(of_nat (length data) + of_nat (length cd) :: u64) = of_nat (length data + length cd)" by simp
    moreover have "unat (of_nat (length data + length cd) :: u64) = length data + length cd"
      using lf by (intro un) simp
    ultimately show "\<not> (of_nat (length data) + of_nat (length cd) :: u64) > of_nat (length f)"
      using lf un[of "length f"] by (simp only: word_less_nat_alt)
  qed
  have loop: "cdir_loop cd [] = Inr es" using cdir_loop_put[OF es(2), of "[]"] by (simp add: cd_def)
  have dir: "zip_directory (\<lambda>_. True) (bytes_file f) (of_nat (length f)) (of_nat (length es), of_nat (length cd), of_nat (length data))
      = Inr es"
    using w es(1) by (simp add: zip_directory_def un[OF lens(1)] r3 loop sbind_def)
  have g: "\<not> int (length f) \<le> 0" "\<not> tl < 4" "\<not> tl < eo + 20" using lf tl eo20 by simp_all
  show ?thesis
    unfolding f_def[symmetric] zip_open_def option.case prod.case if_not_P[OF g(1)] Let_def nat_int
      tl_def[symmetric] r1 if_not_P[OF g(2)] scan if_not_P[OF g(3)] z64 dir sbind_def sum.case
    by (rule refl)
qed

section \<open>The properties\<close>

text \<open>C28. Every index \<open>zip_open\<close> gives, whatever bytes the file holds, is one the filesystem can be built from:
  it has an entry, and each entry is stored or deflated, and its path is not empty, has no
  backslash, does not begin with a slash and is not the name of a directory.\<close>

theorem zip_open_index_is_sane:
  assumes "zip_open fits path found = Inr ix"
  shows "zi_path ix = path \<and> zi_entries ix \<noteq> [] \<and> (\<forall>e \<in> set (zi_entries ix). zip_entry_ok e)"
proof -
  have d: "es \<noteq> [] \<and> (\<forall>e \<in> set es. zip_entry_ok e)" if "zip_directory fits h n x = Inr es" for h n x es
    using that cdir_loop_ok[of _ "[]" es]
    by (auto simp: zip_directory_def sbind_def split: prod.splits if_splits option.splits sum.splits)
  have "\<exists>h n x. zip_directory fits h n x = Inr (zi_entries ix) \<and> zi_path ix = path"
    using assms
    by (auto simp: zip_open_def sbind_def Let_def simp del: split_paired_Ex split: option.splits prod.splits if_splits sum.splits)
      blast
  then show ?thesis using d by blast
qed

text \<open>C27. The directory of an archive comes back whole: when a ZIP64 archive is written, with any data, any
  entries (sizes and offsets beyond 4 GiB among them, each in the extra field only where it is needed) and any
  comment that holds no end record of its own, \<open>zip_open\<close> gives exactly its entries, in their order.\<close>

theorem zip64_directory_round_trip:
  assumes "es \<noteq> []" "\<forall>e \<in> set es. zip_entry_ok e \<and> length (ze_path e) < 2 ^ 16"
    "length (zip_write data es comment) < 2 ^ 63" "comment_ok es data comment"
  shows "zip_open (\<lambda>_. True) path (Some (int (length (zip_write data es comment)), bytes_file (zip_write data es comment)))
    = Inr \<lparr>zi_path = path, zi_entries = es\<rparr>"
  by (rule zip_open_write[OF assms])

text \<open>Two entries, one of them beyond 4 GiB, and a comment.\<close>

definition two_entries :: "zip_entry list" where
  "two_entries = [\<lparr>ze_path = ''PS3_GAME/PARAM.SFO'', ze_size = 10, ze_csize = 8, ze_header_offset = 0, ze_method = 8\<rparr>,
     \<lparr>ze_path = ''big'', ze_size = 0x123456789A, ze_csize = 0x123456789A, ze_header_offset = 0x100000000, ze_method = 0\<rparr>]"

lemma two_entries_ok:
  "\<forall>e \<in> set two_entries. zip_entry_ok e \<and> length (ze_path e) < 2 ^ 16"
  by (simp add: two_entries_def zip_entry_ok_def zip_path_ok_def)

lemma two_entries_length: "length (zip_write [1, 2] two_entries [7]) < 2 ^ 63"
  by (simp add: zip_write_def Let_def two_entries_def zip64_extra_def zip64_members_def big_def)

lemma two_entries_comment: "comment_ok two_entries [1, 2] [7]"
proof -
  have "rd32 (drop 1 (put_end n a b 1 @ [7])) = 0x6054B" if "n < 0xFFFF" for n a b
  proof -
    have "replicate 6 (0 :: u8) = [0, 0, 0, 0, 0, 0]" by (simp add: numeral_eq_Suc)
    then show ?thesis by (simp add: put_end_def put32_def SIG_EOCD_def rd32_def)
  qed
  then show ?thesis by (simp add: comment_ok_def SIG_EOCD_def two_entries_def)
qed

theorem zip_open_index_is_sane_witness:
  "list_all zip_entry_ok two_entries"
  using zip_open_index_is_sane[OF zip_open_write[OF _ two_entries_ok two_entries_length two_entries_comment]]
  by (simp add: two_entries_def list_all_iff)

theorem zip64_directory_round_trip_witness:
  "zip_open (\<lambda>_. True) ''g'' (Some (int (length (zip_write [1, 2] two_entries [7])), bytes_file (zip_write [1, 2] two_entries [7])))
    = Inr \<lparr>zi_path = ''g'', zi_entries = two_entries\<rparr>"
  by (rule zip64_directory_round_trip[OF _ two_entries_ok two_entries_length two_entries_comment])
    (simp add: two_entries_def)

end
