(* ===== verification/StreamCursor.thy ===== *)
theory StreamCursor
  imports ByteSource
begin

text \<open>
  A forward-only decoder read through a window of its compressed input: what
  \<open>waterbox/archive.cpp\<close> and \<open>waterbox/sevenzip.cpp\<close> both do around zlib's \<open>inflate\<close> and the LZMA
  SDK. The decoder is not in the repository. It is a function \<open>step d inp n\<close> from its state, the
  input at hand and the room for output to the new state, the input used, the output, and
  the status; \<open>decodes\<close> states what the libraries document of it.
\<close>

section \<open>The loop\<close>

record 'd cursor =
  cu_dec :: 'd
  cu_pend :: bytes
  cu_left :: nat
  cu_fpos :: nat
  cu_pos :: nat

definition WINDOW :: nat where "WINDOW = 64 * 1024"

definition refill :: "(nat \<Rightarrow> nat \<Rightarrow> bytes) \<Rightarrow> 'd cursor \<Rightarrow> 'd cursor" where
  "refill rd c =
     (let b = rd (cu_fpos c) (min WINDOW (cu_left c))
      in c\<lparr>cu_pend := b, cu_left := cu_left c - length b, cu_fpos := cu_fpos c + length b\<rparr>)"

text \<open>Decode until the room is used or \<open>stop\<close> says to: refill the window when it is empty and
  there is input left, give up when that reads nothing. A loop that goes round for good has no
  value.\<close>

partial_function (option) feed_loop ::
  "(nat \<Rightarrow> nat \<Rightarrow> bytes) \<Rightarrow> ('d \<Rightarrow> bytes \<Rightarrow> nat \<Rightarrow> 'd \<times> nat \<times> bytes \<times> 's)
     \<Rightarrow> ('s \<Rightarrow> nat \<Rightarrow> bytes \<Rightarrow> bytes \<Rightarrow> nat \<Rightarrow> bool) \<Rightarrow> nat \<Rightarrow> 'd cursor \<Rightarrow> bytes \<Rightarrow> (bytes \<times> 'd cursor) option"
where
  "feed_loop rd step stop room c acc =
     (if room = 0 then Some (acc, c)
      else let c1 = (if cu_pend c = [] \<and> cu_left c \<noteq> 0 then refill rd c else c)
        in if cu_pend c = [] \<and> cu_left c \<noteq> 0 \<and> cu_pend c1 = [] then Some (acc, c1)
           else case step (cu_dec c1) (cu_pend c1) room of (d, used, b, st) \<Rightarrow>
             let c2 = c1\<lparr>cu_dec := d, cu_pend := drop used (cu_pend c1)\<rparr>
             in if stop st used b (cu_pend c2) (cu_left c2) then Some (acc @ b, c2)
                else feed_loop rd step stop (room - length b) c2 (acc @ b))"

definition feed ::
  "(nat \<Rightarrow> nat \<Rightarrow> bytes) \<Rightarrow> ('d \<Rightarrow> bytes \<Rightarrow> nat \<Rightarrow> 'd \<times> nat \<times> bytes \<times> 's)
     \<Rightarrow> ('s \<Rightarrow> nat \<Rightarrow> bytes \<Rightarrow> bytes \<Rightarrow> nat \<Rightarrow> bool) \<Rightarrow> nat \<Rightarrow> 'd cursor \<Rightarrow> (bytes \<times> 'd cursor) option" where
  "feed rd step stop n c =
     map_option (\<lambda>(b, c'). (b, c'\<lparr>cu_pos := cu_pos c + length b\<rparr>)) (feed_loop rd step stop n c [])"

text \<open>The loop of both \<open>skip_to\<close>s: decode forward and drop what comes out, a window's worth at a time.\<close>

partial_function (option) skip_loop ::
  "(nat \<Rightarrow> 'd cursor \<Rightarrow> (bytes \<times> 'd cursor) option) \<Rightarrow> nat \<Rightarrow> 'd cursor \<Rightarrow> (bool \<times> 'd cursor) option" where
  "skip_loop take_next target c =
     (if cu_pos c < target
      then (case take_next (min WINDOW (target - cu_pos c)) c of
              None \<Rightarrow> None
            | Some (b, c') \<Rightarrow> if b = [] then Some (False, c') else skip_loop take_next target c')
      else Some (True, c))"

section \<open>What the libraries promise\<close>

text \<open>\<open>R d k p\<close>: the decoder is in state \<open>d\<close> after \<open>k\<close> bytes of the compressed stream and \<open>p\<close> bytes of
  output. It uses and produces what it can: it stops short of the room only when it has used
  all the input it was given, and then, at the end of the stream, when all has come out.\<close>

definition decodes ::
  "('d \<Rightarrow> bytes \<Rightarrow> nat \<Rightarrow> 'd \<times> nat \<times> bytes \<times> 's) \<Rightarrow> ('d \<Rightarrow> nat \<Rightarrow> nat \<Rightarrow> bool) \<Rightarrow> bytes \<Rightarrow> bytes \<Rightarrow> bool" where
  "decodes step R packed plain \<longleftrightarrow>
     (\<forall>d k p inp n d' used b st. R d k p \<longrightarrow> k + length inp \<le> length packed \<longrightarrow> inp = cut k (length inp) packed \<longrightarrow> 0 < n
        \<longrightarrow> step d inp n = (d', used, b, st) \<longrightarrow>
        R d' (k + used) (p + length b) \<and> used \<le> length inp \<and> length b \<le> n
        \<and> p + length b \<le> length plain \<and> b = cut p (length b) plain
        \<and> (length b = n \<or> p + length b = length plain
           \<or> used = length inp \<and> k + used \<noteq> length packed))"

lemma decodes_cong:
  assumes "decodes step R packed plain" "\<And>d k p inp n. R d k p \<Longrightarrow> step' d inp n = step d inp n"
  shows "decodes step' R packed plain"
  unfolding decodes_def
proof (intro allI impI)
  fix d k p inp n d' used b st
  assume a: "R d k p" "k + length inp \<le> length packed" "inp = cut k (length inp) packed" "0 < n"
    "step' d inp n = (d', used, b, st)"
  show "R d' (k + used) (p + length b) \<and> used \<le> length inp \<and> length b \<le> n
        \<and> p + length b \<le> length plain \<and> b = cut p (length b) plain
        \<and> (length b = n \<or> p + length b = length plain
           \<or> used = length inp \<and> k + used \<noteq> length packed)"
    using assms(1)[unfolded decodes_def, rule_format, OF a(1-4), of d' used b st] a(5) assms(2)[OF a(1)] by simp
qed

text \<open>\<open>stop\<close> ends the loop only when there is nothing more to be had.\<close>

definition stops_when_done ::
  "('d \<Rightarrow> bytes \<Rightarrow> nat \<Rightarrow> 'd \<times> nat \<times> bytes \<times> 's) \<Rightarrow> ('s \<Rightarrow> nat \<Rightarrow> bytes \<Rightarrow> bytes \<Rightarrow> nat \<Rightarrow> bool)
     \<Rightarrow> ('d \<Rightarrow> nat \<Rightarrow> nat \<Rightarrow> bool) \<Rightarrow> bytes \<Rightarrow> bytes \<Rightarrow> bool" where
  "stops_when_done step stop R packed plain \<longleftrightarrow>
     (\<forall>d k p inp n d' used b st left. R d k p \<longrightarrow> k + length inp + left = length packed \<longrightarrow> inp = cut k (length inp) packed
        \<longrightarrow> (inp = [] \<longrightarrow> left = 0) \<longrightarrow> 0 < n \<longrightarrow> p + n \<le> length plain
        \<longrightarrow> step d inp n = (d', used, b, st) \<longrightarrow> stop st used b (drop used inp) left \<longrightarrow> length b = n)"

section \<open>The cursor's invariant\<close>

definition cursor_ok :: "('d \<Rightarrow> nat \<Rightarrow> nat \<Rightarrow> bool) \<Rightarrow> bytes \<Rightarrow> nat \<Rightarrow> 'd cursor \<Rightarrow> bool" where
  "cursor_ok R packed start c \<longleftrightarrow>
     (\<exists>k. R (cu_dec c) k (cu_pos c) \<and> k + length (cu_pend c) + cu_left c = length packed
        \<and> cu_pend c = cut k (length (cu_pend c)) packed \<and> cu_fpos c = start + k + length (cu_pend c))"

lemma drop_cut: "drop i (cut k n xs) = cut (k + i) (n - i) xs"
  by (simp add: cut_def drop_take add.commute)

lemma length_cut_full: "k + n \<le> length xs \<Longrightarrow> length (cut k n xs) = n"
  by (simp add: length_cut)

lemma feed_loop_gives:
  assumes D: "decodes step R packed plain" and S: "stops_when_done step stop R packed plain"
    and F: "\<And>k n. k + n \<le> length packed \<Longrightarrow> rd (start + k) n = cut k n packed"
  shows "R (cu_dec c) k p \<Longrightarrow> k + length (cu_pend c) + cu_left c = length packed \<Longrightarrow>
     cu_pend c = cut k (length (cu_pend c)) packed \<Longrightarrow> cu_fpos c = start + k + length (cu_pend c) \<Longrightarrow>
     p + room \<le> length plain \<Longrightarrow>
     \<exists>c' k'. feed_loop rd step stop room c acc = Some (acc @ cut p room plain, c') \<and>
       R (cu_dec c') k' (p + room) \<and> k' + length (cu_pend c') + cu_left c' = length packed \<and>
       cu_pend c' = cut k' (length (cu_pend c')) packed \<and> cu_fpos c' = start + k' + length (cu_pend c')"
proof (induction "room + length (cu_pend c) + cu_left c" arbitrary: room c acc k p rule: less_induct)
  case less
  show ?case
  proof (cases "room = 0")
    case True
    then show ?thesis using less.prems by (subst feed_loop.simps) (auto simp: cut_def)
  next
    case False
    define c1 where "c1 = (if cu_pend c = [] \<and> cu_left c \<noteq> 0 then refill rd c else c)"
    have c1: "cu_dec c1 = cu_dec c" "k + length (cu_pend c1) + cu_left c1 = length packed"
      "cu_pend c1 = cut k (length (cu_pend c1)) packed" "cu_fpos c1 = start + k + length (cu_pend c1)"
      "cu_pend c1 = [] \<longrightarrow> cu_left c1 = 0" "length (cu_pend c1) + cu_left c1 = length (cu_pend c) + cu_left c"
    proof -
      let ?m = "min WINDOW (cu_left c)"
      have "cu_pend c = [] \<Longrightarrow> rd (cu_fpos c) ?m = cut k ?m packed"
        using less.prems by (simp add: F)
      moreover have "cu_pend c = [] \<Longrightarrow> length (cut k ?m packed) = ?m"
        using less.prems(2) by (simp add: length_cut_full)
      moreover have "cu_left c \<noteq> 0 \<Longrightarrow> 0 < ?m" by (simp add: WINDOW_def)
      ultimately show "cu_dec c1 = cu_dec c" "k + length (cu_pend c1) + cu_left c1 = length packed"
        "cu_pend c1 = cut k (length (cu_pend c1)) packed" "cu_fpos c1 = start + k + length (cu_pend c1)"
        "cu_pend c1 = [] \<longrightarrow> cu_left c1 = 0" "length (cu_pend c1) + cu_left c1 = length (cu_pend c) + cu_left c"
        using less.prems by (auto simp: c1_def refill_def Let_def)
    qed
    have nb: "\<not> (cu_pend c = [] \<and> cu_left c \<noteq> 0 \<and> cu_pend c1 = [])" using c1(5,6) by auto
    obtain d used b st where st: "step (cu_dec c1) (cu_pend c1) room = (d, used, b, st)"
      by (cases "step (cu_dec c1) (cu_pend c1) room") auto
    define c2 where "c2 = c1\<lparr>cu_dec := d, cu_pend := drop used (cu_pend c1)\<rparr>"
    have "R (cu_dec c1) k p" using less.prems(1) c1(1) by simp
    then have L: "R d (k + used) (p + length b)" "used \<le> length (cu_pend c1)" "length b \<le> room"
      "p + length b \<le> length plain" "b = cut p (length b) plain"
      "length b = room \<or> p + length b = length plain \<or> used = length (cu_pend c1) \<and> k + used \<noteq> length packed"
      and full: "stop st used b (drop used (cu_pend c1)) (cu_left c1) \<Longrightarrow> length b = room"
      using D[unfolded decodes_def, rule_format, OF _ _ c1(3) _ st, of p]
        S[unfolded stops_when_done_def, rule_format, OF _ c1(2,3) _ _ less.prems(5) st] c1(2,5) False by auto
    have C2: "k + used + length (cu_pend c2) + cu_left c2 = length packed"
      "cu_pend c2 = cut (k + used) (length (cu_pend c2)) packed" "cu_fpos c2 = start + (k + used) + length (cu_pend c2)"
      "cu_dec c2 = d" "cu_left c2 = cu_left c1" "cu_pend c2 = drop used (cu_pend c1)"
    proof -
      show "cu_dec c2 = d" "cu_left c2 = cu_left c1" and pe: "cu_pend c2 = drop used (cu_pend c1)" by (simp_all add: c2_def)
      show "k + used + length (cu_pend c2) + cu_left c2 = length packed" "cu_fpos c2 = start + (k + used) + length (cu_pend c2)"
        using c1(2,4) L(2) by (simp_all add: c2_def)
      show "cu_pend c2 = cut (k + used) (length (cu_pend c2)) packed"
        unfolding pe length_drop by (rule arg_cong[OF c1(3), of "drop used", unfolded drop_cut])
    qed
    have step: "feed_loop rd step stop room c acc =
        (if stop st used b (cu_pend c2) (cu_left c2) then Some (acc @ b, c2)
         else feed_loop rd step stop (room - length b) c2 (acc @ b))"
      by (subst feed_loop.simps, unfold Let_def c1_def[symmetric])
        (simp only: if_not_P[OF False] if_not_P[OF nb] st prod.case c2_def[symmetric])
    have fin: ?thesis if "length b = room" "feed_loop rd step stop room c acc = Some (acc @ b, c2)"
    proof -
      have e: "b = cut p room plain" by (rule L(5)[unfolded that(1)])
      have "R (cu_dec c2) (k + used) (p + room)" using L(1) unfolding C2(4) that(1) .
      then show ?thesis using that(2)[unfolded e] C2(1-3) by blast
    qed
    show ?thesis
    proof (cases "stop st used b (cu_pend c2) (cu_left c2)")
      case True
      then have "length b = room" by (intro full) (simp only: C2(5,6))
      then show ?thesis by (rule fin) (simp only: step True if_True)
    next
      case go: False
      show ?thesis
      proof (cases "length b = room")
        case True
        then show ?thesis
          by (rule fin) (simp only: step go if_False, simp add: True feed_loop.simps[of rd step stop 0])
      next
        case less_b: False
        then have u: "used = length (cu_pend c1)" "k + used \<noteq> length packed" using L(3,4,6) less.prems(5) by auto
        then have "0 < used" using c1(2,5) by (cases "cu_pend c1 = []") auto
        then have m: "(room - length b) + length (cu_pend c2) + cu_left c2 < room + length (cu_pend c) + cu_left c"
          using \<open>0 < used\<close> u(1) c1(6) L(3) unfolding C2(5,6) length_drop by linarith
        have pr: "p + length b + (room - length b) \<le> length plain" using less.prems(5) L(3) by simp
        have R2: "R (cu_dec c2) (k + used) (p + length b)" using L(1) C2(4) by simp
        from less.hyps[OF m R2 C2(1-3) pr, of "acc @ b"]
        obtain c' k' where r: "feed_loop rd step stop (room - length b) c2 (acc @ b) =
              Some ((acc @ b) @ cut (p + length b) (room - length b) plain, c')"
            "R (cu_dec c') k' (p + length b + (room - length b))" "k' + length (cu_pend c') + cu_left c' = length packed"
            "cu_pend c' = cut k' (length (cu_pend c')) packed" "cu_fpos c' = start + k' + length (cu_pend c')" by blast
        have "b @ cut (p + length b) (room - length b) plain = cut p room plain"
          using cut_append_cut[of p "length b" plain "room - length b"] L(3) by (simp flip: L(5))
        then have "feed_loop rd step stop room c acc = Some (acc @ cut p room plain, c')"
          using r(1) by (simp add: step go)
        moreover have "R (cu_dec c') k' (p + room)" using r(2) L(3) by simp
        ultimately show ?thesis using r(3-5) by blast
      qed
    qed
  qed
qed

lemma feed_gives:
  assumes D: "decodes step R packed plain" and S: "stops_when_done step stop R packed plain"
    and F: "\<And>k n. k + n \<le> length packed \<Longrightarrow> rd (start + k) n = cut k n packed"
    and c: "cursor_ok R packed start c" "cu_pos c + n \<le> length plain"
  shows "\<exists>c'. feed rd step stop n c = Some (cut (cu_pos c) n plain, c') \<and> cursor_ok R packed start c'
    \<and> cu_pos c' = cu_pos c + n"
proof -
  from c(1) obtain k where k: "R (cu_dec c) k (cu_pos c)" "k + length (cu_pend c) + cu_left c = length packed"
    "cu_pend c = cut k (length (cu_pend c)) packed" "cu_fpos c = start + k + length (cu_pend c)"
    unfolding cursor_ok_def by blast
  from feed_loop_gives[OF D S F k c(2), of "[]"]
  obtain c' k' where r: "feed_loop rd step stop n c [] = Some (cut (cu_pos c) n plain, c')"
    "R (cu_dec c') k' (cu_pos c + n)" "k' + length (cu_pend c') + cu_left c' = length packed"
    "cu_pend c' = cut k' (length (cu_pend c')) packed" "cu_fpos c' = start + k' + length (cu_pend c')" by auto
  have l: "length (cut (cu_pos c) n plain) = n" using c(2) by (rule length_cut_full)
  have "cursor_ok R packed start (c'\<lparr>cu_pos := cu_pos c + n\<rparr>)"
    unfolding cursor_ok_def using r(2-5) by (intro exI[of _ k']) simp
  then show ?thesis using r(1) l by (auto simp: feed_def)
qed

lemma skip_gives:
  assumes T: "\<And>n c. cursor_ok R packed start c \<Longrightarrow> cu_pos c + n \<le> bound \<Longrightarrow> n \<le> WINDOW \<Longrightarrow>
      \<exists>b c'. take_next n c = Some (b, c') \<and> cursor_ok R packed start c' \<and> cu_pos c' = cu_pos c + n \<and> length b = n"
    and "cursor_ok R packed start c" "cu_pos c \<le> target" "target \<le> bound"
  shows "\<exists>c'. skip_loop take_next target c = Some (True, c') \<and> cursor_ok R packed start c' \<and> cu_pos c' = target"
  using assms(2-4)
proof (induction "target - cu_pos c" arbitrary: c rule: less_induct)
  case less
  show ?case
  proof (cases "cu_pos c < target")
    case False
    then show ?thesis using less.prems by (subst skip_loop.simps) auto
  next
    case True
    let ?n = "min WINDOW (target - cu_pos c)"
    have n: "0 < ?n" "cu_pos c + ?n \<le> target" using True by (auto simp: WINDOW_def)
    obtain b c' where r: "take_next ?n c = Some (b, c')" "cursor_ok R packed start c'" "cu_pos c' = cu_pos c + ?n" "length b = ?n"
      using T[OF less.prems(1), of ?n] n(2) less.prems(3) by fastforce
    have "b \<noteq> []" using r(4) n(1) by auto
    then have "skip_loop take_next target c = skip_loop take_next target c'"
      using True r(1) by (subst skip_loop.simps) simp
    moreover have "target - cu_pos c' < target - cu_pos c" "cu_pos c' \<le> target" using n r(3) True by auto
    ultimately show ?thesis using less.hyps[OF _ r(2) _ less.prems(3)] by simp
  qed
qed

end
