(* ===== verification/ZipStream.thy ===== *)
theory ZipStream
  imports ZipIndex StreamCursor
begin

text \<open>
  One open entry of a zip archive: \<open>zip_stream\<close> of \<open>waterbox/archive.cpp\<close>. zlib is not in the
  repository; \<open>zlib\<close> is what the code uses of it (\<open>inflateInit2\<close>, and \<open>inflate\<close> as a step on its
  state). A cleared \<open>z_stream\<close>, which is what a failed \<open>inflateInit2\<close> leaves, is \<open>zl_zero\<close>.
\<close>

section \<open>State\<close>

record 'd zlib =
  zl_init :: "'d option"
  zl_zero :: 'd
  zl_inflate :: "'d \<Rightarrow> bytes \<Rightarrow> nat \<Rightarrow> 'd \<times> nat \<times> bytes \<times> int"

definition Z_OK :: int where "Z_OK = 0"

record 'd zip_stream =
  zs_file :: "hfile option"
  zs_resolved :: bool
  zs_data_offset :: u64
  zs_cursor :: "'d cursor option"

definition new_zip_stream :: "hfile option \<Rightarrow> 'd zip_stream" where
  "new_zip_stream f = \<lparr>zs_file = f, zs_resolved = False, zs_data_offset = 0, zs_cursor = None\<rparr>"

definition file_read :: "hfile \<Rightarrow> nat \<Rightarrow> nat \<Rightarrow> bytes" where
  "file_read h pos n = (case h pos n of None \<Rightarrow> [] | Some b \<Rightarrow> b)"

section \<open>Operations\<close>

definition ensure_data_offset :: "zip_entry \<Rightarrow> 'd zip_stream \<Rightarrow> bool \<times> 'd zip_stream" where
  "ensure_data_offset e s =
     (if zs_resolved s then (True, s)
      else case zs_file s of
        None \<Rightarrow> (False, s)
      | Some h \<Rightarrow>
          (case read_exact h (ze_header_offset e) 30 of
             None \<Rightarrow> (False, s)
           | Some hdr \<Rightarrow>
               if rd32 hdr \<noteq> SIG_LOCAL then (False, s)
               else (True, s\<lparr>zs_data_offset := ze_header_offset e + 30 + ucast (rd16 (drop 26 hdr))
                                 + ucast (rd16 (drop 28 hdr)), zs_resolved := True\<rparr>)))"

text \<open>The cursor as the fields hold it; before the first restart the file stands behind the local header.\<close>

definition old_cursor :: "'d zlib \<Rightarrow> zip_entry \<Rightarrow> 'd zip_stream \<Rightarrow> 'd cursor" where
  "old_cursor z e s = (case zs_cursor s of Some c \<Rightarrow> c
     | None \<Rightarrow> \<lparr>cu_dec = zl_zero z, cu_pend = [], cu_left = 0,
               cu_fpos = unat (ze_header_offset e) + 30, cu_pos = 0\<rparr>)"

text \<open>\<open>restart\<close>. A seek fails for an offset that is negative as a \<open>long\<close>; the cursor is set up all the same.\<close>

definition restart_zip :: "'d zlib \<Rightarrow> zip_entry \<Rightarrow> 'd zip_stream \<Rightarrow> bool \<times> 'd zip_stream" where
  "restart_zip z e s =
     (case zl_init z of
        None \<Rightarrow> (False, s\<lparr>zs_cursor := Some ((old_cursor z e s)\<lparr>cu_dec := zl_zero z, cu_pend := []\<rparr>)\<rparr>)
      | Some d \<Rightarrow>
          (let can = unat (zs_data_offset s) < 2 ^ 63
           in (can, s\<lparr>zs_cursor := Some \<lparr>cu_dec = d, cu_pend = [], cu_left = unat (ze_csize e),
                        cu_fpos = (if can then unat (zs_data_offset s) else cu_fpos (old_cursor z e s)), cu_pos = 0\<rparr>\<rparr>)))"

text \<open>The loop of \<open>read_at\<close> ends at any status but \<open>Z_OK\<close>, and when all the input is used up. It gives at
  most \<open>0xFFFFFFFF\<close> bytes at a time.\<close>

definition zip_stop :: "int \<Rightarrow> nat \<Rightarrow> bytes \<Rightarrow> bytes \<Rightarrow> nat \<Rightarrow> bool" where
  "zip_stop rc used b pend left \<longleftrightarrow> rc \<noteq> Z_OK \<or> pend = [] \<and> left = 0"

definition inflate_next :: "'d zlib \<Rightarrow> hfile \<Rightarrow> nat \<Rightarrow> 'd cursor \<Rightarrow> (bytes \<times> 'd cursor) option" where
  "inflate_next z h n c = feed (file_read h) (zl_inflate z) zip_stop (min n 0xFFFFFFFF) c"

definition zip_skip_to :: "'d zlib \<Rightarrow> hfile \<Rightarrow> nat \<Rightarrow> 'd cursor \<Rightarrow> (bool \<times> 'd cursor) option" where
  "zip_skip_to z h offset c = skip_loop (inflate_next z h) offset c"

definition stored_read :: "hfile \<Rightarrow> u64 \<Rightarrow> nat \<Rightarrow> bytes" where
  "stored_read h base n = (if unat base < 2 ^ 63 then file_read h (unat base) n else [])"

text \<open>The deflated half of \<open>read_at\<close>, from the cursor.\<close>

definition inflate_at :: "'d zlib \<Rightarrow> hfile \<Rightarrow> zip_entry \<Rightarrow> nat \<Rightarrow> nat \<Rightarrow> 'd zip_stream \<Rightarrow> (bytes \<times> 'd zip_stream) option" where
  "inflate_at z h e offset n s =
     (case (if zs_cursor s = None \<or> offset < cu_pos (old_cursor z e s) then restart_zip z e s else (True, s)) of
        (False, s1) \<Rightarrow> Some ([], s1)
      | (True, s1) \<Rightarrow>
          (case zip_skip_to z h offset (old_cursor z e s1) of
             None \<Rightarrow> None
           | Some (False, c) \<Rightarrow> Some ([], s1\<lparr>zs_cursor := Some c\<rparr>)
           | Some (True, c) \<Rightarrow>
               map_option (\<lambda>(b, c'). (b, s1\<lparr>zs_cursor := Some c'\<rparr>)) (inflate_next z h n c)))"

definition zip_read_at :: "'d zlib \<Rightarrow> zip_entry \<Rightarrow> nat \<Rightarrow> nat \<Rightarrow> 'd zip_stream \<Rightarrow> (bytes \<times> 'd zip_stream) option" where
  "zip_read_at z e offset len s =
     (case zs_file s of
        None \<Rightarrow> Some ([], s)
      | Some h \<Rightarrow>
          (case ensure_data_offset e s of
             (False, s1) \<Rightarrow> Some ([], s1)
           | (True, s1) \<Rightarrow>
               if unat (ze_size e) \<le> offset \<or> len = 0 then Some ([], s1)
               else let n = min len (unat (ze_size e) - offset) in
                 if ze_method e = 0 then Some (stored_read h (zs_data_offset s1 + of_nat offset) n, s1)
                 else inflate_at z h e offset n s1))"

section \<open>What an entry holds\<close>

text \<open>\<open>inflate_ok\<close> is zlib's contract on a valid raw deflate stream \<open>packed\<close> of \<open>plain\<close>: it decodes, and any
  status but \<open>Z_OK\<close> is the end of the stream or no progress at all.\<close>

definition inflate_ok :: "'d zlib \<Rightarrow> ('d \<Rightarrow> nat \<Rightarrow> nat \<Rightarrow> bool) \<Rightarrow> bytes \<Rightarrow> bytes \<Rightarrow> bool" where
  "inflate_ok z R packed plain \<longleftrightarrow>
     (\<exists>d. zl_init z = Some d \<and> R d 0 0) \<and> decodes (zl_inflate z) R packed plain
     \<and> (\<forall>d k p inp n d' used b rc. R d k p \<longrightarrow> zl_inflate z d inp n = (d', used, b, rc) \<longrightarrow> rc \<noteq> Z_OK
          \<longrightarrow> p + length b = length plain \<or> used = 0 \<and> b = [])"

definition data_at :: "hfile \<Rightarrow> zip_entry \<Rightarrow> u64 option" where
  "data_at h e =
     (case read_exact h (ze_header_offset e) 30 of
        None \<Rightarrow> None
      | Some hdr \<Rightarrow> if rd32 hdr = SIG_LOCAL
                    then Some (ze_header_offset e + 30 + ucast (rd16 (drop 26 hdr)) + ucast (rd16 (drop 28 hdr)))
                    else None)"

definition zip_entry_holds ::
  "'d zlib \<Rightarrow> ('d \<Rightarrow> nat \<Rightarrow> nat \<Rightarrow> bool) \<Rightarrow> hfile \<Rightarrow> zip_entry \<Rightarrow> bytes \<Rightarrow> bytes \<Rightarrow> bool" where
  "zip_entry_holds z R h e packed plain \<longleftrightarrow>
     (\<exists>base. data_at h e = Some base \<and> unat base + length packed < 2 ^ 63
        \<and> (\<forall>k n. k + n \<le> length packed \<longrightarrow> file_read h (unat base + k) n = cut k n packed))
     \<and> unat (ze_csize e) = length packed \<and> unat (ze_size e) = length plain
     \<and> (if ze_method e = 0 then packed = plain else inflate_ok z R packed plain)"

text \<open>A stream of the entry, after any reads.\<close>

definition zip_stream_ok ::
  "'d zlib \<Rightarrow> ('d \<Rightarrow> nat \<Rightarrow> nat \<Rightarrow> bool) \<Rightarrow> hfile \<Rightarrow> zip_entry \<Rightarrow> bytes \<Rightarrow> bytes \<Rightarrow> 'd zip_stream \<Rightarrow> bool" where
  "zip_stream_ok z R h e packed plain s \<longleftrightarrow>
     zs_file s = Some h \<and> zip_entry_holds z R h e packed plain
     \<and> (zs_resolved s \<longrightarrow> data_at h e = Some (zs_data_offset s))
     \<and> (\<forall>c. zs_cursor s = Some c \<longrightarrow> ze_method e \<noteq> 0 \<and> zs_resolved s
          \<and> cursor_ok R packed (unat (zs_data_offset s)) c)"

lemma inflate_stops_when_done:
  assumes "inflate_ok z R packed plain"
  shows "stops_when_done (zl_inflate z) zip_stop R packed plain"
  unfolding stops_when_done_def
proof (intro allI impI)
  fix d k p inp n d' used b st left
  assume a: "R d k p" "k + length inp + left = length packed" "inp = cut k (length inp) packed"
    "inp = [] \<longrightarrow> left = 0" "0 < n" "p + n \<le> length plain" "zl_inflate z d inp n = (d', used, b, st)"
    "zip_stop st used b (drop used inp) left"
  have k: "k + length inp \<le> length packed" using a(2) by simp
  note D = assms[unfolded inflate_ok_def, THEN conjunct2, THEN conjunct1, unfolded decodes_def, rule_format,
      OF a(1) k a(3,5,7)]
  have E: "st \<noteq> Z_OK \<Longrightarrow> p + length b = length plain \<or> used = 0 \<and> b = []"
    using assms a(1,7) unfolding inflate_ok_def by blast
  show "length b = n"
  proof (cases "st = Z_OK")
    case True
    then have "length inp \<le> used" "left = 0" using a(8) by (simp_all add: zip_stop_def)
    then show ?thesis using D a(2,6) by auto
  next
    case False
    then show ?thesis using E[OF False] D a(2,4,5,6) by auto
  qed
qed

lemma inflate_next_gives:
  assumes "inflate_ok z R packed plain"
    and "\<And>k n. k + n \<le> length packed \<Longrightarrow> file_read h (start + k) n = cut k n packed"
    and "cursor_ok R packed start c" "cu_pos c + n \<le> length plain" "n < 2 ^ 32"
  shows "\<exists>c'. inflate_next z h n c = Some (cut (cu_pos c) n plain, c') \<and> cursor_ok R packed start c'
    \<and> cu_pos c' = cu_pos c + n"
proof -
  have m: "min n 0xFFFFFFFF = n" using assms(5) by simp
  show ?thesis unfolding inflate_next_def m
    using feed_gives[OF assms(1)[unfolded inflate_ok_def, THEN conjunct2, THEN conjunct1]
        inflate_stops_when_done[OF assms(1)] assms(2-4)] .
qed

lemma zip_skip_gives:
  assumes "inflate_ok z R packed plain"
    and "\<And>k n. k + n \<le> length packed \<Longrightarrow> file_read h (start + k) n = cut k n packed"
    and "cursor_ok R packed start c" "cu_pos c \<le> offset" "offset \<le> length plain"
  shows "\<exists>c'. zip_skip_to z h offset c = Some (True, c') \<and> cursor_ok R packed start c' \<and> cu_pos c' = offset"
  unfolding zip_skip_to_def
proof (rule skip_gives[OF _ assms(3-5)])
  fix n c
  assume c: "cursor_ok R packed start c" "cu_pos c + n \<le> length plain" "n \<le> WINDOW"
  have "n < 2 ^ 32" using c(3) by (simp add: WINDOW_def)
  from inflate_next_gives[OF assms(1,2) c(1,2) this] length_cut_full[OF c(2)]
  show "\<exists>b c'. inflate_next z h n c = Some (b, c') \<and> cursor_ok R packed start c' \<and> cu_pos c' = cu_pos c + n \<and> length b = n"
    by blast
qed

lemma inflate_at_gives:
  assumes "zip_stream_ok z R h e packed plain s" "zs_resolved s" "ze_method e \<noteq> 0"
    "offset + n \<le> length plain" "n < 2 ^ 32"
  shows "\<exists>s'. inflate_at z h e offset n s = Some (cut offset n plain, s') \<and> zip_stream_ok z R h e packed plain s'"
proof -
  note s = assms(1)[unfolded zip_stream_ok_def]
  obtain base where base: "data_at h e = Some base" "unat base + length packed < 2 ^ 63"
    "\<And>k n. k + n \<le> length packed \<Longrightarrow> file_read h (unat base + k) n = cut k n packed"
    and sizes: "unat (ze_csize e) = length packed" and I: "inflate_ok z R packed plain"
    using s assms(3) unfolding zip_entry_holds_def by auto
  have d: "zs_data_offset s = base" using s assms(2) base(1) by simp
  define again where "again = (zs_cursor s = None \<or> offset < cu_pos (old_cursor z e s))"
  define s1 where "s1 = snd (if again then restart_zip z e s else (True, s))"
  obtain d0 where d0: "zl_init z = Some d0" "R d0 0 0" using I unfolding inflate_ok_def by blast
  have s1: "(if again then restart_zip z e s else (True, s)) = (True, s1)"
    using d0(1) base(2) by (simp add: s1_def restart_zip_def Let_def d)
  obtain c0 where c0: "s1 = s\<lparr>zs_cursor := Some c0\<rparr>" "cursor_ok R packed (unat base) c0" "cu_pos c0 \<le> offset"
  proof (cases again)
    case True
    let ?c = "\<lparr>cu_dec = d0, cu_pend = [], cu_left = length packed, cu_fpos = unat base, cu_pos = 0\<rparr>"
    have "s1 = s\<lparr>zs_cursor := Some ?c\<rparr>"
      using True d0(1) base(2) by (simp add: s1_def restart_zip_def Let_def d sizes)
    moreover have "cursor_ok R packed (unat base) ?c" using d0(2) by (simp add: cursor_ok_def cut_def)
    ultimately show ?thesis by (intro that[of ?c]) simp_all
  next
    case False
    then have "s1 = s" "zs_cursor s = Some (old_cursor z e s)" "cu_pos (old_cursor z e s) \<le> offset"
      by (auto simp: s1_def again_def old_cursor_def)
    then show ?thesis using s d by (intro that[of "old_cursor z e s"]) auto
  qed
  have oc: "old_cursor z e s1 = c0" by (simp add: c0(1) old_cursor_def)
  have len: "offset \<le> length plain" using assms(4) by simp
  from zip_skip_gives[OF I base(3) c0(2,3) len]
  obtain c where c: "zip_skip_to z h offset c0 = Some (True, c)" "cursor_ok R packed (unat base) c" "cu_pos c = offset"
    by blast
  have r: "cu_pos c + n \<le> length plain" using c(3) assms(4) by simp
  from inflate_next_gives[OF I base(3) c(2) r assms(5)]
  obtain c' where c': "inflate_next z h n c = Some (cut offset n plain, c')" "cursor_ok R packed (unat base) c'"
    unfolding c(3) by blast
  have "inflate_at z h e offset n s = Some (cut offset n plain, s1\<lparr>zs_cursor := Some c'\<rparr>)"
    unfolding inflate_at_def again_def[symmetric] s1 by (simp add: oc c(1) c'(1))
  moreover have "s1\<lparr>zs_cursor := Some c'\<rparr> = s\<lparr>zs_cursor := Some c'\<rparr>" by (simp add: c0(1))
  moreover have "zip_stream_ok z R h e packed plain (s\<lparr>zs_cursor := Some c'\<rparr>)"
    using s c'(2) assms(2,3) d by (simp add: zip_stream_ok_def)
  ultimately show ?thesis by auto
qed

section \<open>Reads\<close>

lemma ensure_data_offset_gives:
  assumes "zip_stream_ok z R h e packed plain s"
  shows "\<exists>s'. ensure_data_offset e s = (True, s') \<and> zip_stream_ok z R h e packed plain s' \<and> zs_resolved s'"
proof (cases "zs_resolved s")
  case True
  then show ?thesis using assms by (simp add: ensure_data_offset_def)
next
  case False
  note s = assms[unfolded zip_stream_ok_def]
  obtain base where "data_at h e = Some base" using s unfolding zip_entry_holds_def by blast
  then obtain hdr where hdr: "read_exact h (ze_header_offset e) 30 = Some hdr" "rd32 hdr = SIG_LOCAL"
    "ze_header_offset e + 30 + ucast (rd16 (drop 26 hdr)) + ucast (rd16 (drop 28 hdr)) = base" "data_at h e = Some base"
    by (auto simp: data_at_def split: option.splits if_splits)
  have "ensure_data_offset e s = (True, s\<lparr>zs_data_offset := base, zs_resolved := True\<rparr>)"
    using s False by (simp add: ensure_data_offset_def hdr)
  moreover have "zs_cursor s = None" using s False by auto
  ultimately show ?thesis using s hdr(4) by (simp add: zip_stream_ok_def)
qed

lemma stored_read_gives:
  assumes "zip_stream_ok z R h e packed plain s" "zs_resolved s" "ze_method e = 0" "offset + n \<le> length plain"
  shows "stored_read h (zs_data_offset s + of_nat offset) n = cut offset n plain"
proof -
  obtain base where base: "data_at h e = Some base" "unat base + length packed < 2 ^ 63"
    "\<forall>k n. k + n \<le> length packed \<longrightarrow> file_read h (unat base + k) n = cut k n packed" and p: "packed = plain"
    using assms(1,3) unfolding zip_stream_ok_def zip_entry_holds_def by auto
  have "zs_data_offset s = base" using assms(1,2) base(1) by (simp add: zip_stream_ok_def)
  moreover have "unat (base + of_nat offset) = unat base + offset"
    using base(2) assms(4) p by (subst unat_add_lem[THEN iffD1]) (simp_all add: unat_of_nat)
  ultimately show ?thesis using base(2,3) assms(4) p by (simp add: stored_read_def)
qed

lemma zip_read_gives:
  assumes "zip_stream_ok z R h e packed plain s" "min n (length plain - offset) < 2 ^ 32"
  shows "\<exists>s'. zip_read_at z e offset n s = Some (cut offset n plain, s') \<and> zip_stream_ok z R h e packed plain s'"
proof -
  obtain s1 where s1: "ensure_data_offset e s = (True, s1)" "zip_stream_ok z R h e packed plain s1" "zs_resolved s1"
    using ensure_data_offset_gives[OF assms(1)] by blast
  have f: "zs_file s = Some h" "unat (ze_size e) = length plain"
    using assms(1) by (simp_all add: zip_stream_ok_def zip_entry_holds_def)
  let ?m = "min n (length plain - offset)"
  show ?thesis
  proof (cases "length plain \<le> offset \<or> n = 0")
    case True
    then have "cut offset n plain = []" by (auto simp: cut_def)
    then show ?thesis using True s1 f by (simp add: zip_read_at_def)
  next
    case False
    then have m: "offset + ?m \<le> length plain" by linarith
    have r: "zip_read_at z e offset n s =
        (if ze_method e = 0 then Some (stored_read h (zs_data_offset s1 + of_nat offset) ?m, s1)
         else inflate_at z h e offset ?m s1)"
      using False f s1(1) by (simp add: zip_read_at_def)
    show ?thesis
    proof (cases "ze_method e = 0")
      case True
      then show ?thesis
        unfolding r using stored_read_gives[OF s1(2,3) True m] s1(2) by (simp add: cut_min[OF refl])
    next
      case False
      then show ?thesis
        unfolding r using inflate_at_gives[OF s1(2,3) False m assms(2)] by (simp add: cut_min[OF refl])
    qed
  qed
qed

text \<open>An open entry as a source of bytes for the filesystem's mirrors.\<close>

definition zip_source :: "'d zlib \<Rightarrow> zip_entry \<Rightarrow> 'd zip_stream \<Rightarrow> nat \<Rightarrow> nat \<Rightarrow> bytes \<times> 'd zip_stream" where
  "zip_source z e s offset n = (case zip_read_at z e offset n s of None \<Rightarrow> ([], s) | Some r \<Rightarrow> r)"

lemma zip_source_gives:
  assumes "zip_stream_ok z R h e packed plain s \<and> length plain < 2 ^ 32"
  shows "fst (zip_source z e s off n) = cut off n plain"
    and "zip_stream_ok z R h e packed plain (snd (zip_source z e s off n)) \<and> length plain < 2 ^ 32"
proof -
  have "min n (length plain - off) < 2 ^ 32" using assms by auto
  then obtain s' where "zip_read_at z e off n s = Some (cut off n plain, s')" "zip_stream_ok z R h e packed plain s'"
    using zip_read_gives assms by blast
  then show "fst (zip_source z e s off n) = cut off n plain"
    "zip_stream_ok z R h e packed plain (snd (zip_source z e s off n)) \<and> length plain < 2 ^ 32"
    using assms by (simp_all add: zip_source_def)
qed

interpretation zip: byte_source "zip_source z e" "\<lambda>s. zip_stream_ok z R h e packed plain s \<and> length plain < 2 ^ 32" plain
  by unfold_locales (fact zip_source_gives(2), fact zip_source_gives(1))

fun zip_reads :: "'d zlib \<Rightarrow> zip_entry \<Rightarrow> (nat \<times> nat) list \<Rightarrow> 'd zip_stream \<Rightarrow> bytes list option" where
  "zip_reads z e [] s = Some []"
| "zip_reads z e ((offset, n) # rs) s =
     (case zip_read_at z e offset n s of None \<Rightarrow> None
      | Some (b, s') \<Rightarrow> map_option ((#) b) (zip_reads z e rs s'))"

lemma zip_reads_give:
  "zip_stream_ok z R h e packed plain s \<Longrightarrow> \<forall>(offset, n) \<in> set rs. n < 2 ^ 32
     \<Longrightarrow> zip_reads z e rs s = Some (map (\<lambda>(offset, n). cut offset n plain) rs)"
proof (induction rs arbitrary: s)
  case (Cons r rs)
  obtain offset n where r: "r = (offset, n)" by (cases r)
  have n: "min n (length plain - offset) < 2 ^ 32" using Cons.prems(2) r by auto
  from zip_read_gives[OF Cons.prems(1) n]
  obtain s' where s': "zip_read_at z e offset n s = Some (cut offset n plain, s')" "zip_stream_ok z R h e packed plain s'"
    by blast
  have "zip_reads z e rs s' = Some (map (\<lambda>(offset, n). cut offset n plain) rs)"
    using Cons.IH[OF s'(2)] Cons.prems(2) by simp
  then show ?case by (simp add: r s'(1))
qed simp

lemma new_zip_stream_ok:
  "zip_entry_holds z R h e packed plain \<Longrightarrow> zip_stream_ok z R h e packed plain (new_zip_stream (Some h))"
  by (simp add: zip_stream_ok_def new_zip_stream_def)

text \<open>C26. An entry reads like a file: whatever reads are made through one open entry, in any order, going
  forward, backward or past the end, each ends and gives the stretch of the uncompressed entry it
  asks for (short at its end), for a stored entry as for a deflated one. So the cursor, the seek
  forward and the restart cannot be told from a seekable file.\<close>

theorem zip_entry_reads_like_a_file:
  assumes "zip_entry_holds z R h e packed plain" "\<forall>(offset, n) \<in> set rs. n < 2 ^ 32"
  shows "zip_reads z e rs (new_zip_stream (Some h)) = Some (map (\<lambda>(offset, n). take n (drop offset plain)) rs)"
  using zip_reads_give[OF new_zip_stream_ok[OF assms(1)] assms(2)] by (simp add: cut_def)

text \<open>A deflated entry of five bytes behind a local header, under a decoder that flips every bit.\<close>

definition flip_zlib :: "nat zlib" where
  "flip_zlib = \<lparr>zl_init = Some 0, zl_zero = 0,
     zl_inflate = (\<lambda>k inp n. (k + min n (length inp), min n (length inp), map not (take n inp), Z_OK))\<rparr>"

definition flip_file :: "bytes" where
  "flip_file = [0x50, 0x4b, 3, 4] @ replicate 26 0 @ [1, 2, 3, 4, 5]"

definition flip_entry :: zip_entry where
  "flip_entry = \<lparr>ze_path = ''a'', ze_size = 5, ze_csize = 5, ze_header_offset = 0, ze_method = 8\<rparr>"

lemma flip_inflate_ok: "inflate_ok flip_zlib (\<lambda>d k p. d = k \<and> p = k) packed (map not packed)"
proof -
  have "decodes (zl_inflate flip_zlib) (\<lambda>d k p. d = k \<and> p = k) packed (map not packed)"
    unfolding decodes_def flip_zlib_def
  proof (intro allI impI, goal_cases)
    case (1 d k p inp n d' used b st)
    have u: "used = min n (length inp)" "b = map not (take n inp)" "d' = d + used" using 1(5) by auto
    have "take n inp = cut k (min n (length inp)) packed"
    proof -
      have "take n inp = take n (cut k (length inp) packed)" using 1(3) by (rule arg_cong)
      then show ?thesis by (simp add: cut_def min.commute)
    qed
    then have b: "b = cut p (min n (length inp)) (map not packed)" using 1(1) u(2) by (simp add: cut_def take_map drop_map)
    have "length b = used" using u(1,2) by simp
    then show ?case using b u 1(1,2) by (auto simp: min_def)
  qed
  then show ?thesis by (simp add: inflate_ok_def flip_zlib_def)
qed

lemma flip_entry_holds:
  "zip_entry_holds flip_zlib (\<lambda>d k p. d = k \<and> p = k) (\<lambda>pos n. Some (cut pos n flip_file)) flip_entry
     [1, 2, 3, 4, 5] (map not [1, 2, 3, 4, 5])"
proof -
  have "data_at (\<lambda>pos n. Some (cut pos n flip_file)) flip_entry = Some 30"
    by code_simp
  moreover have "cut (30 + k) n flip_file = cut k n [1, 2, 3, 4, 5]" for k n
  proof -
    have "drop 30 flip_file = [1, 2, 3, 4, 5]" by (simp add: flip_file_def)
    then show ?thesis unfolding cut_def by (simp add: add.commute flip: drop_drop)
  qed
  moreover have "inflate_ok flip_zlib (\<lambda>d k p. d = k \<and> p = k) [1, 2, 3, 4, 5] (map not [1, 2, 3, 4, 5])"
    by (rule flip_inflate_ok)
  ultimately show ?thesis unfolding zip_entry_holds_def file_read_def by (simp add: flip_entry_def)
qed

theorem zip_entry_reads_like_a_file_witness:
  "zip_reads flip_zlib flip_entry [(3, 9), (0, 2), (1, 1)] (new_zip_stream (Some (\<lambda>pos n. Some (cut pos n flip_file))))
     = Some [[not 4, not 5], [not 1, not 2], [not 2]]"
  using zip_entry_reads_like_a_file[OF flip_entry_holds, of "[(3, 9), (0, 2), (1, 1)]"] by simp

end
