(* ===== verification/SevenZip.thy ===== *)
theory SevenZip
  imports ZipStream
begin

unbundle bit_operations_syntax

text \<open>
  The 7z reader: \<open>waterbox/sevenzip.cpp\<close>. The LZMA SDK is not in the repository: what \<open>SzArEx_Open\<close>
  leaves in its database and what the folder parser gives for each folder is the record
  \<open>szdb\<close>, and its decoders are \<open>lz_new\<close> (allocation and initialisation) and \<open>lz_step\<close>.
\<close>

section \<open>The SDK's input stream\<close>

text \<open>A C file as its content and position; \<open>bad\<close> says which positions cannot be read.\<close>

record cfile =
  cf_bytes :: bytes
  cf_pos :: nat
  cf_bad :: "nat \<Rightarrow> bool"

datatype sres = SZ_OK | SZ_ERROR_READ | SZ_ERROR_NO_ARCHIVE | SZ_ERROR_UNSUPPORTED | SZ_ERROR_MEM | SZ_ERROR_CRC | SZ_ERROR_OTHER
datatype seek_origin = SZ_SEEK_SET | SZ_SEEK_CUR | SZ_SEEK_END

definition fs_read :: "nat \<Rightarrow> cfile \<Rightarrow> sres \<times> bytes \<times> cfile" where
  "fs_read n f =
     (if n = 0 then (SZ_OK, [], f)
      else let b = (if cf_bad f (cf_pos f) then [] else cut (cf_pos f) n (cf_bytes f));
               feof = (\<not> cf_bad f (cf_pos f) \<and> length b < n)
        in (if b \<noteq> [] \<or> feof then SZ_OK else SZ_ERROR_READ, b, f\<lparr>cf_pos := cf_pos f + length b\<rparr>))"

definition fs_seek :: "int \<Rightarrow> seek_origin \<Rightarrow> cfile \<Rightarrow> sres \<times> int \<times> cfile" where
  "fs_seek pos origin f =
     (let to = pos + (case origin of SZ_SEEK_SET \<Rightarrow> 0 | SZ_SEEK_CUR \<Rightarrow> int (cf_pos f)
                                   | SZ_SEEK_END \<Rightarrow> int (length (cf_bytes f)))
      in if to < 0 \<or> 2 ^ 63 \<le> to then (SZ_ERROR_READ, pos, f) else (SZ_OK, to, f\<lparr>cf_pos := nat to\<rparr>))"

section \<open>Names\<close>

text \<open>The code point of the head of the text and what is left behind it: surrogates in a pair are joined.\<close>

definition next_cp :: "u16 \<Rightarrow> u16 list \<Rightarrow> u32 \<times> u16 list" where
  "next_cp u us =
     (case us of
        [] \<Rightarrow> (ucast u, [])
      | v # vs \<Rightarrow>
          if 0xD800 \<le> u \<and> u \<le> 0xDBFF \<and> 0xDC00 \<le> v \<and> v \<le> 0xDFFF
          then (0x10000 + push_bit 10 (ucast u - 0xD800) + (ucast v - 0xDC00), vs)
          else (ucast u, us))"

definition utf8_bytes :: "u32 \<Rightarrow> bytes" where
  "utf8_bytes cp =
     (if cp < 0x80 then [ucast cp]
      else if cp < 0x800 then [ucast (0xC0 OR drop_bit 6 cp), ucast (0x80 OR (cp AND 0x3F))]
      else if cp < 0x10000
      then [ucast (0xE0 OR drop_bit 12 cp), ucast (0x80 OR (drop_bit 6 cp AND 0x3F)), ucast (0x80 OR (cp AND 0x3F))]
      else [ucast (0xF0 OR drop_bit 18 cp), ucast (0x80 OR (drop_bit 12 cp AND 0x3F)),
            ucast (0x80 OR (drop_bit 6 cp AND 0x3F)), ucast (0x80 OR (cp AND 0x3F))])"

function utf16_to_utf8 :: "u16 list \<Rightarrow> bytes" where
  "utf16_to_utf8 [] = []"
| "utf16_to_utf8 (u # us) = (case next_cp u us of (cp, rest) \<Rightarrow> utf8_bytes cp @ utf16_to_utf8 rest)"
  by pat_completeness auto
termination
  by (relation "measure length") (auto simp: next_cp_def split: list.splits if_splits)

definition hex_digit :: "nat \<Rightarrow> char" where
  "hex_digit d = ''0123456789ABCDEF'' ! d"

text \<open>\<open>snprintf\<close> with \<open>0x%06X\<close>: as many digits as it needs, at least six.\<close>

fun hex_from :: "nat \<Rightarrow> nat \<Rightarrow> string" where
  "hex_from 0 v = []"
| "hex_from (Suc k) v = hex_from k (v div 16) @ [hex_digit (v mod 16)]"

definition method_name :: "u32 \<Rightarrow> string" where
  "method_name m =
     ''0x'' @ hex_from (if 0x10000000 \<le> m then 8 else if 0x1000000 \<le> m then 7 else 6) (unat m)"

section \<open>The index\<close>

record sz_entry =
  se_path :: bytes
  se_size :: u64
  se_folder :: u32
  se_offset_in_folder :: u64
  se_crc :: u32
  se_has_crc :: bool

record sz_folder =
  sf_method :: u32
  sf_props :: bytes
  sf_pack_pos :: u64
  sf_pack_size :: u64
  sf_unpack_size :: u64

record sz_index =
  si_host_path :: string
  si_entries :: "sz_entry list"
  si_folders :: "sz_folder list"
  si_solid :: bool

definition kCopy :: u32 where "kCopy = 0"
definition kLzma :: u32 where "kLzma = 0x030101"
definition kLzma2 :: u32 where "kLzma2 = 0x21"

text \<open>The SDK's tables. A folder is what \<open>SzGetNextFolderItem\<close> gives: the number of coders, and the method
  and properties of the first.\<close>

record szdb =
  db_folders :: "(nat \<times> u32 \<times> bytes) option list"
  db_FoStartPackStreamIndex :: "nat list"
  db_PackPositions :: "u64 list"
  db_dataPos :: u64
  db_UnpackSize :: "u64 list"
  db_FolderToFile :: "u32 list"
  db_IsDirs :: "bool list"
  db_names :: "u16 list list"
  db_sizes :: "u64 list"
  db_CRCs :: "u32 option list"
  db_FileToFolder :: "u32 list"
  db_UnpackPositions :: "u64 list"

datatype sz_error = SzNotOpened string | SzNoMemory | SzNot7z | SzUnsupported | SzHeaderCorrupt
  | SzHeaderUnreadable | SzCoders | SzMethod string

definition sdk_error :: "sres \<Rightarrow> sz_error" where
  "sdk_error r =
     (if r = SZ_ERROR_NO_ARCHIVE then SzNot7z else if r = SZ_ERROR_UNSUPPORTED then SzUnsupported
      else if r = SZ_ERROR_MEM then SzNoMemory else if r = SZ_ERROR_CRC then SzHeaderCorrupt else SzHeaderUnreadable)"

definition one_folder :: "szdb \<Rightarrow> nat \<Rightarrow> sz_error + sz_folder" where
  "one_folder db fi =
     (case db_folders db ! fi of
        None \<Rightarrow> Inl SzHeaderCorrupt
      | Some (coders, method, props) \<Rightarrow>
          if coders \<noteq> 1 then Inl SzCoders
          else if method \<noteq> kCopy \<and> method \<noteq> kLzma \<and> method \<noteq> kLzma2 then Inl (SzMethod (method_name method))
          else let first = db_FoStartPackStreamIndex db ! fi; end_stream = db_FoStartPackStreamIndex db ! (fi + 1)
            in Inr \<lparr>sf_method = method, sf_props = props,
                    sf_pack_pos = db_dataPos db + db_PackPositions db ! first,
                    sf_pack_size = db_PackPositions db ! end_stream - db_PackPositions db ! first,
                    sf_unpack_size = db_UnpackSize db ! fi\<rparr>)"

fun folders_loop :: "szdb \<Rightarrow> nat list \<Rightarrow> sz_folder list \<Rightarrow> bool \<Rightarrow> sz_error + sz_folder list \<times> bool" where
  "folders_loop db [] fs solid = Inr (fs, solid)"
| "folders_loop db (fi # fis) fs solid =
     sbind (one_folder db fi)
       (\<lambda>f. folders_loop db fis (fs @ [f]) (solid \<or> db_FolderToFile db ! (fi + 1) - db_FolderToFile db ! fi > 1))"

definition sz_path :: "u16 list \<Rightarrow> bytes" where
  "sz_path name =
     dropWhile (\<lambda>c. c = 0x2F) (map (\<lambda>c. if c = 0x5C then 0x2F else c) (utf16_to_utf8 (butlast name)))"

definition one_file :: "szdb \<Rightarrow> nat \<Rightarrow> sz_entry option" where
  "one_file db i =
     (let path = sz_path (db_names db ! i); fi = db_FileToFolder db ! i in
      if db_IsDirs db ! i \<or> path = [] then None
      else Some \<lparr>se_path = path, se_size = (if fi = -1 then 0 else db_sizes db ! i),
                 se_folder = (if fi = -1 then 0 else fi),
                 se_offset_in_folder =
                   (if fi = -1 then 0
                    else db_UnpackPositions db ! i - db_UnpackPositions db ! unat (db_FolderToFile db ! unat fi)),
                 se_crc = (case db_CRCs db ! i of None \<Rightarrow> 0 | Some c \<Rightarrow> c),
                 se_has_crc = (db_CRCs db ! i \<noteq> None)\<rparr>)"

text \<open>\<open>sz_open\<close>: whether the file opens and the look-ahead buffer can be had, and what \<open>SzArEx_Open\<close> gives.\<close>

definition sz_open :: "string \<Rightarrow> bool \<Rightarrow> bool \<Rightarrow> sres \<times> szdb \<Rightarrow> sz_error + sz_index" where
  "sz_open path opened look_buf sdk =
     (if \<not> opened then Inl (SzNotOpened path)
      else if \<not> look_buf then Inl SzNoMemory
      else if fst sdk \<noteq> SZ_OK then Inl (sdk_error (fst sdk))
      else let db = snd sdk in
        sbind (folders_loop db [0..<length (db_folders db)] [] False)
          (\<lambda>(fs, solid). Inr \<lparr>si_host_path = path, si_entries = List.map_filter (one_file db) [0..<length (db_IsDirs db)],
                               si_folders = fs, si_solid = solid\<rparr>))"

section \<open>Streams\<close>

record 'd lzma_sdk =
  lz_new :: "u32 \<Rightarrow> bytes \<Rightarrow> 'd option"
  lz_step :: "u32 \<Rightarrow> 'd \<Rightarrow> bytes \<Rightarrow> nat \<Rightarrow> 'd \<times> nat \<times> bytes \<times> bool \<times> bool"

record 'd sz_stream =
  st_file :: "hfile option"
  st_fpos :: nat
  st_cursor :: "'d cursor option"

definition new_sz_stream :: "hfile option \<Rightarrow> 'd sz_stream" where
  "new_sz_stream f = \<lparr>st_file = f, st_fpos = 0, st_cursor = None\<rparr>"

definition sz_fpos :: "'d sz_stream \<Rightarrow> nat" where
  "sz_fpos s = (case st_cursor s of None \<Rightarrow> st_fpos s | Some c \<Rightarrow> cu_fpos c)"

text \<open>\<open>restart\<close>: the old decoder is freed before the new one is made.\<close>

definition restart_sz :: "'d lzma_sdk \<Rightarrow> sz_index \<Rightarrow> sz_entry \<Rightarrow> 'd sz_stream \<Rightarrow> bool \<times> 'd sz_stream" where
  "restart_sz sdk ix e s =
     (if length (si_folders ix) \<le> unat (se_folder e) then (False, s)
      else let f = si_folders ix ! unat (se_folder e);
               gone = s\<lparr>st_fpos := sz_fpos s, st_cursor := None\<rparr>
        in if sf_method f = kLzma2 \<and> length (sf_props f) \<noteq> 1 then (False, gone)
           else (case lz_new sdk (sf_method f) (sf_props f) of
                   None \<Rightarrow> (False, gone)
                 | Some d \<Rightarrow>
                     let can = unat (sf_pack_pos f) < 2 ^ 63
                     in (can, s\<lparr>st_cursor := Some \<lparr>cu_dec = d, cu_pend = [], cu_left = unat (sf_pack_size f),
                                  cu_fpos = (if can then unat (sf_pack_pos f) else sz_fpos s), cu_pos = 0\<rparr>\<rparr>)))"

text \<open>A step of \<open>decode_into\<close>: on an error neither the input used nor the output is counted. The loop ends
  on an error, and when nothing moved at the end mark or with no input left.\<close>

definition sz_step :: "'d lzma_sdk \<Rightarrow> u32 \<Rightarrow> 'd \<Rightarrow> bytes \<Rightarrow> nat \<Rightarrow> 'd \<times> nat \<times> bytes \<times> bool \<times> bool" where
  "sz_step sdk m d inp n =
     (case lz_step sdk m d inp n of (d', used, b, ok, finished) \<Rightarrow>
        if ok then (d', used, b, ok, finished) else (d', 0, [], ok, finished))"

definition sz_stop :: "bool \<times> bool \<Rightarrow> nat \<Rightarrow> bytes \<Rightarrow> bytes \<Rightarrow> nat \<Rightarrow> bool" where
  "sz_stop st used b pend left \<longleftrightarrow> \<not> fst st \<or> b = [] \<and> used = 0 \<and> (snd st \<or> left = 0)"

definition decode_into :: "'d lzma_sdk \<Rightarrow> u32 \<Rightarrow> hfile \<Rightarrow> nat \<Rightarrow> 'd cursor \<Rightarrow> (bytes \<times> 'd cursor) option" where
  "decode_into sdk m h n c =
     feed (file_read h) (sz_step sdk m) sz_stop n c"

definition sz_skip_to :: "'d lzma_sdk \<Rightarrow> u32 \<Rightarrow> hfile \<Rightarrow> nat \<Rightarrow> 'd cursor \<Rightarrow> (bool \<times> 'd cursor) option" where
  "sz_skip_to sdk m h target c = skip_loop (decode_into sdk m h) target c"

text \<open>The decoded half of \<open>read_at\<close>, at \<open>target\<close> of the folder's stream.\<close>

definition decode_at ::
  "'d lzma_sdk \<Rightarrow> hfile \<Rightarrow> sz_index \<Rightarrow> sz_entry \<Rightarrow> nat \<Rightarrow> nat \<Rightarrow> 'd sz_stream \<Rightarrow> (bytes \<times> 'd sz_stream) option" where
  "decode_at sdk h ix e target n s =
     (let m = sf_method (si_folders ix ! unat (se_folder e)) in
      case (case st_cursor s of
              Some c \<Rightarrow> if target < cu_pos c then restart_sz sdk ix e s else (True, s)
            | None \<Rightarrow> restart_sz sdk ix e s) of
        (ok, s1) \<Rightarrow>
          (case st_cursor s1 of
             Some c0 \<Rightarrow>
               if \<not> ok then Some ([], s1)
               else (case sz_skip_to sdk m h target c0 of
                  None \<Rightarrow> None
                | Some (got, c) \<Rightarrow>
                    if \<not> got then Some ([], s1\<lparr>st_cursor := Some c\<rparr>)
                    else map_option (\<lambda>(b, c'). (b, s1\<lparr>st_cursor := Some c'\<rparr>)) (decode_into sdk m h n c))
           | None \<Rightarrow> Some ([], s1)))"

definition copy_at :: "hfile \<Rightarrow> u64 \<Rightarrow> nat \<Rightarrow> bytes" where
  "copy_at h pos n = (if unat pos < 2 ^ 63 then file_read h (unat pos) n else [])"

definition sz_read_at ::
  "'d lzma_sdk \<Rightarrow> sz_index \<Rightarrow> sz_entry \<Rightarrow> nat \<Rightarrow> nat \<Rightarrow> 'd sz_stream \<Rightarrow> (bytes \<times> 'd sz_stream) option" where
  "sz_read_at sdk ix e offset len s =
     (case st_file s of
        None \<Rightarrow> Some ([], s)
      | Some h \<Rightarrow>
          if unat (se_size e) \<le> offset \<or> len = 0 then Some ([], s)
          else if length (si_folders ix) \<le> unat (se_folder e) then Some ([], s)
          else let n = min len (unat (se_size e) - offset); f = si_folders ix ! unat (se_folder e) in
            if sf_method f = kCopy
            then Some (copy_at h (sf_pack_pos f + se_offset_in_folder e + of_nat offset) n, s)
            else decode_at sdk h ix e (unat (se_offset_in_folder e + of_nat offset)) n s)"

end
