(* ===== verification/SevenZipNames.thy ===== *)
theory SevenZipNames
  imports SevenZip
begin

text \<open>
  The names of a 7z archive: \<open>utf16_to_utf8\<close> against a decoder of UTF-8 and the encoding of code points in
  UTF-16, both written from their definitions (RFC 3629 and RFC 2781).
\<close>

section \<open>References\<close>

definition scalar :: "u32 \<Rightarrow> bool" where
  "scalar cp \<longleftrightarrow> cp < 0x110000 \<and> \<not> (0xD800 \<le> cp \<and> cp \<le> 0xDFFF)"

definition utf16_units :: "u32 \<Rightarrow> u16 list" where
  "utf16_units cp =
     (if cp < 0x10000 then [ucast cp]
      else [0xD800 + ucast (drop_bit 10 (cp - 0x10000)), 0xDC00 + ucast ((cp - 0x10000) AND 0x3FF)])"

definition cont :: "u8 \<Rightarrow> bool" where
  "cont b \<longleftrightarrow> b AND 0xC0 = 0x80"

definition low6 :: "u8 \<Rightarrow> u32" where
  "low6 b = ucast (b AND 0x3F)"

text \<open>The first code point of a byte string and how many bytes it takes.\<close>

definition utf8_first :: "bytes \<Rightarrow> (u32 \<times> nat) option" where
  "utf8_first b =
     (if b ! 0 AND 0x80 = 0 then Some (ucast (b ! 0), 1)
      else if b ! 0 AND 0xE0 = 0xC0 \<and> 2 \<le> length b \<and> cont (b ! 1)
      then Some (push_bit 6 (ucast (b ! 0 AND 0x1F)) OR low6 (b ! 1), 2)
      else if b ! 0 AND 0xF0 = 0xE0 \<and> 3 \<le> length b \<and> cont (b ! 1) \<and> cont (b ! 2)
      then Some (push_bit 12 (ucast (b ! 0 AND 0x0F)) OR push_bit 6 (low6 (b ! 1)) OR low6 (b ! 2), 3)
      else if b ! 0 AND 0xF8 = 0xF0 \<and> 4 \<le> length b \<and> cont (b ! 1) \<and> cont (b ! 2) \<and> cont (b ! 3)
      then Some (push_bit 18 (ucast (b ! 0 AND 0x07)) OR push_bit 12 (low6 (b ! 1)) OR push_bit 6 (low6 (b ! 2))
                 OR low6 (b ! 3), 4)
      else None)"

function utf8_decode :: "bytes \<Rightarrow> u32 list option" where
  "utf8_decode b =
     (if b = [] then Some []
      else case utf8_first b of
        None \<Rightarrow> None
      | Some (cp, n) \<Rightarrow> map_option ((#) cp) (utf8_decode (drop n b)))"
  by pat_completeness auto
termination
  by (relation "measure length") (auto simp: utf8_first_def split: if_splits)

declare utf8_decode.simps [simp del]

section \<open>Code points as bits\<close>

lemma bit_below: "unat (w :: u32) < 2 ^ k \<Longrightarrow> bit w n \<Longrightarrow> n < k"
  by (metis bit_take_bit_iff nat_less_le not_less take_bit_nat_eq_self unsigned_take_bit_eq word_unat_eq_iff)

lemma byte_eqI:
  fixes a b :: u8
  assumes "bit a 0 = bit b 0" "bit a 1 = bit b 1" "bit a 2 = bit b 2" "bit a 3 = bit b 3"
    "bit a 4 = bit b 4" "bit a 5 = bit b 5" "bit a 6 = bit b 6" "bit a 7 = bit b 7"
  shows "a = b"
proof (rule bit_word_eqI)
  fix n assume "n < LENGTH(8)"
  then have "n \<in> {0, 1, 2, 3, 4, 5, 6, 7}" by auto
  then show "bit a n = bit b n" using assms by auto
qed

lemma and_3F: "(x :: u32) AND 0x3F = take_bit 6 x"
proof -
  have "(0x3F :: u32) = mask 6" by (simp add: mask_eq_exp_minus_1)
  then show ?thesis by (simp add: take_bit_eq_mask)
qed

lemma cont_byte: "cont (ucast (0x80 OR (x AND 0x3F)))" "low6 (ucast (0x80 OR ((x :: u32) AND 0x3F))) = take_bit 6 x"
proof -
  show "cont (ucast (0x80 OR (x AND 0x3F)))"
    unfolding cont_def by (rule byte_eqI) (simp_all add: bit_simps)
  have "(ucast (0x80 OR (x AND 0x3F)) :: u8) AND 0x3F = ucast (x AND 0x3F)"
    by (rule byte_eqI) (simp_all add: bit_simps)
  moreover have "(ucast (ucast (take_bit 6 x) :: u8) :: u32) = take_bit 6 x"
    by (rule bit_word_eqI) (auto simp: bit_simps)
  ultimately show "low6 (ucast (0x80 OR (x AND 0x3F))) = take_bit 6 x" by (simp add: low6_def and_3F)
qed

lemma lead2:
  assumes "unat (x :: u32) < 2 ^ 5"
  shows "(ucast (0xC0 OR x) :: u8) AND 0x80 = 0x80" "(ucast (0xC0 OR x) :: u8) AND 0xE0 = 0xC0"
    "(ucast ((ucast (0xC0 OR x) :: u8) AND 0x1F) :: u32) = x"
proof -
  have b: "n < 5" if "bit x n" for n using bit_below[OF assms that] .
  show "(ucast (0xC0 OR x) :: u8) AND 0x80 = 0x80" by (rule byte_eqI) (use b in \<open>fastforce simp: bit_simps\<close>)+
  show "(ucast (0xC0 OR x) :: u8) AND 0xE0 = 0xC0" by (rule byte_eqI) (use b in \<open>fastforce simp: bit_simps\<close>)+
  have "(ucast (0xC0 OR x) :: u8) AND 0x1F = ucast x" by (rule byte_eqI) (use b in \<open>fastforce simp: bit_simps\<close>)+
  moreover have "(ucast (ucast x :: u8) :: u32) = x"
    by (rule bit_word_eqI) (use b in \<open>fastforce simp: bit_simps\<close>)
  ultimately show "(ucast ((ucast (0xC0 OR x) :: u8) AND 0x1F) :: u32) = x" by simp
qed

lemma lead3:
  assumes "unat (x :: u32) < 2 ^ 4"
  shows "(ucast (0xE0 OR x) :: u8) AND 0x80 = 0x80" "(ucast (0xE0 OR x) :: u8) AND 0xE0 = 0xE0"
    "(ucast (0xE0 OR x) :: u8) AND 0xF0 = 0xE0" "(ucast ((ucast (0xE0 OR x) :: u8) AND 0x0F) :: u32) = x"
proof -
  have b: "n < 4" if "bit x n" for n using bit_below[OF assms that] .
  show "(ucast (0xE0 OR x) :: u8) AND 0x80 = 0x80" by (rule byte_eqI) (use b in \<open>fastforce simp: bit_simps\<close>)+
  show "(ucast (0xE0 OR x) :: u8) AND 0xE0 = 0xE0" by (rule byte_eqI) (use b in \<open>fastforce simp: bit_simps\<close>)+
  show "(ucast (0xE0 OR x) :: u8) AND 0xF0 = 0xE0" by (rule byte_eqI) (use b in \<open>fastforce simp: bit_simps\<close>)+
  have "(ucast (0xE0 OR x) :: u8) AND 0x0F = ucast x" by (rule byte_eqI) (use b in \<open>fastforce simp: bit_simps\<close>)+
  moreover have "(ucast (ucast x :: u8) :: u32) = x"
    by (rule bit_word_eqI) (use b in \<open>fastforce simp: bit_simps\<close>)
  ultimately show "(ucast ((ucast (0xE0 OR x) :: u8) AND 0x0F) :: u32) = x" by simp
qed

lemma lead4:
  assumes "unat (x :: u32) < 2 ^ 3"
  shows "(ucast (0xF0 OR x) :: u8) AND 0x80 = 0x80" "(ucast (0xF0 OR x) :: u8) AND 0xE0 = 0xE0"
    "(ucast (0xF0 OR x) :: u8) AND 0xF0 = 0xF0" "(ucast (0xF0 OR x) :: u8) AND 0xF8 = 0xF0"
    "(ucast ((ucast (0xF0 OR x) :: u8) AND 0x07) :: u32) = x"
proof -
  have b: "n < 3" if "bit x n" for n using bit_below[OF assms that] .
  show "(ucast (0xF0 OR x) :: u8) AND 0x80 = 0x80" by (rule byte_eqI) (use b in \<open>fastforce simp: bit_simps\<close>)+
  show "(ucast (0xF0 OR x) :: u8) AND 0xE0 = 0xE0" by (rule byte_eqI) (use b in \<open>fastforce simp: bit_simps\<close>)+
  show "(ucast (0xF0 OR x) :: u8) AND 0xF0 = 0xF0" by (rule byte_eqI) (use b in \<open>fastforce simp: bit_simps\<close>)+
  show "(ucast (0xF0 OR x) :: u8) AND 0xF8 = 0xF0" by (rule byte_eqI) (use b in \<open>fastforce simp: bit_simps\<close>)+
  have "(ucast (0xF0 OR x) :: u8) AND 0x07 = ucast x" by (rule byte_eqI) (use b in \<open>fastforce simp: bit_simps\<close>)+
  moreover have "(ucast (ucast x :: u8) :: u32) = x"
    by (rule bit_word_eqI) (use b in \<open>fastforce simp: bit_simps\<close>)
  ultimately show "(ucast ((ucast (0xF0 OR x) :: u8) AND 0x07) :: u32) = x" by simp
qed

lemma join2: "push_bit 6 (drop_bit 6 x) OR take_bit 6 x = (x :: u32)"
  by (rule bit_word_eqI) (auto simp: bit_simps)

lemma join3: "push_bit 12 (drop_bit 12 x) OR push_bit 6 (take_bit 6 (drop_bit 6 x)) OR take_bit 6 x = (x :: u32)"
proof (rule bit_word_eqI, goal_cases)
  case (1 n)
  consider "n < 6" | "6 \<le> n" "n < 12" | "12 \<le> n" by linarith
  then show ?case by cases (use 1 in \<open>auto simp: bit_simps\<close>)
qed

lemma join4: "push_bit 18 (drop_bit 18 x) OR push_bit 12 (take_bit 6 (drop_bit 12 x)) OR push_bit 6 (take_bit 6 (drop_bit 6 x))
    OR take_bit 6 x = (x :: u32)"
proof (rule bit_word_eqI, goal_cases)
  case (1 n)
  consider "n < 6" | "6 \<le> n" "n < 12" | "12 \<le> n" "n < 18" | "18 \<le> n" by linarith
  then show ?case by cases (use 1 in \<open>auto simp: bit_simps\<close>)
qed

lemma unat_drop_bit_less:
  assumes "unat (cp :: u32) < 2 ^ k * m"
  shows "unat (drop_bit k cp) < m"
proof -
  have "unat (drop_bit k cp) = drop_bit k (unat cp)"
    using unsigned_less[of cp, where ?'a = nat] by (simp add: unsigned_drop_bit_eq take_bit_nat_eq_self)
  also have "\<dots> = unat cp div 2 ^ k" by (rule drop_bit_eq_div)
  also have "\<dots> < m" using assms by (simp add: less_mult_imp_div_less mult.commute)
  finally show ?thesis .
qed

lemma utf8_first_bytes:
  assumes "cp < 0x110000"
  shows "utf8_first (utf8_bytes cp @ r) = Some (cp, length (utf8_bytes cp))"
proof -
  have dr: "unat (drop_bit k cp) < m" if "unat cp < 2 ^ k * m" for k m
    using that by (rule unat_drop_bit_less)
  consider "cp < 0x80" | "\<not> cp < 0x80" "cp < 0x800" | "\<not> cp < 0x80" "\<not> cp < 0x800" "cp < 0x10000"
    | "\<not> cp < 0x80" "\<not> cp < 0x800" "\<not> cp < 0x10000" by blast
  then show ?thesis
  proof cases
    case 1
    then have s: "unat cp < 2 ^ 7" by (simp add: word_less_nat_alt)
    have "(ucast cp :: u8) AND 0x80 = 0" by (rule byte_eqI) (use bit_below[OF s, of 7] in \<open>auto simp: bit_simps\<close>)
    moreover have "ucast (ucast cp :: u8) = cp"
      by (rule bit_word_eqI) (use bit_below[OF s] in \<open>fastforce simp: bit_simps\<close>)
    ultimately show ?thesis using 1 by (simp add: utf8_first_def utf8_bytes_def)
  next
    case 2
    then have "unat (drop_bit 6 cp) < 2 ^ 5" by (intro dr) (simp add: word_less_nat_alt)
    then show ?thesis using 2 by (simp add: utf8_first_def utf8_bytes_def lead2 cont_byte join2)
  next
    case 3
    then have "unat (drop_bit 12 cp) < 2 ^ 4" by (intro dr) (simp add: word_less_nat_alt)
    then show ?thesis using 3 by (simp add: utf8_first_def utf8_bytes_def lead3 cont_byte join3)
  next
    case 4
    then have "unat (drop_bit 18 cp) < 2 ^ 3" using assms by (intro dr) (simp add: word_less_nat_alt)
    then show ?thesis using 4 by (simp add: utf8_first_def utf8_bytes_def lead4 cont_byte join4)
  qed
qed

section \<open>Units of UTF-16\<close>

lemma ucast_of_nat_small: "n < 2 ^ 16 \<Longrightarrow> (ucast (of_nat n :: u16) :: u32) = of_nat n"
  by (rule word_unat_eq_iff[THEN iffD2]) (simp add: unsigned_ucast_eq unat_of_nat take_bit_nat_eq_self)

lemma next_cp_plain:
  assumes "scalar cp" "cp < 0x10000"
  shows "next_cp (ucast cp) us = (cp, us)"
proof -
  have c: "ucast (ucast cp :: u16) = cp"
    using assms(2) ucast_of_nat_small[of "unat cp"] by (simp add: word_less_nat_alt)
  have "\<not> (0xD800 \<le> (ucast cp :: u16) \<and> (ucast cp :: u16) \<le> 0xDBFF)"
    using assms by (auto simp: scalar_def word_le_nat_alt word_less_nat_alt unsigned_ucast_eq take_bit_nat_eq_self)
  then show ?thesis using c by (auto simp: next_cp_def split: list.splits)
qed

lemma next_cp_pair:
  assumes "cp < 0x110000" "\<not> cp < 0x10000" "utf16_units cp = [u, v]"
  shows "next_cp u (v # us) = (cp, us)"
proof -
  define x where "x = unat cp - 0x10000"
  have cp: "cp = of_nat (0x10000 + x)" "x < 0x100000"
    using assms(1,2) by (auto simp: x_def word_less_nat_alt of_nat_diff)
  define hi lo where "hi = x div 1024" and "lo = x mod 1024"
  have hl: "hi < 1024" "lo < 1024" "x = hi * 1024 + lo" using cp(2) by (auto simp: hi_def lo_def)
  have m: "(0x3FF :: u32) = mask 10" by (simp add: mask_eq_exp_minus_1)
  have xw: "cp - 0x10000 = of_nat x" using cp(1) by simp
  have ux: "unat (of_nat x :: u32) = x" using cp(2) by (simp add: unat_of_nat)
  have "drop_bit 10 (of_nat x :: u32) = of_nat hi" "take_bit 10 (of_nat x :: u32) = of_nat lo"
  proof -
    have "unat (of_nat hi :: u32) = hi" "unat (of_nat lo :: u32) = lo" using hl(1,2) by (simp_all add: unat_of_nat)
    moreover have "unat (drop_bit 10 (of_nat x :: u32)) = drop_bit 10 x" "unat (take_bit 10 (of_nat x :: u32)) = take_bit 10 x"
      using cp(2) by (simp_all add: unsigned_drop_bit_eq unsigned_take_bit_eq ux take_bit_nat_eq_self)
    ultimately show "drop_bit 10 (of_nat x :: u32) = of_nat hi" "take_bit 10 (of_nat x :: u32) = of_nat lo"
      by (simp_all add: word_unat_eq_iff hi_def lo_def drop_bit_eq_div take_bit_eq_mod)
  qed
  then have uv: "u = 0xD800 + ucast (of_nat hi :: u32)" "v = 0xDC00 + ucast (of_nat lo :: u32)"
    using assms(2,3) by (auto simp: utf16_units_def xw m take_bit_eq_mask[symmetric])
  have "(ucast (of_nat n :: u32) :: u16) = of_nat n" for n
    by (rule bit_word_eqI) (simp add: bit_simps)
  then have uv': "u = of_nat (0xD800 + hi)" "v = of_nat (0xDC00 + lo)" using uv by simp_all
  have un: "unat u = 0xD800 + hi" "unat v = 0xDC00 + lo" unfolding uv' unat_of_nat using hl by simp_all
  have cu: "(ucast u :: u32) = of_nat (0xD800 + hi)" "(ucast v :: u32) = of_nat (0xDC00 + lo)"
    unfolding uv' using hl by (intro ucast_of_nat_small; simp)+
  have "0x10000 + push_bit 10 ((ucast u :: u32) - 0xD800) + (ucast v - 0xDC00) = cp"
    unfolding cu cp(1) hl(3) by (simp add: push_bit_eq_mult algebra_simps)
  then show ?thesis using un hl by (simp add: next_cp_def word_le_nat_alt)
qed

lemma utf16_to_utf8_units:
  assumes "scalar cp"
  shows "utf16_to_utf8 (utf16_units cp @ us) = utf8_bytes cp @ utf16_to_utf8 us"
proof (cases "cp < 0x10000")
  case True
  then show ?thesis using next_cp_plain[OF assms True] by (simp add: utf16_units_def)
next
  case False
  then obtain u v where uv: "utf16_units cp = [u, v]" by (simp add: utf16_units_def)
  show ?thesis using next_cp_pair[OF _ False uv] assms by (simp add: uv scalar_def)
qed

text \<open>C30. File names of a 7z archive survive their trip: the UTF-8 that \<open>utf16_to_utf8\<close> makes of any text in UTF-16
  decodes to the same code points, those beyond the BMP, which come as surrogate pairs, among
  them.\<close>

theorem utf16_names_round_trip:
  assumes "\<forall>cp \<in> set cps. scalar cp"
  shows "utf8_decode (utf16_to_utf8 (concat (map utf16_units cps))) = Some cps"
  using assms
proof (induction cps)
  case Nil
  then show ?case by (simp add: utf8_decode.simps)
next
  case (Cons cp cps)
  have c: "cp < 0x110000" using Cons.prems by (simp add: scalar_def)
  let ?r = "utf16_to_utf8 (concat (map utf16_units cps))"
  have "utf8_bytes cp \<noteq> []" by (simp add: utf8_bytes_def)
  then have "utf8_decode (utf8_bytes cp @ ?r) = map_option ((#) cp) (utf8_decode ?r)"
    by (subst utf8_decode.simps) (simp add: utf8_first_bytes[OF c])
  then show ?case using Cons utf16_to_utf8_units[of cp] by simp
qed

theorem utf16_names_round_trip_witness:
  "utf8_decode (utf16_to_utf8 [0x41, 0xE9, 0x65E5, 0xD83C, 0xDFAE]) = Some [0x41, 0xE9, 0x65E5, 0x1F3AE]"
  using utf16_names_round_trip[of "[0x41, 0xE9, 0x65E5, 0x1F3AE]"] by (simp add: scalar_def utf16_units_def)

end
