(* ===== verification/SevenZipProps.thy ===== *)
theory SevenZipProps
  imports SevenZip
begin

text \<open>
  What \<open>sz_open\<close> and \<open>sz_stream\<close> promise: the form of an index, that an archive that is not reported solid
  has every file at the start of its own block, and that an open entry reads like a file.
\<close>

section \<open>The index\<close>

text \<open>The SDK's tables: each file's folder is one of those read, and is the one whose range of files holds it.\<close>

definition tables_ok :: "szdb \<Rightarrow> bool" where
  "tables_ok db \<longleftrightarrow>
     (\<forall>i < length (db_IsDirs db). db_FileToFolder db ! i \<noteq> -1 \<longrightarrow>
        unat (db_FileToFolder db ! i) < length (db_folders db)
        \<and> unat (db_FolderToFile db ! unat (db_FileToFolder db ! i)) \<le> i
        \<and> i < unat (db_FolderToFile db ! (unat (db_FileToFolder db ! i) + 1)))"

definition sz_folder_ok :: "sz_folder \<Rightarrow> bool" where
  "sz_folder_ok f \<longleftrightarrow> sf_method f = kCopy \<or> sf_method f = kLzma \<or> sf_method f = kLzma2"

definition sz_path_ok :: "bytes \<Rightarrow> bool" where
  "sz_path_ok p \<longleftrightarrow> p \<noteq> [] \<and> 0x5C \<notin> set p \<and> hd p \<noteq> 0x2F"

lemma one_folder_ok: "one_folder db fi = Inr f \<Longrightarrow> sz_folder_ok f"
  by (auto simp: one_folder_def sz_folder_ok_def Let_def split: option.splits if_splits)

lemma folders_loop_ok:
  "folders_loop db fis fs solid = Inr (fs', solid') \<Longrightarrow> \<forall>f \<in> set fs. sz_folder_ok f \<Longrightarrow>
     length fs' = length fs + length fis \<and> (\<forall>f \<in> set fs'. sz_folder_ok f)
     \<and> (solid' \<longleftrightarrow> solid \<or> (\<exists>fi \<in> set fis. db_FolderToFile db ! (fi + 1) - db_FolderToFile db ! fi > 1))"
proof (induction fis arbitrary: fs solid)
  case (Cons fi fis)
  obtain f where f: "one_folder db fi = Inr f" using Cons.prems(1) by (cases "one_folder db fi") (simp_all add: sbind_def)
  let ?p = "\<lambda>fi. db_FolderToFile db ! (fi + 1) - db_FolderToFile db ! fi > 1"
  have l: "folders_loop db fis (fs @ [f]) (solid \<or> ?p fi) = Inr (fs', solid')" using Cons.prems(1) f by (simp add: sbind_def)
  have g: "\<forall>f \<in> set (fs @ [f]). sz_folder_ok f" using Cons.prems(2) one_folder_ok[OF f] by simp
  from Cons.IH[OF l g]
  have "length fs' = length fs + length (fi # fis)" "\<forall>f \<in> set fs'. sz_folder_ok f"
    "solid' \<longleftrightarrow> (solid \<or> ?p fi) \<or> (\<exists>fi \<in> set fis. ?p fi)" by simp_all
  moreover have "(\<exists>k \<in> set (fi # fis). ?p k) \<longleftrightarrow> ?p fi \<or> (\<exists>k \<in> set fis. ?p k)" by (simp only: list.set bex_simps)
  ultimately show ?case by (simp only: disj_assoc simp_thms)
qed auto

lemma sz_path_ok_path: "sz_path name \<noteq> [] \<Longrightarrow> sz_path_ok (sz_path name)"
proof -
  assume n: "sz_path name \<noteq> []"
  let ?m = "map (\<lambda>c. if c = 0x5C then 0x2F else c :: u8) (utf16_to_utf8 (butlast name))"
  have "0x5C \<notin> set ?m" by (simp add: image_iff) 
  then have "0x5C \<notin> set (sz_path name)" unfolding sz_path_def by (blast dest: set_dropWhileD)
  moreover have "hd (sz_path name) \<noteq> 0x2F"
    using n hd_dropWhile[of "\<lambda>c. c = 0x2F" ?m] unfolding sz_path_def by blast
  ultimately show ?thesis using n by (simp add: sz_path_ok_def)
qed

lemma one_fileD:
  "one_file db i = Some e \<Longrightarrow> sz_path_ok (se_path e) \<and> \<not> db_IsDirs db ! i \<and>
     (if db_FileToFolder db ! i = -1 then se_size e = 0 \<and> se_offset_in_folder e = 0
      else se_size e = db_sizes db ! i \<and> se_folder e = db_FileToFolder db ! i
        \<and> se_offset_in_folder e = db_UnpackPositions db ! i
            - db_UnpackPositions db ! unat (db_FolderToFile db ! unat (db_FileToFolder db ! i)))"
  using sz_path_ok_path[of "db_names db ! i"] by (auto simp: one_file_def Let_def split: if_splits)

text \<open>C31. An index \<open>sz_open\<close> gives is one that can be read: every block is stored, LZMA or LZMA2, every path is
  usable, every entry that has bytes lies in a block of the index, and when the archive is not
  reported solid, every entry starts at the first byte of its block, so that reaching it decodes
  nothing else.\<close>

theorem not_solid_starts_at_zero:
  assumes "sz_open path opened look_buf (r, db) = Inr ix" "tables_ok db"
  shows "(\<forall>f \<in> set (si_folders ix). sz_folder_ok f)
    \<and> (\<forall>e \<in> set (si_entries ix). sz_path_ok (se_path e)
        \<and> (se_size e = 0 \<or> unat (se_folder e) < length (si_folders ix))
        \<and> (si_solid ix \<or> se_offset_in_folder e = 0))"
proof -
  let ?L = "folders_loop db [0..<length (db_folders db)] [] False"
  obtain fs solid where l: "?L = Inr (fs, solid)" and ix: "ix = \<lparr>si_host_path = path,
      si_entries = List.map_filter (one_file db) [0..<length (db_IsDirs db)], si_folders = fs, si_solid = solid\<rparr>"
    using assms(1) by (auto simp: sz_open_def sbind_def Let_def split: if_splits sum.splits)
  note F = folders_loop_ok[OF l, simplified]
  have "sz_path_ok (se_path e) \<and> (se_size e = 0 \<or> unat (se_folder e) < length fs)
      \<and> (solid \<or> se_offset_in_folder e = 0)"
    if e: "e \<in> set (List.map_filter (one_file db) [0..<length (db_IsDirs db)])" for e
  proof -
    obtain i where i: "i < length (db_IsDirs db)" "one_file db i = Some e"
      using e by (auto simp: List.map_filter_def split: option.splits)
    let ?fi = "db_FileToFolder db ! i"
    note E = one_fileD[OF i(2)]
    show ?thesis
    proof (cases "?fi = -1")
      case True
      then show ?thesis using E by simp
    next
      case False
      note T = assms(2)[unfolded tables_ok_def, rule_format, OF i(1) False]
      have "se_offset_in_folder e = 0" if "\<not> solid"
      proof -
        have "\<not> db_FolderToFile db ! (unat ?fi + 1) - db_FolderToFile db ! unat ?fi > 1"
          using F that T by auto
        moreover have "unat (db_FolderToFile db ! (unat ?fi + 1) - db_FolderToFile db ! unat ?fi)
            = unat (db_FolderToFile db ! (unat ?fi + 1)) - unat (db_FolderToFile db ! unat ?fi)"
          using T by (intro unat_sub) (simp add: word_le_nat_alt)
        ultimately have "unat (db_FolderToFile db ! unat ?fi) = i" using T by (simp add: word_less_nat_alt) linarith
        then show ?thesis using E False by simp
      qed
      then show ?thesis using E False T F by auto
    qed
  qed
  then show ?thesis using F ix by simp
qed

text \<open>Two blocks with a file each, after a directory.\<close>

definition two_blocks :: szdb where
  "two_blocks = \<lparr>db_folders = [Some (1, 0x21, [24]), Some (1, 0, [])], db_FoStartPackStreamIndex = [0, 1, 2],
     db_PackPositions = [0, 100, 150], db_dataPos = 32, db_UnpackSize = [200, 50], db_FolderToFile = [1, 2, 3],
     db_IsDirs = [True, False, False], db_names = [[0x64, 0], [0x64, 0x5C, 0x61, 0], [0x62, 0]],
     db_sizes = [0, 200, 50], db_CRCs = [None, Some 7, None], db_FileToFolder = [-1, 0, 1],
     db_UnpackPositions = [0, 0, 200]\<rparr>"

theorem not_solid_starts_at_zero_witness:
  "\<exists>ix. sz_open ''g.7z'' True True (SZ_OK, two_blocks) = Inr ix \<and> \<not> si_solid ix
     \<and> (\<forall>e \<in> set (si_entries ix). se_offset_in_folder e = 0)"
proof -
  have t: "tables_ok two_blocks"
    by (auto simp: tables_ok_def two_blocks_def less_Suc_eq)
  obtain ix where ix: "sz_open ''g.7z'' True True (SZ_OK, two_blocks) = Inr ix" "\<not> si_solid ix"
    by (simp add: sz_open_def two_blocks_def one_folder_def sbind_def Let_def kCopy_def kLzma_def kLzma2_def upt_rec)
  show ?thesis using not_solid_starts_at_zero[OF ix(1) t] ix by blast
qed

end
