(* ===== verification/SevenZipStream.thy ===== *)
theory SevenZipStream
  imports SevenZip
begin

text \<open>
  An open entry of a 7z archive as a source of bytes: whatever is read before, a read gives the
  stretch of the entry it asks for.
\<close>

section \<open>What an entry holds\<close>

text \<open>The SDK's contract on a valid stream \<open>packed\<close> of \<open>plain\<close>: the decoder can be made, decodes, and reports
  no error.\<close>

definition lzma_ok :: "'d lzma_sdk \<Rightarrow> ('d \<Rightarrow> nat \<Rightarrow> nat \<Rightarrow> bool) \<Rightarrow> u32 \<Rightarrow> bytes \<Rightarrow> bytes \<Rightarrow> bytes \<Rightarrow> bool" where
  "lzma_ok sdk R m props packed plain \<longleftrightarrow>
     (m = kLzma2 \<longrightarrow> length props = 1)
     \<and> (\<exists>d. lz_new sdk m props = Some d \<and> R d 0 0) \<and> decodes (lz_step sdk m) R packed plain
     \<and> (\<forall>d k p inp n d' used b ok fin. R d k p \<longrightarrow> lz_step sdk m d inp n = (d', used, b, ok, fin) \<longrightarrow> ok)"

definition sz_entry_holds ::
  "'d lzma_sdk \<Rightarrow> ('d \<Rightarrow> nat \<Rightarrow> nat \<Rightarrow> bool) \<Rightarrow> hfile \<Rightarrow> sz_index \<Rightarrow> sz_entry \<Rightarrow> bytes \<Rightarrow> bytes \<Rightarrow> bool" where
  "sz_entry_holds sdk R h ix e packed plain \<longleftrightarrow>
     unat (se_folder e) < length (si_folders ix)
     \<and> (let f = si_folders ix ! unat (se_folder e) in
          unat (sf_pack_pos f) + length packed < 2 ^ 63
          \<and> (\<forall>k n. k + n \<le> length packed \<longrightarrow> file_read h (unat (sf_pack_pos f) + k) n = cut k n packed)
          \<and> unat (sf_pack_size f) = length packed
          \<and> unat (se_offset_in_folder e) + unat (se_size e) \<le> length plain \<and> length plain < 2 ^ 63
          \<and> (if sf_method f = kCopy then packed = plain
             else lzma_ok sdk R (sf_method f) (sf_props f) packed plain))"

definition sz_stream_ok ::
  "'d lzma_sdk \<Rightarrow> ('d \<Rightarrow> nat \<Rightarrow> nat \<Rightarrow> bool) \<Rightarrow> hfile \<Rightarrow> sz_index \<Rightarrow> sz_entry \<Rightarrow> bytes \<Rightarrow> bytes \<Rightarrow> 'd sz_stream \<Rightarrow> bool" where
  "sz_stream_ok sdk R h ix e packed plain s \<longleftrightarrow>
     st_file s = Some h \<and> sz_entry_holds sdk R h ix e packed plain
     \<and> (\<forall>c. st_cursor s = Some c \<longrightarrow> sf_method (si_folders ix ! unat (se_folder e)) \<noteq> kCopy
          \<and> cursor_ok R packed (unat (sf_pack_pos (si_folders ix ! unat (se_folder e)))) c)"

section \<open>The decoder\<close>

lemma sz_step_same:
  assumes "lzma_ok sdk R m props packed plain" "R d k p"
  shows "sz_step sdk m d inp n = lz_step sdk m d inp n \<and> fst (snd (snd (snd (sz_step sdk m d inp n))))"
proof -
  obtain d' used b ok fin where r: "lz_step sdk m d inp n = (d', used, b, ok, fin)"
    by (cases "lz_step sdk m d inp n") auto
  have "ok" using assms r unfolding lzma_ok_def by blast
  then show ?thesis by (simp add: sz_step_def r)
qed

lemma sz_step_decodes:
  assumes "lzma_ok sdk R m props packed plain"
  shows "decodes (sz_step sdk m) R packed plain"
proof -
  have "decodes (lz_step sdk m) R packed plain" using assms unfolding lzma_ok_def by blast
  moreover have "R d k p \<Longrightarrow> sz_step sdk m d inp n = lz_step sdk m d inp n" for d k p inp n
    using sz_step_same[OF assms] by blast
  ultimately show ?thesis by (rule decodes_cong)
qed

lemma sz_stops_when_done:
  assumes "lzma_ok sdk R m props packed plain"
  shows "stops_when_done (sz_step sdk m) sz_stop R packed plain"
  unfolding stops_when_done_def
proof (intro allI impI)
  fix d k p inp n d' used b st left
  assume a: "R d k p" "k + length inp + left = length packed" "inp = cut k (length inp) packed"
    "inp = [] \<longrightarrow> left = 0" "0 < n" "p + n \<le> length plain" "sz_step sdk m d inp n = (d', used, b, st)"
    "sz_stop st used b (drop used inp) left"
  have k: "k + length inp \<le> length packed" using a(2) by simp
  note D = sz_step_decodes[OF assms, unfolded decodes_def, rule_format, OF a(1) k a(3,5,7)]
  have "fst st"
    using sz_step_same[OF assms a(1), of inp n] a(7) by simp
  then have "b = []" "used = 0" using a(8) by (auto simp: sz_stop_def)
  then show "length b = n" using D a(2,4,5,6) by auto
qed

lemma decode_into_gives:
  assumes "lzma_ok sdk R m props packed plain"
    and "\<And>k n. k + n \<le> length packed \<Longrightarrow> file_read h (start + k) n = cut k n packed"
    and "cursor_ok R packed start c" "cu_pos c + n \<le> length plain"
  shows "\<exists>c'. decode_into sdk m h n c = Some (cut (cu_pos c) n plain, c') \<and> cursor_ok R packed start c'
    \<and> cu_pos c' = cu_pos c + n"
  unfolding decode_into_def
  using feed_gives[OF sz_step_decodes[OF assms(1)] sz_stops_when_done[OF assms(1)] assms(2-4)] .

lemma sz_skip_gives:
  assumes "lzma_ok sdk R m props packed plain"
    and "\<And>k n. k + n \<le> length packed \<Longrightarrow> file_read h (start + k) n = cut k n packed"
    and "cursor_ok R packed start c" "cu_pos c \<le> target" "target \<le> length plain"
  shows "\<exists>c'. sz_skip_to sdk m h target c = Some (True, c') \<and> cursor_ok R packed start c' \<and> cu_pos c' = target"
  unfolding sz_skip_to_def
proof (rule skip_gives[OF _ assms(3-5)])
  fix n c
  assume c: "cursor_ok R packed start c" "cu_pos c + n \<le> length plain" "n \<le> WINDOW"
  from decode_into_gives[OF assms(1,2) c(1,2)] length_cut_full[OF c(2)]
  show "\<exists>b c'. decode_into sdk m h n c = Some (b, c') \<and> cursor_ok R packed start c' \<and> cu_pos c' = cu_pos c + n \<and> length b = n"
    by blast
qed

section \<open>Reads\<close>

lemma decode_at_gives:
  assumes "sz_stream_ok sdk R h ix e packed plain s" "sf_method (si_folders ix ! unat (se_folder e)) \<noteq> kCopy"
    "target + n \<le> length plain"
  shows "\<exists>s'. decode_at sdk h ix e target n s = Some (cut target n plain, s') \<and> sz_stream_ok sdk R h ix e packed plain s'"
proof -
  define f where "f = si_folders ix ! unat (se_folder e)"
  note s = assms(1)[unfolded sz_stream_ok_def f_def[symmetric]]
  note H = s[THEN conjunct2, THEN conjunct1, unfolded sz_entry_holds_def Let_def f_def[symmetric]]
  have m: "sf_method f \<noteq> kCopy" using assms(2) by (simp add: f_def)
  have L: "lzma_ok sdk R (sf_method f) (sf_props f) packed plain" using H m by simp
  obtain d0 where d0: "lz_new sdk (sf_method f) (sf_props f) = Some d0" "R d0 0 0"
    and p: "sf_method f = kLzma2 \<longrightarrow> length (sf_props f) = 1" using L unfolding lzma_ok_def by blast
  have F: "\<And>k n. k + n \<le> length packed \<Longrightarrow> file_read h (unat (sf_pack_pos f) + k) n = cut k n packed" using H by blast
  let ?c = "\<lparr>cu_dec = d0, cu_pend = [], cu_left = length packed, cu_fpos = unat (sf_pack_pos f), cu_pos = 0\<rparr>"
  have r: "restart_sz sdk ix e s = (True, s\<lparr>st_cursor := Some ?c\<rparr>)"
    using H d0(1) p by (auto simp: restart_sz_def f_def[symmetric] Let_def)
  have cok: "cursor_ok R packed (unat (sf_pack_pos f)) ?c" using d0(2) by (simp add: cursor_ok_def cut_def)
  obtain c0 where c0: "(case st_cursor s of
        Some c \<Rightarrow> if target < cu_pos c then restart_sz sdk ix e s else (True, s)
      | None \<Rightarrow> restart_sz sdk ix e s) = (True, s\<lparr>st_cursor := Some c0\<rparr>)"
    "cursor_ok R packed (unat (sf_pack_pos f)) c0" "cu_pos c0 \<le> target"
  proof (cases "\<exists>c. st_cursor s = Some c \<and> cu_pos c \<le> target")
    case True
    then obtain c where c: "st_cursor s = Some c" "cu_pos c \<le> target" by blast
    have "s = s\<lparr>st_cursor := Some c\<rparr>" using c(1) by simp
    then show ?thesis using that[of c] c s by simp
  next
    case False
    then show ?thesis using that[of ?c] cok r by (cases "st_cursor s") simp_all
  qed
  have len: "target \<le> length plain" using assms(3) by simp
  from sz_skip_gives[OF L F c0(2,3) len]
  obtain c where c: "sz_skip_to sdk (sf_method f) h target c0 = Some (True, c)"
    "cursor_ok R packed (unat (sf_pack_pos f)) c" "cu_pos c = target" by blast
  have rm: "cu_pos c + n \<le> length plain" using c(3) assms(3) by simp
  from decode_into_gives[OF L F c(2) rm]
  obtain c' where c': "decode_into sdk (sf_method f) h n c = Some (cut target n plain, c')"
    "cursor_ok R packed (unat (sf_pack_pos f)) c'" unfolding c(3) by blast
  have "decode_at sdk h ix e target n s = Some (cut target n plain, s\<lparr>st_cursor := Some c'\<rparr>)"
    unfolding decode_at_def Let_def f_def[symmetric] c0(1) by (simp add: c(1) c'(1))
  moreover have "sz_stream_ok sdk R h ix e packed plain (s\<lparr>st_cursor := Some c'\<rparr>)"
    using s c'(2) m by (simp add: sz_stream_ok_def f_def[symmetric])
  ultimately show ?thesis by blast
qed

lemma copy_at_gives:
  assumes "sz_entry_holds sdk R h ix e packed plain" "sf_method (si_folders ix ! unat (se_folder e)) = kCopy"
    "unat (se_offset_in_folder e) + offset + n \<le> length plain"
  shows "copy_at h (sf_pack_pos (si_folders ix ! unat (se_folder e)) + se_offset_in_folder e + of_nat offset) n
    = cut (unat (se_offset_in_folder e) + offset) n plain"
proof -
  define f where "f = si_folders ix ! unat (se_folder e)"
  note H = assms(1)[unfolded sz_entry_holds_def Let_def f_def[symmetric]]
  have p: "packed = plain" using H assms(2) by (simp add: f_def)
  have "unat (sf_pack_pos f + se_offset_in_folder e + of_nat offset)
      = unat (sf_pack_pos f) + (unat (se_offset_in_folder e) + offset)"
  proof -
    have b: "unat (sf_pack_pos f) + unat (se_offset_in_folder e) + offset < 2 ^ 63" using H p assms(3) by simp
    then have "sf_pack_pos f + se_offset_in_folder e + of_nat offset
        = of_nat (unat (sf_pack_pos f) + unat (se_offset_in_folder e) + offset)" by simp
    then show ?thesis using b by (simp only: unat_of_nat) simp
  qed
  then show ?thesis using H p assms(3) by (simp add: copy_at_def f_def[symmetric])
qed

definition sz_content :: "sz_entry \<Rightarrow> bytes \<Rightarrow> bytes" where
  "sz_content e plain = cut (unat (se_offset_in_folder e)) (unat (se_size e)) plain"

lemma sz_read_gives:
  assumes "sz_stream_ok sdk R h ix e packed plain s"
  shows "\<exists>s'. sz_read_at sdk ix e offset n s = Some (cut offset n (sz_content e plain), s')
    \<and> sz_stream_ok sdk R h ix e packed plain s'"
proof -
  define f where "f = si_folders ix ! unat (se_folder e)"
  have fl: "st_file s = Some h" "sz_entry_holds sdk R h ix e packed plain" using assms by (simp_all add: sz_stream_ok_def)
  note H = fl(2)[unfolded sz_entry_holds_def Let_def f_def[symmetric]]
  let ?o = "unat (se_offset_in_folder e)" and ?sz = "unat (se_size e)"
  show ?thesis
  proof (cases "?sz \<le> offset \<or> n = 0")
    case True
    then have "cut offset n (sz_content e plain) = []" by (auto simp: sz_content_def cut_eq_Nil length_cut)
    then show ?thesis using True fl(1) assms by (simp add: sz_read_at_def)
  next
    case False
    let ?n = "min n (?sz - offset)"
    have cc: "cut offset n (sz_content e plain) = cut (?o + offset) ?n plain"
      by (simp add: sz_content_def cut_cut)
    have le: "?o + offset + ?n \<le> length plain" using H False by linarith
    have u: "unat (se_offset_in_folder e + of_nat offset) = ?o + offset"
    proof -
      have "?o + offset < 2 ^ 63" using H False by linarith
      moreover have "se_offset_in_folder e + of_nat offset = of_nat (?o + offset)" by simp
      ultimately show ?thesis by (simp only: unat_of_nat) simp
    qed
    have r: "sz_read_at sdk ix e offset n s =
        (if sf_method f = kCopy then Some (copy_at h (sf_pack_pos f + se_offset_in_folder e + of_nat offset) ?n, s)
         else decode_at sdk h ix e (?o + offset) ?n s)"
      using False H fl(1) by (simp add: sz_read_at_def Let_def f_def[symmetric] u)
    show ?thesis
    proof (cases "sf_method f = kCopy")
      case True
      then show ?thesis
        using copy_at_gives[OF fl(2) _ le] assms unfolding r cc by (simp add: f_def)
    next
      case nc: False
      then show ?thesis
        using decode_at_gives[OF assms _ le] unfolding r cc by (simp add: f_def)
    qed
  qed
qed

text \<open>An open entry as a source of bytes for the filesystem's mirrors.\<close>

definition sz_source :: "'d lzma_sdk \<Rightarrow> sz_index \<Rightarrow> sz_entry \<Rightarrow> 'd sz_stream \<Rightarrow> nat \<Rightarrow> nat \<Rightarrow> bytes \<times> 'd sz_stream" where
  "sz_source sdk ix e s offset n = (case sz_read_at sdk ix e offset n s of None \<Rightarrow> ([], s) | Some r \<Rightarrow> r)"

interpretation sz: byte_source "sz_source sdk ix e" "sz_stream_ok sdk R h ix e packed plain" "sz_content e plain"
proof unfold_locales
  fix s off n
  assume "sz_stream_ok sdk R h ix e packed plain s"
  then obtain s' where "sz_read_at sdk ix e off n s = Some (cut off n (sz_content e plain), s')"
    "sz_stream_ok sdk R h ix e packed plain s'" using sz_read_gives by blast
  then show "sz_stream_ok sdk R h ix e packed plain (snd (sz_source sdk ix e s off n))"
    "fst (sz_source sdk ix e s off n) = cut off n (sz_content e plain)"
    by (simp_all add: sz_source_def)
qed

fun sz_reads :: "'d lzma_sdk \<Rightarrow> sz_index \<Rightarrow> sz_entry \<Rightarrow> (nat \<times> nat) list \<Rightarrow> 'd sz_stream \<Rightarrow> bytes list option" where
  "sz_reads sdk ix e [] s = Some []"
| "sz_reads sdk ix e ((offset, n) # rs) s =
     (case sz_read_at sdk ix e offset n s of None \<Rightarrow> None
      | Some (b, s') \<Rightarrow> map_option ((#) b) (sz_reads sdk ix e rs s'))"

lemma sz_reads_give:
  "sz_stream_ok sdk R h ix e packed plain s
     \<Longrightarrow> sz_reads sdk ix e rs s = Some (map (\<lambda>(offset, n). cut offset n (sz_content e plain)) rs)"
proof (induction rs arbitrary: s)
  case (Cons r rs)
  obtain offset n where r: "r = (offset, n)" by (cases r)
  from sz_read_gives[OF Cons.prems, of offset n]
  obtain s' where s': "sz_read_at sdk ix e offset n s = Some (cut offset n (sz_content e plain), s')"
    "sz_stream_ok sdk R h ix e packed plain s'" by blast
  show ?case using Cons.IH[OF s'(2)] by (simp add: r s'(1))
qed simp

text \<open>C29. A file in a solid block reads like a file: whatever reads are made through one open entry, in any
  order, each ends and gives the stretch of that entry it asks for and never a byte of the
  files that share the block with it, whether the block is stored, LZMA or LZMA2.\<close>

theorem sz_entry_reads_like_a_file:
  assumes "sz_entry_holds sdk R h ix e packed plain"
  shows "sz_reads sdk ix e rs (new_sz_stream (Some h)) =
    Some (map (\<lambda>(offset, n). take n (drop offset (take (unat (se_size e)) (drop (unat (se_offset_in_folder e)) plain)))) rs)"
proof -
  have "sz_stream_ok sdk R h ix e packed plain (new_sz_stream (Some h))"
    using assms by (simp add: sz_stream_ok_def new_sz_stream_def)
  from sz_reads_give[OF this] show ?thesis by (simp add: sz_content_def cut_def)
qed

text \<open>The second of two files that share a block of five bytes, under a decoder that flips every bit.\<close>

definition flip_sdk :: "nat lzma_sdk" where
  "flip_sdk = \<lparr>lz_new = (\<lambda>m props. Some 0),
     lz_step = (\<lambda>m k inp n. (k + min n (length inp), min n (length inp), map not (take n inp), True, False))\<rparr>"

definition shared_block :: sz_index where
  "shared_block = \<lparr>si_host_path = ''g.7z'', si_entries = [],
     si_folders = [\<lparr>sf_method = 0x21, sf_props = [24], sf_pack_pos = 2, sf_pack_size = 5, sf_unpack_size = 5\<rparr>], si_solid = True\<rparr>"

definition second_file :: sz_entry where
  "second_file = \<lparr>se_path = [0x62], se_size = 3, se_folder = 0, se_offset_in_folder = 2, se_crc = 0, se_has_crc = False\<rparr>"

lemma decodes_status:
  assumes "decodes f R packed plain" "\<And>d inp n. \<exists>st. g d inp n = (case f d inp n of (d', u, b, st0) \<Rightarrow> (d', u, b, st))"
  shows "decodes g R packed plain"
  unfolding decodes_def
proof (intro allI impI)
  fix d k p inp n d' u b st
  assume a: "R d k p" "k + length inp \<le> length packed" "inp = cut k (length inp) packed" "0 < n" "g d inp n = (d', u, b, st)"
  then obtain st0 where "f d inp n = (d', u, b, st0)" using assms(2)[of d inp n] by (cases "f d inp n") auto
  from assms(1)[unfolded decodes_def, rule_format, OF a(1-4) this]
  show "R d' (k + u) (p + length b) \<and> u \<le> length inp \<and> length b \<le> n \<and> p + length b \<le> length plain
    \<and> b = cut p (length b) plain
    \<and> (length b = n \<or> p + length b = length plain \<or> u = length inp \<and> k + u \<noteq> length packed)" .
qed

lemma flip_lzma_ok: "lzma_ok flip_sdk (\<lambda>d k p. d = k \<and> p = k) kLzma2 [24] packed (map not packed)"
proof -
  have "decodes (zl_inflate flip_zlib) (\<lambda>d k p. d = k \<and> p = k) packed (map not packed)"
    using flip_inflate_ok unfolding inflate_ok_def by blast
  then have "decodes (lz_step flip_sdk kLzma2) (\<lambda>d k p. d = k \<and> p = k) packed (map not packed)"
    by (rule decodes_status) (simp add: flip_zlib_def flip_sdk_def, blast)
  then show ?thesis by (simp add: lzma_ok_def flip_sdk_def)
qed

lemma shared_block_holds:
  "sz_entry_holds flip_sdk (\<lambda>d k p. d = k \<and> p = k) (\<lambda>pos n. Some (cut pos n [0, 0, 1, 2, 3, 4, 5])) shared_block second_file
     [1, 2, 3, 4, 5] (map not [1, 2, 3, 4, 5])"
proof -
  have "cut (2 + k) n [0, 0, 1, 2, 3, 4, 5] = cut k n [1, 2, 3, 4, 5 :: u8]" for k n
    by (simp add: cut_def)
  then show ?thesis
    using flip_lzma_ok[of "[1, 2, 3, 4, 5]"]
    by (simp add: sz_entry_holds_def shared_block_def second_file_def file_read_def kCopy_def kLzma2_def)
qed

theorem sz_entry_reads_like_a_file_witness:
  "sz_reads flip_sdk shared_block second_file [(1, 9), (0, 2)] (new_sz_stream (Some (\<lambda>pos n. Some (cut pos n [0, 0, 1, 2, 3, 4, 5]))))
     = Some [[not 4, not 5], [not 3, not 4]]"
  using sz_entry_reads_like_a_file[OF shared_block_holds, of "[(1, 9), (0, 2)]"] by (simp add: second_file_def)

end
