(* ===== verification/DriverText.thy ===== *)
theory DriverText
  imports SevenZipNames SevenZipStream ZipStream
begin

text \<open>
  The driver's texts and names (\<open>waterbox/rpcs3-driver.cpp\<close>): messages with their argument put in, the
  note of what the compatibility list says, JSON literals, and the title id of a game file, which is read
  through the archive readers. Strings are bytes as characters. The emulator's own parsers (disc images
  and PARAM.SFO) and the wiki's table are parameters.
\<close>

section \<open>Messages\<close>

definition TEXT_ARG :: string where "TEXT_ARG = [CHR 0x1F]"
definition TEXT_INNER :: string where "TEXT_INNER = [CHR 0x1E]"
definition TEXT_LINE :: string where "TEXT_LINE = [CHR 0x1D]"

text \<open>\<open>text.find("%0", from)\<close>.\<close>

fun find_mark :: "string \<Rightarrow> nat \<Rightarrow> nat option" where
  "find_mark [] i = None"
| "find_mark (c # cs) i = (if c = CHR ''%'' \<and> cs \<noteq> [] \<and> hd cs = CHR ''0'' then Some i else find_mark cs (Suc i))"

lemma find_mark_bounds: "find_mark cs i = Some k \<Longrightarrow> i \<le> k \<and> k + 2 \<le> i + length cs"
  by (induction cs i rule: find_mark.induct) (auto split: if_splits simp: Suc_le_eq)

function put_args :: "string \<Rightarrow> string \<Rightarrow> nat \<Rightarrow> string" where
  "put_args arg msg from =
     (case find_mark (drop from msg) from of
        None \<Rightarrow> msg
      | Some k \<Rightarrow> if from + 2 \<le> length msg
                  then put_args arg (take k msg @ arg @ drop (k + 2) msg) (k + length arg) else msg)"
  by pat_completeness auto
termination
  by (relation "measure (\<lambda>(arg, msg, from). length msg - from)") (auto dest!: find_mark_bounds)

declare put_args.simps [simp del]

definition localized_text :: "string list \<Rightarrow> nat \<Rightarrow> string option \<Rightarrow> string" where
  "localized_text table index args =
     put_args (case args of None \<Rightarrow> [] | Some a \<Rightarrow> a) (if index < length table then table ! index else []) 0"

text \<open>What it comes to: each \<open>%0\<close> of the message, and none of the argument, is replaced.\<close>

fun subst_marks :: "string \<Rightarrow> string \<Rightarrow> string" where
  "subst_marks arg [] = []"
| "subst_marks arg [c] = [c]"
| "subst_marks arg (c # d # cs) =
     (if c = CHR ''%'' \<and> d = CHR ''0'' then arg @ subst_marks arg cs else c # subst_marks arg (d # cs))"

lemma find_mark_shift: "find_mark cs i = map_option ((+) i) (find_mark cs 0)"
proof (induction cs arbitrary: i)
  case (Cons c cs)
  show ?case using Cons[of "Suc i"] Cons[of 1] by (cases "find_mark cs 0") auto
qed simp

lemma find_mark_None: "find_mark cs i = None \<Longrightarrow> subst_marks arg cs = cs"
  by (induction arg cs arbitrary: i rule: subst_marks.induct) (auto split: if_splits)

lemma find_mark_Some: "find_mark cs 0 = Some k \<Longrightarrow> subst_marks arg cs = take k cs @ arg @ subst_marks arg (drop (k + 2) cs)"
proof (induction arg cs arbitrary: k rule: subst_marks.induct)
  case (3 arg c d cs)
  show ?case
  proof (cases "c = CHR ''%'' \<and> d = CHR ''0''")
    case True
    then show ?thesis using 3(3) by simp
  next
    case False
    then have f: "find_mark (d # cs) 1 = Some k" using 3(3) by (auto split: if_splits)
    then obtain k' where k: "find_mark (d # cs) 0 = Some k'" "k = Suc k'" 
      using find_mark_shift[of "d # cs" 1] by (cases "find_mark (d # cs) 0") (simp_all del: find_mark.simps)
    show ?thesis using 3(2)[OF False k(1)] False k(2) by (auto simp del: find_mark.simps)
  qed
qed auto

lemma put_args_subst: "from \<le> length msg \<Longrightarrow> put_args arg msg from = take from msg @ subst_marks arg (drop from msg)"
proof (induction arg msg "from" rule: put_args.induct)
  case (1 arg msg "from")
  show ?case
  proof (cases "find_mark (drop from msg) from")
    case None
    then show ?thesis by (subst put_args.simps) (simp add: find_mark_None[OF None])
  next
    case (Some k)
    note b = find_mark_bounds[OF Some]
    have le: "from + 2 \<le> length msg" "k + 2 \<le> length msg" using b 1(2) by auto
    obtain k' where k: "find_mark (drop from msg) 0 = Some k'" "k = from + k'"
      using Some find_mark_shift[of "drop from msg" "from"] by (cases "find_mark (drop from msg) 0") auto
    let ?m = "take k msg @ arg @ drop (k + 2) msg"
    have "put_args arg msg from = put_args arg ?m (k + length arg)"
      using Some le(1) by (subst put_args.simps) simp
    also have "\<dots> = take (k + length arg) ?m @ subst_marks arg (drop (k + length arg) ?m)"
      using le by (intro 1(1)[OF Some le(1)]) simp
    also have "\<dots> = take k msg @ arg @ subst_marks arg (drop (k + 2) msg)" using le(2) by simp
    also have "take k msg = take from msg @ take k' (drop from msg)" by (simp add: k(2) take_add)
    finally show ?thesis using find_mark_Some[OF k(1), of arg] by (simp add: k(2) add_ac)
  qed
qed

lemma localized_text_subst:
  "index < length table \<Longrightarrow> localized_text table index (Some arg) = subst_marks arg (table ! index)"
  by (simp add: localized_text_def put_args_subst)

text \<open>The code points of a message, for the emulator's overlays.\<close>

definition cp_extra :: "u8 \<Rightarrow> nat" where
  "cp_extra c = (if c < 0x80 then 0 else if c < 0xE0 then 1 else if c < 0xF0 then 2 else 3)"

definition cp_step :: "u32 \<Rightarrow> u8 \<Rightarrow> u32" where
  "cp_step cp b = push_bit 6 cp OR ucast (b AND 0x3F)"

function u32_text :: "bytes \<Rightarrow> u32 list" where
  "u32_text [] = []"
| "u32_text (c # cs) =
     fold (\<lambda>b cp. cp_step cp b) (take (cp_extra c) cs)
       (if cp_extra c = 0 then ucast c else ucast (c AND drop_bit (cp_extra c) 0x3F))
     # u32_text (drop (cp_extra c) cs)"
  by pat_completeness auto
termination
  by (relation "measure length") auto

lemma lead_range:
  assumes "(c :: u8) AND m = v" "unat v + unat (not m) < 256"
  shows "unat v \<le> unat c \<and> unat c \<le> unat v + unat (not m)"
proof -
  have "c = (c AND m) OR (c AND not m)" by (rule bit_word_eqI) (auto simp: bit_simps)
  moreover have "(c AND m) AND (c AND not m) = 0" by (rule bit_word_eqI) (auto simp: bit_simps)
  ultimately have c: "c = v + (c AND not m)" using disjunctive_add_eq_or[of "c AND m" "c AND not m"] assms(1) by metis
  have le: "unat (c AND not m) \<le> unat (not m)" using word_and_le1[of c "not m"] by (simp add: word_le_nat_alt)
  then have u: "unat (v + (c AND not m)) = unat v + unat (c AND not m)"
    using assms(2) by (intro unat_add_lem[THEN iffD1]) simp
  show ?thesis using u[folded c] le by linarith
qed

lemma cp_step_cont: "cp_step cp (ucast (0x80 OR ((x :: u32) AND 0x3F))) = push_bit 6 cp OR take_bit 6 x"
  using cont_byte(2)[of x] by (simp add: cp_step_def low6_def)

lemma cp_extra_head:
  assumes "cp < 0x110000"
  shows "\<exists>c cs. utf8_bytes cp = c # cs \<and> length cs = cp_extra c
    \<and> fold (\<lambda>b cp. cp_step cp b) cs (if cp_extra c = 0 then ucast c else ucast (c AND drop_bit (cp_extra c) 0x3F)) = cp"
proof -
  have dr: "unat (drop_bit k cp) < m" if "unat cp < 2 ^ k * m" for k m
    using that by (rule unat_drop_bit_less)
  consider "cp < 0x80" | "\<not> cp < 0x80" "cp < 0x800" | "\<not> cp < 0x80" "\<not> cp < 0x800" "cp < 0x10000"
    | "\<not> cp < 0x80" "\<not> cp < 0x800" "\<not> cp < 0x10000" by blast
  then show ?thesis
  proof cases
    case 1
    then have s: "unat cp < 2 ^ 7" by (simp add: word_less_nat_alt)
    have e: "ucast (ucast cp :: u8) = cp"
      by (rule bit_word_eqI) (use bit_below[OF s] in \<open>fastforce simp: bit_simps\<close>)
    have "(ucast cp :: u8) < 0x80"
      using s by (simp add: word_less_nat_alt unsigned_ucast_eq take_bit_nat_eq_self)
    then show ?thesis using 1 e by (simp add: utf8_bytes_def cp_extra_def)
  next
    case 2
    then have x: "unat (drop_bit 6 cp) < 2 ^ 5" by (intro dr) (simp add: word_less_nat_alt)
    let ?c = "ucast (0xC0 OR drop_bit 6 cp) :: u8"
    have "0xC0 \<le> unat ?c \<and> unat ?c \<le> 0xDF" using lead_range[OF lead2(2)[OF x]] by simp
    then have ce: "cp_extra ?c = 1" by (simp add: cp_extra_def word_less_nat_alt)
    have "drop_bit 1 (0x3F :: u8) = 0x1F" by simp
    then show ?thesis using 2 ce lead2(3)[OF x] join2 by (simp add: utf8_bytes_def cp_step_cont)
  next
    case 3
    then have x: "unat (drop_bit 12 cp) < 2 ^ 4" by (intro dr) (simp add: word_less_nat_alt)
    let ?c = "ucast (0xE0 OR drop_bit 12 cp) :: u8"
    have "0xE0 \<le> unat ?c \<and> unat ?c \<le> 0xEF" using lead_range[OF lead3(3)[OF x]] by simp
    then have ce: "cp_extra ?c = 2" by (simp add: cp_extra_def word_less_nat_alt)
    have m: "drop_bit 2 (0x3F :: u8) = 0x0F" by simp
    have "push_bit 6 (push_bit 6 (drop_bit 12 cp) OR take_bit 6 (drop_bit 6 cp)) OR take_bit 6 cp = cp"
      using join3[of cp] by (simp add: push_bit_or or.assoc)
    then show ?thesis using 3 ce lead3(4)[OF x] by (simp add: utf8_bytes_def cp_step_cont m)
  next
    case 4
    then have x: "unat (drop_bit 18 cp) < 2 ^ 3" using assms by (intro dr) (simp add: word_less_nat_alt)
    let ?c = "ucast (0xF0 OR drop_bit 18 cp) :: u8"
    have "0xF0 \<le> unat ?c \<and> unat ?c \<le> 0xF7" using lead_range[OF lead4(4)[OF x]] by simp
    then have ce: "cp_extra ?c = 3" by (simp add: cp_extra_def word_less_nat_alt)
    have m: "drop_bit 3 (0x3F :: u8) = 0x07" by simp
    have "push_bit 6 (push_bit 6 (push_bit 6 (drop_bit 18 cp) OR take_bit 6 (drop_bit 12 cp)) OR take_bit 6 (drop_bit 6 cp))
        OR take_bit 6 cp = cp"
      using join4[of cp] by (simp add: push_bit_or or.assoc)
    then show ?thesis using 4 ce lead4(5)[OF x] by (simp add: utf8_bytes_def cp_step_cont m)
  qed
qed

lemma u32_text_units: "\<forall>cp \<in> set cps. cp < 0x110000 \<Longrightarrow> u32_text (concat (map utf8_bytes cps)) = cps"
proof (induction cps)
  case (Cons cp cps)
  obtain c cs where c: "utf8_bytes cp = c # cs" "length cs = cp_extra c"
    "fold (\<lambda>b cp. cp_step cp b) cs (if cp_extra c = 0 then ucast c else ucast (c AND drop_bit (cp_extra c) 0x3F)) = cp"
    using cp_extra_head[of cp] Cons.prems by auto
  show ?case using Cons c by simp
qed simp

section \<open>JSON\<close>

definition hex_low :: "nat \<Rightarrow> char" where
  "hex_low d = ''0123456789abcdef'' ! d"

definition json_char :: "char \<Rightarrow> string" where
  "json_char c =
     (if c = CHR 0x22 \<or> c = CHR 0x5C then [CHR 0x5C, c]
      else if of_char c < (0x20 :: nat)
      then [CHR 0x5C, CHR ''u'', CHR ''0'', CHR ''0'', hex_low (of_char c div 16), hex_low (of_char c mod 16)]
      else [c])"

definition json_string :: "string \<Rightarrow> string" where
  "json_string msg = CHR 0x22 # concat (map json_char msg) @ [CHR 0x22]"

text \<open>A reader of JSON strings (RFC 8259, section 7), behind the opening quote: the string and what
  follows it. Of the escapes by number it takes those of one byte.\<close>

definition hex_value :: "char \<Rightarrow> nat option" where
  "hex_value c =
     (let n = of_char c in
      if 48 \<le> n \<and> n \<le> 57 then Some (n - 48) else if 97 \<le> n \<and> n \<le> 102 then Some (n - 87)
      else if 65 \<le> n \<and> n \<le> 70 then Some (n - 55) else None)"

definition short_escape :: "char \<Rightarrow> char option" where
  "short_escape c =
     (if c = CHR 0x22 \<or> c = CHR 0x5C \<or> c = CHR ''/'' then Some c else if c = CHR ''b'' then Some (CHR 0x08)
      else if c = CHR ''f'' then Some (CHR 0x0C) else if c = CHR ''n'' then Some (CHR 0x0A)
      else if c = CHR ''r'' then Some (CHR 0x0D) else if c = CHR ''t'' then Some (CHR 0x09) else None)"

definition numbered_escape :: "string \<Rightarrow> char option" where
  "numbered_escape ds =
     (case map hex_value ds of
        [Some a, Some b, Some c, Some d] \<Rightarrow>
          (let n = ((a * 16 + b) * 16 + c) * 16 + d in if n < 0x80 then Some (char_of n) else None)
      | _ \<Rightarrow> None)"

fun json_read :: "string \<Rightarrow> (string \<times> string) option" where
  "json_read [] = None"
| "json_read (c # cs) =
     (if c = CHR 0x22 then Some ([], cs)
      else if c = CHR 0x5C
      then (case cs of
              [] \<Rightarrow> None
            | d # ds \<Rightarrow>
                if d = CHR ''u''
                then (case numbered_escape (take 4 ds) of
                        None \<Rightarrow> None
                      | Some e \<Rightarrow> map_option (\<lambda>(s, r). (e # s, r)) (json_read (drop 4 ds)))
                else (case short_escape d of
                        None \<Rightarrow> None
                      | Some e \<Rightarrow> map_option (\<lambda>(s, r). (e # s, r)) (json_read ds)))
      else if of_char c < (0x20 :: nat) then None
      else map_option (\<lambda>(s, r). (c # s, r)) (json_read cs))"

lemma less_16:
  assumes "d < (16 :: nat)"
  obtains "d = 0" | "d = 1" | "d = 2" | "d = 3" | "d = 4" | "d = 5" | "d = 6" | "d = 7" | "d = 8" | "d = 9"
    | "d = 10" | "d = 11" | "d = 12" | "d = 13" | "d = 14" | "d = 15"
proof -
  have "d = 0 \<or> d = 1 \<or> d = 2 \<or> d = 3 \<or> d = 4 \<or> d = 5 \<or> d = 6 \<or> d = 7 \<or> d = 8 \<or> d = 9
    \<or> d = 10 \<or> d = 11 \<or> d = 12 \<or> d = 13 \<or> d = 14 \<or> d = 15" using assms by presburger
  then show ?thesis using that by blast
qed

lemma hex_value_low: "d < 16 \<Longrightarrow> hex_value (hex_low d) = Some d"
proof -
  assume "d < 16"
  then show ?thesis by (cases rule: less_16) (auto simp: hex_value_def hex_low_def)
qed

lemma json_read_char: "json_read (json_char c @ r) = map_option (\<lambda>(s, r). (c # s, r)) (json_read r)"
proof (cases "c = CHR 0x22 \<or> c = CHR 0x5C")
  case True
  then show ?thesis by (auto simp: json_char_def short_escape_def)
next
  case False
  show ?thesis
  proof (cases "of_char c < (0x20 :: nat)")
    case True
    let ?n = "of_char c :: nat"
    have "numbered_escape [CHR ''0'', CHR ''0'', hex_low (?n div 16), hex_low (?n mod 16)] = Some c"
    proof -
      have "?n div 16 < 16" "?n mod 16 < 16" using True by auto
      moreover have "hex_value CHR ''0'' = Some 0" by (simp add: hex_value_def)
      moreover have "(?n div 16) * 16 + ?n mod 16 = ?n" by simp
      ultimately show ?thesis using True by (simp add: numbered_escape_def hex_value_low Let_def)
    qed
    then show ?thesis using True False by (simp add: json_char_def)
  next
    case no: False
    then show ?thesis using False by (simp add: json_char_def)
  qed
qed

lemma json_read_chars: "json_read (concat (map json_char msg) @ r) = map_option (\<lambda>(s, r). (msg @ s, r)) (json_read r)"
proof (induction msg)
  case Nil
  then show ?case by (cases "json_read r") auto
next
  case (Cons c msg)
  then show ?case by (cases "json_read r") (auto simp: json_read_char)
qed

text \<open>C32. A JSON string says what it was made of: reading the literal \<open>json_string\<close> makes of any text, quotes,
  backslashes and control characters in it, whatever comes after, gives back that text and stops at the
  literal's end, and no control character is left in the literal.\<close>

theorem json_string_round_trip:
  "hd (json_string msg) = CHR 0x22 \<and> json_read (tl (json_string msg) @ rest) = Some (msg, rest)
   \<and> list_all (\<lambda>c. (0x20 :: nat) \<le> of_char c) (json_string msg)"
proof -
  have h: "(0x20 :: nat) \<le> of_char (hex_low d)" if "d < 16" for d
  proof -
    show ?thesis using that by (cases rule: less_16) (auto simp: hex_low_def)
  qed
  have c: "list_all (\<lambda>c. (0x20 :: nat) \<le> of_char c) (json_char c)" for c
  proof (cases "of_char c < (0x20 :: nat)")
    case True
    then have "of_char c div 16 < (16 :: nat)" by simp
    then show ?thesis using h by (auto simp: json_char_def)
  qed (auto simp: json_char_def)
  have "list_all (\<lambda>c. (0x20 :: nat) \<le> of_char c) (concat (map json_char msg))"
    using c by (induction msg) auto
  then show ?thesis using json_read_chars[of msg "CHR 0x22 # rest"] by (simp add: json_string_def)
qed

section \<open>The compatibility note\<close>

record wiki_entry =
  w_title :: string
  w_status :: string
  w_kind :: char
  w_apply :: string
  w_unsupported :: string
  w_page :: string
  w_values :: string

record wiki =
  wiki_find :: "string \<Rightarrow> wiki_entry option"
  compat_snapshot :: string
  wiki_snapshot :: string

definition wiki_settings :: "wiki \<Rightarrow> wiki_entry \<Rightarrow> string" where
  "wiki_settings k w =
     (if w_kind w = CHR ''p'' then TEXT_LINE @ ''suggest.no_page''
      else if w_kind w = CHR ''u'' then TEXT_LINE @ ''suggest.page_unread'' @ TEXT_ARG @ wiki_snapshot k @ TEXT_ARG @ w_page w
      else (if w_kind w = CHR ''n'' then TEXT_LINE @ ''suggest.wiki_none'' @ TEXT_ARG @ wiki_snapshot k
            else if w_apply w \<noteq> [] \<and> w_unsupported w \<noteq> []
            then TEXT_LINE @ ''suggest.wiki_both'' @ TEXT_ARG @ wiki_snapshot k @ TEXT_ARG @ w_apply w @ TEXT_ARG @ w_unsupported w
            else if w_apply w \<noteq> []
            then TEXT_LINE @ ''suggest.wiki_apply'' @ TEXT_ARG @ wiki_snapshot k @ TEXT_ARG @ w_apply w
            else TEXT_LINE @ ''suggest.wiki_unsupported'' @ TEXT_ARG @ wiki_snapshot k @ TEXT_ARG @ w_unsupported w)
           @ TEXT_LINE @ ''suggest.source'' @ TEXT_ARG @ w_page w)"

definition wiki_note :: "wiki \<Rightarrow> string \<Rightarrow> string \<Rightarrow> string" where
  "wiki_note k tid why_none =
     (if tid = [] \<and> why_none \<noteq> [] then ''suggest.why_none'' @ TEXT_ARG @ why_none
      else if tid = [] then ''suggest.no_title_id''
      else case wiki_find k tid of
        None \<Rightarrow> ''suggest.not_listed'' @ TEXT_ARG @ tid @ TEXT_ARG @ compat_snapshot k
      | Some w \<Rightarrow> ''suggest.status'' @ TEXT_ARG @ compat_snapshot k @ TEXT_ARG @ w_title w @ TEXT_ARG @ tid
                  @ TEXT_ARG @ w_status w @ wiki_settings k w)"

definition suggestion :: "wiki \<Rightarrow> string \<Rightarrow> string \<Rightarrow> string" where
  "suggestion k tid why_none =
     (let w = (if tid = [] then None else wiki_find k tid) in
      ''{'' @ [CHR 0x22] @ ''title_id'' @ [CHR 0x22] @ '':'' @ json_string tid @ '','' @ [CHR 0x22] @ ''values'' @ [CHR 0x22] @ '':''
      @ (case w of Some e \<Rightarrow> if w_values e \<noteq> [] then w_values e else ''{}'' | None \<Rightarrow> ''{}'')
      @ '','' @ [CHR 0x22] @ ''note'' @ [CHR 0x22] @ '':'' @ json_string (wiki_note k tid why_none) @ ''}'')"

section \<open>Paths\<close>

definition resolve_path :: "string \<Rightarrow> string" where
  "resolve_path s =
     (let t = rev (dropWhile (\<lambda>c. c = CHR ''/'') (rev s)) in if t = [] then take 1 s else t)"

definition lower_char :: "char \<Rightarrow> char" where
  "lower_char c = (if (65 :: nat) \<le> of_char c \<and> of_char c \<le> (90 :: nat) then char_of (of_char c + (32 :: nat)) else c)"

definition ends_with :: "string \<Rightarrow> string \<Rightarrow> bool" where
  "ends_with s suffix_s \<longleftrightarrow>
     length suffix_s \<le> length s \<and> drop (length s - length suffix_s) (map lower_char s) = suffix_s"

end
