(* ===== verification/DriverTitle.thy ===== *)
theory DriverTitle
  imports DriverText
begin

text \<open>
  Which game a file is, before anything boots: \<open>title_id_in_sfb\<close> and \<open>title_id_of\<close> of
  \<open>waterbox/rpcs3-driver.cpp\<close>, composed with the models of the archive readers.
\<close>

section \<open>PS3_DISC.SFB\<close>

definition be32 :: "bytes \<Rightarrow> u32" where
  "be32 p = push_bit 24 (ucast (p ! 0)) OR push_bit 16 (ucast (p ! 1)) OR push_bit 8 (ucast (p ! 2)) OR ucast (p ! 3)"

definition ascii :: "string \<Rightarrow> bytes" where
  "ascii = map (\<lambda>c. of_nat (of_char c))"

definition trim_nuls :: "string \<Rightarrow> string" where
  "trim_nuls s = rev (dropWhile (\<lambda>c. c = CHR 0x00) (rev s))"

function sfb_entries :: "bytes \<Rightarrow> nat \<Rightarrow> string" where
  "sfb_entries b pos =
     (if pos + 0x20 \<le> length b \<and> pos < 0x200
      then (if take 9 (drop pos b) \<noteq> ascii ''TITLE_ID'' @ [0] then sfb_entries b (pos + 0x20)
            else let off = be32 (drop (pos + 0x10) b); len = be32 (drop (pos + 0x14) b)
              in if unat off \<ge> length b \<or> len > 16 \<or> unat (off + len) > length b then []
                 else trim_nuls (filter (\<lambda>c. c \<noteq> CHR ''-'') (to_chars (take (unat len) (drop (unat off) b)))))
      else [])"
  by pat_completeness auto
termination
  by (relation "measure (\<lambda>(b, pos). length b - pos)") auto

declare sfb_entries.simps [simp del]

definition title_id_in_sfb :: "bytes \<Rightarrow> string" where
  "title_id_in_sfb b =
     (if length b < 0x40 \<or> take 4 b \<noteq> ascii ''.SFB'' then [] else sfb_entries b 0x20)"

definition title_id_in_sfo :: "(bytes \<Rightarrow> string) \<Rightarrow> bytes \<Rightarrow> string" where
  "title_id_in_sfo psf b = (if length b < 20 then [] else psf b)"

section \<open>Where the archive holds the game's PARAM.SFO\<close>

definition param_sfo :: string where "param_sfo = ''PS3_GAME/PARAM.SFO''"

definition is_param :: "string \<Rightarrow> bool" where
  "is_param p \<longleftrightarrow>
     length param_sfo \<le> length p \<and> drop (length p - length param_sfo) p = param_sfo
     \<and> (length param_sfo < length p \<longrightarrow> p ! (length p - length param_sfo - 1) = CHR ''/'')"

definition depth :: "string \<Rightarrow> nat" where
  "depth p = length (filter (\<lambda>c. c = CHR ''/'') p)"

fun pick_from :: "string list \<Rightarrow> nat \<Rightarrow> (nat \<times> nat) option \<Rightarrow> (nat \<times> nat) option" where
  "pick_from [] i best = best"
| "pick_from (p # ps) i best =
     pick_from ps (Suc i)
       (if is_param p \<and> (case best of None \<Rightarrow> True | Some (_, d) \<Rightarrow> depth p < d) then Some (i, depth p) else best)"

definition pick :: "string list \<Rightarrow> nat option" where
  "pick ps = map_option fst (pick_from ps 0 None)"

lemma pick_from_spec:
  "pick_from ps i best = r \<Longrightarrow>
     (case r of None \<Rightarrow> best = None \<and> (\<forall>p \<in> set ps. \<not> is_param p)
      | Some (k, d) \<Rightarrow> (best = r \<and> (\<forall>p \<in> set ps. is_param p \<longrightarrow> d \<le> depth p)
           \<or> i \<le> k \<and> k < i + length ps \<and> is_param (ps ! (k - i)) \<and> depth (ps ! (k - i)) = d
             \<and> (\<forall>p \<in> set ps. is_param p \<longrightarrow> d \<le> depth p) \<and> (\<forall>j < k - i. is_param (ps ! j) \<longrightarrow> d < depth (ps ! j))
             \<and> (\<forall>k' d'. best = Some (k', d') \<longrightarrow> d < d')))"
proof (induction ps arbitrary: i best)
  case (Cons p ps)
  define b where "b = (if is_param p \<and> (case best of None \<Rightarrow> True | Some (_, d) \<Rightarrow> depth p < d) then Some (i, depth p) else best)"
  have r: "pick_from ps (Suc i) b = r" using Cons.prems by (simp add: b_def)
  note IH = Cons.IH[OF r]
  show ?case
  proof (cases r)
    case None
    then show ?thesis using IH by (auto simp: b_def split: if_splits option.splits)
  next
    case (Some kd)
    obtain k d where kd: "kd = (k, d)" by (cases kd)
    from IH Some kd consider (kept) "b = Some (k, d)" "\<forall>p \<in> set ps. is_param p \<longrightarrow> d \<le> depth p"
      | (later) "Suc i \<le> k" "k < Suc i + length ps" "is_param (ps ! (k - Suc i))" "depth (ps ! (k - Suc i)) = d"
        "\<forall>p \<in> set ps. is_param p \<longrightarrow> d \<le> depth p" "\<forall>j < k - Suc i. is_param (ps ! j) \<longrightarrow> d < depth (ps ! j)"
        "\<forall>k' d'. b = Some (k', d') \<longrightarrow> d < d'"
      by auto
    then show ?thesis
    proof cases
      case kept
      show ?thesis
      proof (cases "b = best")
        case True
        then have "is_param p \<longrightarrow> d \<le> depth p" using kept(1) unfolding b_def by (auto split: if_splits option.splits)
        then show ?thesis using kept True Some kd by simp
      next
        case False
        then have n: "is_param p" "k = i" "d = depth p" "case best of None \<Rightarrow> True | Some (_, d) \<Rightarrow> depth p < d"
          using kept(1) by (auto simp: b_def split: if_splits)
        then show ?thesis using kept(2) Some kd by (auto split: option.splits)
      qed
    next
      case later
      have e: "(p # ps) ! (k - i) = ps ! (k - Suc i)" using later(1) by (simp add: nth_Cons' Suc_le_eq)
      have pd: "is_param p \<longrightarrow> d < depth p" "\<forall>k' d'. best = Some (k', d') \<longrightarrow> d < d'"
        using later(7) unfolding b_def by (auto split: if_splits option.splits)
      have "\<forall>j < k - i. is_param ((p # ps) ! j) \<longrightarrow> d < depth ((p # ps) ! j)"
      proof (intro allI impI)
        fix j assume j: "j < k - i" "is_param ((p # ps) ! j)"
        show "d < depth ((p # ps) ! j)"
          using j pd(1) later(6) by (cases j) auto
      qed
      then show ?thesis using later e pd Some kd by auto
    qed
  qed
qed (auto split: option.split)

text \<open>The pick is the shallowest PARAM.SFO, the first of several as shallow.\<close>

lemma pick_shallowest:
  "pick ps = Some k \<Longrightarrow> k < length ps \<and> is_param (ps ! k) \<and> (\<forall>p \<in> set ps. is_param p \<longrightarrow> depth (ps ! k) \<le> depth p)
     \<and> (\<forall>j < k. is_param (ps ! j) \<longrightarrow> depth (ps ! k) < depth (ps ! j))"
  using pick_from_spec[of ps 0 None, OF refl] by (auto simp: pick_def split: option.splits)

lemma pick_none: "pick ps = None \<longleftrightarrow> (\<forall>p \<in> set ps. \<not> is_param p)"
  using pick_from_spec[of ps 0 None, OF refl] by (fastforce simp: pick_def split: option.splits)

section \<open>The title id\<close>

record iso_view =
  iv_sfo :: "string option"
  iv_sfb :: "bytes option"

record ('d, 'e) title_env =
  te_file :: "string \<Rightarrow> (int \<times> hfile) option"
  te_fits :: "nat \<Rightarrow> bool"
  te_zlib :: "'d zlib"
  te_sz :: "string \<Rightarrow> bool \<times> (sres \<times> szdb)"
  te_lzma :: "'e lzma_sdk"
  te_iso :: "string \<Rightarrow> iso_view option"
  te_psf :: "bytes \<Rightarrow> string"
  te_zip_error :: "zip_error \<Rightarrow> string"
  te_sz_error :: "sz_error \<Rightarrow> string"

definition open_hfile :: "('d, 'e) title_env \<Rightarrow> string \<Rightarrow> hfile option" where
  "open_hfile env path = map_option snd (te_file env path)"

definition title_id_pkg :: "('d, 'e) title_env \<Rightarrow> string \<Rightarrow> string" where
  "title_id_pkg env path =
     (case open_hfile env path of
        None \<Rightarrow> []
      | Some h \<Rightarrow>
          let head = file_read h 0 0x60 in
          if length head < 0x49 \<or> take 4 head \<noteq> 0x7F # ascii ''PKG'' \<or> head ! 0x36 \<noteq> 0x2D then []
          else to_chars (take 9 (drop 0x37 head)))"

definition title_id_iso :: "('d, 'e) title_env \<Rightarrow> string \<Rightarrow> string" where
  "title_id_iso env path =
     (case te_iso env path of
        None \<Rightarrow> []
      | Some v \<Rightarrow>
          (case iv_sfo v of
             Some (c # cs) \<Rightarrow> c # cs
           | _ \<Rightarrow> (case iv_sfb v of None \<Rightarrow> [] | Some b \<Rightarrow> title_id_in_sfb b)))"

definition SFO_ROOM :: nat where "SFO_ROOM = 64 * 1024"

definition title_id_zip :: "('d, 'e) title_env \<Rightarrow> string \<Rightarrow> (string \<times> string) option" where
  "title_id_zip env path =
     (case zip_open (te_fits env) path (te_file env path) of
        Inl e \<Rightarrow> Some ([], ''suggest.archive_unreadable'' @ TEXT_INNER @ te_zip_error env e)
      | Inr ix \<Rightarrow>
          (case pick (map ze_path (zi_entries ix)) of
             None \<Rightarrow> Some ([], ''suggest.no_param_sfo'')
           | Some i \<Rightarrow>
               map_option (\<lambda>(b, s). (title_id_in_sfo (te_psf env) b, []))
                 (zip_read_at (te_zlib env) (zi_entries ix ! i) 0 SFO_ROOM
                   (new_zip_stream (open_hfile env (zi_path ix))))))"

definition title_id_7z :: "('d, 'e) title_env \<Rightarrow> string \<Rightarrow> (string \<times> string) option" where
  "title_id_7z env path =
     (case sz_open path (te_file env path \<noteq> None) (fst (te_sz env path)) (snd (te_sz env path)) of
        Inl e \<Rightarrow> Some ([], ''suggest.archive_unreadable'' @ TEXT_INNER @ te_sz_error env e)
      | Inr ix \<Rightarrow>
          if si_solid ix then Some ([], ''suggest.solid'')
          else (case pick (map (\<lambda>e. to_chars (se_path e)) (si_entries ix)) of
             None \<Rightarrow> Some ([], ''suggest.no_param_sfo'')
           | Some i \<Rightarrow>
               map_option (\<lambda>(b, s). (title_id_in_sfo (te_psf env) b, []))
                 (sz_read_at (te_lzma env) ix (si_entries ix ! i) 0 SFO_ROOM
                   (new_sz_stream (open_hfile env (si_host_path ix))))))"

text \<open>The title id and the reason there is none; \<open>None\<close> when a decoder does not end.\<close>

definition title_id_of :: "('d, 'e) title_env \<Rightarrow> string \<Rightarrow> (string \<times> string) option" where
  "title_id_of env path =
     (if ends_with path ''.pkg'' then Some (title_id_pkg env path, [])
      else if ends_with path ''.iso'' then Some (title_id_iso env path, [])
      else if ends_with path ''.zip'' then title_id_zip env path
      else if ends_with path ''.7z'' then title_id_7z env path
      else Some ([], []))"

definition suggest :: "wiki \<Rightarrow> ('d, 'e) title_env \<Rightarrow> string \<Rightarrow> string option" where
  "suggest k env path = map_option (\<lambda>(tid, why_none). suggestion k tid why_none) (title_id_of env path)"

text \<open>The id of a game in a zip archive is the one of the shallowest PARAM.SFO of the archive, when its
  decoder keeps its contract.\<close>

lemma title_id_zip_reads:
  assumes "te_file env path = Some (n, h)" "zip_open (te_fits env) path (Some (n, h)) = Inr ix"
    "pick (map ze_path (zi_entries ix)) = Some i" "zi_path ix = path"
    "zip_entry_holds (te_zlib env) R h (zi_entries ix ! i) packed plain"
  shows "title_id_zip env path = Some (title_id_in_sfo (te_psf env) (take SFO_ROOM plain), [])"
proof -
  have r: "min SFO_ROOM (length plain - 0) < 2 ^ 32" by (simp add: SFO_ROOM_def)
  have h: "open_hfile env (zi_path ix) = Some h" using assms(1,4) by (simp add: open_hfile_def)
  from zip_read_gives[OF new_zip_stream_ok[OF assms(5)] r]
  show ?thesis using assms(1-3) h by (auto simp: title_id_zip_def cut_def)
qed

end
