(* ===== verification/DriverFrame.thy ===== *)
theory DriverFrame
  imports ZipIndex
begin

text \<open>
  A frame of the machine as the driver sees it (\<open>waterbox/rpcs3-driver.cpp\<close>): the pads the frontend
  sets, the queue of the main thread, the mixed audio and the picture. The emulator's scheduler,
  its mixer's samples and the guest's memory are parameters here.
\<close>

section \<open>Pads\<close>

definition PORTS :: nat where "PORTS = 7"
definition BUTTONS :: nat where "BUTTONS = 17"
definition AXES :: nat where "AXES = 4"

datatype digital = DIGITAL1 | DIGITAL2
datatype pad_key = UP | DOWN | LEFT | RIGHT | SELECT | START | L3 | R3 | TRIANGLE | CIRCLE | CROSS | SQUARE | L1 | R1 | L2 | R2 | PS
datatype stick = LEFT_X | LEFT_Y | RIGHT_X | RIGHT_Y

definition g_button_codes :: "(digital \<times> pad_key) list" where
  "g_button_codes =
     [(DIGITAL1, UP), (DIGITAL1, DOWN), (DIGITAL1, LEFT), (DIGITAL1, RIGHT), (DIGITAL1, SELECT), (DIGITAL1, START),
      (DIGITAL1, L3), (DIGITAL1, R3), (DIGITAL2, TRIANGLE), (DIGITAL2, CIRCLE), (DIGITAL2, CROSS), (DIGITAL2, SQUARE),
      (DIGITAL2, L1), (DIGITAL2, R1), (DIGITAL2, L2), (DIGITAL2, R2), (DIGITAL1, PS)]"

definition g_axis_offsets :: "stick list" where
  "g_axis_offsets = [LEFT_X, LEFT_Y, RIGHT_X, RIGHT_Y]"

datatype capability = PS3_CONFORMITY | PRESS_MODE | HP_ANALOG_STICK | ACTUATOR | SENSOR_MODE

record pad_button =
  b_code :: "digital \<times> pad_key"
  b_pressed :: bool
  b_value :: nat

record pad =
  m_player_id :: nat
  m_connected :: bool
  m_assign_changes :: bool
  m_capability :: "capability list"
  m_buttons :: "pad_button list"
  m_sticks :: "(stick \<times> u8) list"

record input_state =
  g_port_present :: "bool list"
  g_button :: "bool list list"
  g_axis :: "u8 list list"
  g_input_read :: bool
  m_pads :: "pad option list"
  connected_devices :: nat

definition no_input :: input_state where
  "no_input = \<lparr>g_port_present = True # replicate 6 False, g_button = replicate PORTS (replicate BUTTONS False),
     g_axis = replicate PORTS (replicate AXES 128), g_input_read = False, m_pads = replicate PORTS None, connected_devices = 0\<rparr>"

definition bindPadToDevice :: "pad \<Rightarrow> input_state \<Rightarrow> bool \<times> input_state" where
  "bindPadToDevice p s =
     (let port = m_player_id p in
      if port \<ge> PORTS \<or> \<not> g_port_present s ! port then (False, s)
      else (True, s\<lparr>m_pads := (m_pads s)[port := Some (p\<lparr>m_connected := True, m_assign_changes := True,
        m_capability := [PS3_CONFORMITY, PRESS_MODE, HP_ANALOG_STICK, ACTUATOR, SENSOR_MODE],
        m_buttons := map (\<lambda>c. \<lparr>b_code = c, b_pressed = False, b_value = 0\<rparr>) g_button_codes,
        m_sticks := map (\<lambda>a. (a, 128)) g_axis_offsets\<rparr>)]\<rparr>))"

definition show_input :: "bool list \<Rightarrow> u8 list \<Rightarrow> pad \<Rightarrow> pad" where
  "show_input buttons axes p =
     p\<lparr>m_buttons := map (\<lambda>(b, on). b\<lparr>b_pressed := on, b_value := if on then 255 else 0\<rparr>) (zip (m_buttons p) buttons),
       m_sticks := map (\<lambda>((st, _), v). (st, v)) (zip (m_sticks p) axes)\<rparr>"

definition process_pads :: "input_state \<Rightarrow> input_state" where
  "process_pads s =
     s\<lparr>connected_devices := length (filter (\<lambda>p. p \<noteq> None) (m_pads s)),
       m_pads := map (\<lambda>(port, p). map_option (show_input (g_button s ! port) (g_axis s ! port)) p)
                   (zip [0..<PORTS] (m_pads s))\<rparr>"

definition pad_polled :: "input_state \<Rightarrow> input_state" where
  "pad_polled s = s\<lparr>g_input_read := True\<rparr>"

definition set_port :: "int \<Rightarrow> int \<Rightarrow> input_state \<Rightarrow> input_state" where
  "set_port port present s =
     (if 0 \<le> port \<and> port < int PORTS then s\<lparr>g_port_present := (g_port_present s)[nat port := present \<noteq> 0]\<rparr> else s)"

definition port_present :: "int \<Rightarrow> input_state \<Rightarrow> bool" where
  "port_present port s \<longleftrightarrow> 0 \<le> port \<and> port < int PORTS \<and> g_port_present s ! nat port"

definition set_button :: "int \<Rightarrow> int \<Rightarrow> int \<Rightarrow> input_state \<Rightarrow> input_state" where
  "set_button port index state s =
     (if 0 \<le> port \<and> port < int PORTS \<and> 0 \<le> index \<and> index < int BUTTONS
      then s\<lparr>g_button := (g_button s)[nat port := (g_button s ! nat port)[nat index := state \<noteq> 0]]\<rparr> else s)"

definition set_axis :: "int \<Rightarrow> int \<Rightarrow> int \<Rightarrow> input_state \<Rightarrow> input_state" where
  "set_axis port index v s =
     (if 0 \<le> port \<and> port < int PORTS \<and> 0 \<le> index \<and> index < int AXES
      then s\<lparr>g_axis := (g_axis s)[nat port := (g_axis s ! nat port)[nat index := of_int (max 0 (min v 255))]]\<rparr> else s)"

definition input_was_read :: "input_state \<Rightarrow> int" where
  "input_was_read s = (if g_input_read s then 1 else 0)"

definition input_ok :: "input_state \<Rightarrow> bool" where
  "input_ok s \<longleftrightarrow>
     length (g_port_present s) = PORTS \<and> length (g_button s) = PORTS \<and> (\<forall>r \<in> set (g_button s). length r = BUTTONS)
     \<and> length (g_axis s) = PORTS \<and> (\<forall>r \<in> set (g_axis s). length r = AXES) \<and> length (m_pads s) = PORTS
     \<and> (\<forall>p. Some p \<in> set (m_pads s) \<longrightarrow> length (m_buttons p) = BUTTONS \<and> length (m_sticks p) = AXES)"

lemma no_input_ok: "input_ok no_input"
  by (simp add: input_ok_def no_input_def PORTS_def)

lemma set_button_ok: "input_ok s \<Longrightarrow> input_ok (set_button port index state s)"
  by (auto simp: input_ok_def set_button_def dest!: set_update_subset_insert[THEN subsetD])

lemma set_axis_ok: "input_ok s \<Longrightarrow> input_ok (set_axis port index v s)"
  by (auto simp: input_ok_def set_axis_def dest!: set_update_subset_insert[THEN subsetD])

lemma set_port_ok: "input_ok s \<Longrightarrow> input_ok (set_port port present s)"
  by (simp add: input_ok_def set_port_def)

lemma bind_ok: "input_ok s \<Longrightarrow> input_ok (snd (bindPadToDevice p s))"
  by (auto simp: input_ok_def bindPadToDevice_def Let_def g_button_codes_def g_axis_offsets_def BUTTONS_def AXES_def
      dest!: set_update_subset_insert[THEN subsetD])

lemma process_ok: "input_ok s \<Longrightarrow> input_ok (process_pads s)"
proof -
  assume s: "input_ok s"
  have lp: "length (m_pads (process_pads s)) = PORTS" using s by (simp add: process_pads_def input_ok_def)
  have "length (m_buttons p) = BUTTONS \<and> length (m_sticks p) = AXES" if p: "Some p \<in> set (m_pads (process_pads s))" for p
  proof -
    obtain port where q: "port < PORTS" "m_pads (process_pads s) ! port = Some p"
      using p lp by (metis in_set_conv_nth)
    then obtain q where q': "m_pads s ! port = Some q" "p = show_input (g_button s ! port) (g_axis s ! port) q"
      using s by (auto simp: process_pads_def input_ok_def)
    have "Some q \<in> set (m_pads s)" using q(1) q'(1) s by (auto simp: in_set_conv_nth input_ok_def)
    then show ?thesis using s q(1) q'(2) by (simp add: input_ok_def show_input_def)
  qed
  then show ?thesis using s by (simp add: input_ok_def process_pads_def)
qed

text \<open>What the frontend set is what the machine's pad shows at its next poll.\<close>

lemma process_shows_button:
  assumes "input_ok s" "port < PORTS" "m_pads s ! port = Some p" "b < BUTTONS"
  shows "\<exists>q. m_pads (process_pads s) ! port = Some q \<and> b_pressed (m_buttons q ! b) = g_button s ! port ! b
    \<and> b_code (m_buttons q ! b) = b_code (m_buttons p ! b)"
proof -
  have l: "length (m_pads s) = PORTS" "length (g_button s ! port) = BUTTONS" "length (m_buttons p) = BUTTONS"
    using assms nth_mem[of port "g_button s"] nth_mem[of port "m_pads s"] by (simp_all add: input_ok_def)
  have "m_pads (process_pads s) ! port = Some (show_input (g_button s ! port) (g_axis s ! port) p)"
    using l(1) assms(2,3) by (simp add: process_pads_def)
  then show ?thesis using l assms(4) by (simp add: show_input_def)
qed

section \<open>The main thread's queue\<close>

text \<open>Tasks are \<open>'t\<close>; \<open>exec\<close> runs one on the machine \<open>'m\<close> and gives the tasks it queues. A queue that
  never empties has no value.\<close>

record ('t, 'm) main_state =
  g_main_queue :: "('t \<times> bool) list"
  g_main_word :: u32
  woken :: "'t list"
  machine :: 'm

partial_function (option) run_main_queue ::
  "('t \<Rightarrow> 'm \<Rightarrow> ('t \<times> bool) list \<times> 'm) \<Rightarrow> ('t, 'm) main_state \<Rightarrow> ('t, 'm) main_state option" where
  "run_main_queue exec s =
     (case g_main_queue s of
        [] \<Rightarrow> Some s
      | (t, wake) # rest \<Rightarrow>
          (case exec t (machine s) of (queued, m) \<Rightarrow>
             run_main_queue exec (s\<lparr>g_main_queue := rest @ queued, machine := m,
                                    woken := if wake then woken s @ [t] else woken s\<rparr>)))"

definition call_from_main_thread ::
  "('t \<Rightarrow> 'm \<Rightarrow> ('t \<times> bool) list \<times> 'm) \<Rightarrow> nat \<Rightarrow> 't \<Rightarrow> bool \<Rightarrow> ('t, 'm) main_state \<Rightarrow> ('t, 'm) main_state" where
  "call_from_main_thread exec cur t wake s =
     (if cur = 0
      then (case exec t (machine s) of (queued, m) \<Rightarrow>
              s\<lparr>g_main_queue := g_main_queue s @ queued, machine := m, woken := if wake then woken s @ [t] else woken s\<rparr>)
      else s\<lparr>g_main_queue := g_main_queue s @ [(t, wake)], g_main_word := g_main_word s + 1\<rparr>)"

text \<open>Tasks that queue nothing are run in the order they came, each once.\<close>

lemma run_main_queue_order:
  "\<forall>(t, w) \<in> set (g_main_queue s). \<forall>m. fst (exec t m) = [] \<Longrightarrow>
   run_main_queue exec s = Some (s\<lparr>g_main_queue := [], machine := fold (\<lambda>(t, w) m. snd (exec t m)) (g_main_queue s) (machine s),
     woken := woken s @ map fst (filter snd (g_main_queue s))\<rparr>)"
proof (induction "g_main_queue s" arbitrary: s)
  case Nil
  then show ?case by (subst run_main_queue.simps) (simp flip: Nil)
next
  case (Cons tw rest)
  obtain t w where tw: "tw = (t, w)" by (cases tw)
  have "fst (exec t (machine s)) = []" using Cons.prems tw by (simp flip: Cons(2))
  then obtain m where m: "exec t (machine s) = ([], m)" by (cases "exec t (machine s)") simp
  let ?s = "s\<lparr>g_main_queue := rest, machine := m, woken := if w then woken s @ [t] else woken s\<rparr>"
  have "run_main_queue exec s = run_main_queue exec ?s"
    using m by (subst run_main_queue.simps) (simp flip: Cons(2) add: tw)
  also have "\<dots> = Some (?s\<lparr>g_main_queue := [], machine := fold (\<lambda>(t, w) m. snd (exec t m)) rest m,
     woken := woken ?s @ map fst (filter snd rest)\<rparr>)"
    using Cons(1)[of ?s] Cons.prems by (simp flip: Cons(2))
  finally show ?case using m by (simp flip: Cons(2) add: tw)
qed

section \<open>Audio\<close>

definition AUDIO_WANT :: nat where "AUDIO_WANT = 800"

record audio =
  g_audio_ring :: "u16 list"
  g_audio_frame :: "u16 list"

text \<open>\<open>Chimera_AudioBlock\<close>; \<open>s16\<close> is the clamping and scaling of a float to sixteen bits.\<close>

definition block_pairs :: "('f \<Rightarrow> u16) \<Rightarrow> (nat \<Rightarrow> 'f) \<Rightarrow> nat \<Rightarrow> u32 \<Rightarrow> u16 list" where
  "block_pairs s16 samples frames channels =
     concat (map (\<lambda>i. let l = samples (unat (of_nat i * channels));
                          r = (if channels > 1 then samples (unat (of_nat i * channels + 1)) else l)
                      in [s16 l, s16 r]) [0..<frames])"

definition audio_block :: "('f \<Rightarrow> u16) \<Rightarrow> (nat \<Rightarrow> 'f) \<Rightarrow> nat \<Rightarrow> u32 \<Rightarrow> audio \<Rightarrow> audio" where
  "audio_block s16 samples frames channels a =
     a\<lparr>g_audio_ring := g_audio_ring a @ block_pairs s16 samples frames channels\<rparr>"

definition frame_audio :: "audio \<Rightarrow> audio" where
  "frame_audio a =
     (let have_n = min (AUDIO_WANT * 2) (length (g_audio_ring a)) in
      a\<lparr>g_audio_frame := take have_n (g_audio_ring a) @ replicate (AUDIO_WANT * 2 - have_n) 0,
        g_audio_ring := drop have_n (g_audio_ring a)\<rparr>)"

text \<open>The machine mixing and frames ending, in any order; the frames that were shown are kept.\<close>

datatype 'f audio_event = Mixed "nat \<Rightarrow> 'f" nat u32 | Frame_ends

fun run_audio :: "('f \<Rightarrow> u16) \<Rightarrow> 'f audio_event list \<Rightarrow> audio \<Rightarrow> u16 list list \<Rightarrow> audio \<times> u16 list list" where
  "run_audio s16 [] a shown = (a, shown)"
| "run_audio s16 (Mixed f n c # es) a shown = run_audio s16 es (audio_block s16 f n c a) shown"
| "run_audio s16 (Frame_ends # es) a shown =
     run_audio s16 es (frame_audio a) (shown @ [g_audio_frame (frame_audio a)])"

fun mixed :: "('f \<Rightarrow> u16) \<Rightarrow> 'f audio_event list \<Rightarrow> u16 list" where
  "mixed s16 [] = []"
| "mixed s16 (Mixed f n c # es) = block_pairs s16 f n c @ mixed s16 es"
| "mixed s16 (Frame_ends # es) = mixed s16 es"

text \<open>What had been mixed when the \<open>j\<close>-th frame ended.\<close>

fun mixed_by :: "('f \<Rightarrow> u16) \<Rightarrow> nat \<Rightarrow> 'f audio_event list \<Rightarrow> u16 list" where
  "mixed_by s16 j [] = []"
| "mixed_by s16 j (Mixed f n c # es) = block_pairs s16 f n c @ mixed_by s16 j es"
| "mixed_by s16 0 (Frame_ends # es) = []"
| "mixed_by s16 (Suc j) (Frame_ends # es) = mixed_by s16 j es"

text \<open>A frame is a stretch of samples and silence.\<close>

definition frame_of :: "u16 list \<Rightarrow> u16 list \<Rightarrow> bool" where
  "frame_of f part \<longleftrightarrow> length f = 1600 \<and> (\<exists>k. f = part @ replicate k 0)"

lemma frame_audio_parts:
  "\<exists>part. frame_of (g_audio_frame (frame_audio a)) part \<and> g_audio_ring a = part @ g_audio_ring (frame_audio a)
     \<and> (length part < 1600 \<longrightarrow> g_audio_ring (frame_audio a) = [])"
  by (rule exI[of _ "take (min 1600 (length (g_audio_ring a))) (g_audio_ring a)"])
    (auto simp: frame_audio_def frame_of_def AUDIO_WANT_def Let_def min_def)

text \<open>No frame is short of samples while some wait: when its part is shorter than the frame, the
  parts up to it are all that had been mixed by then.\<close>

definition no_gaps :: "('f \<Rightarrow> u16) \<Rightarrow> 'f audio_event list \<Rightarrow> u16 list \<Rightarrow> u16 list list \<Rightarrow> bool" where
  "no_gaps s16 es waiting parts \<longleftrightarrow>
     (\<forall>j < length parts. length (parts ! j) < 1600 \<longrightarrow> concat (take (Suc j) parts) = waiting @ mixed_by s16 j es)"

lemma no_gaps_frame:
  assumes "waiting = part @ rest" "length part < 1600 \<longrightarrow> rest = []" "no_gaps s16 es rest parts"
  shows "no_gaps s16 (Frame_ends # es) waiting (part # parts)"
  unfolding no_gaps_def
proof (intro allI impI)
  fix j assume j: "j < length (part # parts)" "length ((part # parts) ! j) < 1600"
  show "concat (take (Suc j) (part # parts)) = waiting @ mixed_by s16 j (Frame_ends # es)"
    using j assms by (cases j) (auto simp: no_gaps_def)
qed

lemma run_audio_parts:
  "run_audio s16 es a shown = (a', shown') \<Longrightarrow>
     \<exists>fs parts. shown' = shown @ fs \<and> list_all2 frame_of fs parts
       \<and> g_audio_ring a @ mixed s16 es = concat parts @ g_audio_ring a'
       \<and> no_gaps s16 es (g_audio_ring a) parts"
proof (induction s16 es a shown rule: run_audio.induct)
  case (2 s16 f n c es a shown)
  then show ?case by (auto simp: audio_block_def no_gaps_def)
next
  case (3 s16 es a shown)
  obtain part where p: "frame_of (g_audio_frame (frame_audio a)) part" "g_audio_ring a = part @ g_audio_ring (frame_audio a)"
    "length part < 1600 \<longrightarrow> g_audio_ring (frame_audio a) = []"
    using frame_audio_parts by blast
  obtain fs parts where f: "shown' = (shown @ [g_audio_frame (frame_audio a)]) @ fs" "list_all2 frame_of fs parts"
    "g_audio_ring (frame_audio a) @ mixed s16 es = concat parts @ g_audio_ring a'"
    "no_gaps s16 es (g_audio_ring (frame_audio a)) parts" using 3 by auto
  show ?case
    by (rule exI[of _ "g_audio_frame (frame_audio a) # fs"], rule exI[of _ "part # parts"])
      (use f(1-3) p(1,2) no_gaps_frame[OF p(2,3) f(4)] in auto)
qed (auto simp: no_gaps_def)

text \<open>C33. No sample of the machine's sound is lost, repeated or moved: whatever the machine mixes and whenever
  frames end, every frame is exactly 800 stereo samples, the frames shown, without the silence
  at their ends, followed by what still waits are the mixed stream, and a frame has silence
  only when everything that had been mixed by then is in it or in the frames before it.\<close>

theorem frames_carry_the_whole_stream:
  assumes "run_audio s16 es \<lparr>g_audio_ring = [], g_audio_frame = []\<rparr> [] = (a, frames)"
  shows "\<exists>parts. list_all2 (\<lambda>f part. length f = 1600 \<and> (\<exists>k. f = part @ replicate k 0)) frames parts
    \<and> mixed s16 es = concat parts @ g_audio_ring a
    \<and> (\<forall>j < length parts. length (parts ! j) < 1600 \<longrightarrow> concat (take (Suc j) parts) = mixed_by s16 j es)"
  using run_audio_parts[OF assms] by (auto simp: frame_of_def[abs_def] no_gaps_def)

theorem frames_carry_the_whole_stream_witness:
  "\<exists>parts. list_all2 (\<lambda>f part. length f = 1600 \<and> (\<exists>k. f = part @ replicate k 0)) [[7, 9] @ replicate 1598 0] parts
    \<and> mixed id [Mixed (\<lambda>i. if i = 0 then 7 else 9) 1 2, Frame_ends] = concat parts"
proof -
  have "run_audio id [Mixed (\<lambda>i. if i = 0 then 7 else 9) 1 2, Frame_ends] \<lparr>g_audio_ring = [], g_audio_frame = []\<rparr> []
      = (\<lparr>g_audio_ring = [], g_audio_frame = [7, 9] @ replicate 1598 0\<rparr>, [[7, 9] @ replicate 1598 0])"
    by (simp add: audio_block_def block_pairs_def frame_audio_def AUDIO_WANT_def)
  from frames_carry_the_whole_stream[OF this] show ?thesis unfolding audio.simps append_Nil2 by blast
qed

end
