(* ===== verification/DriverMemory.thy ===== *)
theory DriverMemory
  imports ZipIndex
begin

unbundle bit_operations_syntax

text \<open>
  The guest's memory as the driver reads it (\<open>waterbox/rpcs3-driver.cpp\<close>): views of it for the frontend, the
  picture, the TTY, and the registers of a Raw SPU. \<open>guest\<close> is what the emulator says of an address:
  \<open>check_addr\<close> page by page, and the bytes.
\<close>

record guest =
  readable_page :: "u32 \<Rightarrow> bool"
  byte_at :: "u32 \<Rightarrow> u8"

text \<open>\<open>vm::check_addr(a, page_readable, n)\<close>: every page of the \<open>n\<close> bytes is readable.\<close>

definition check_addr :: "guest \<Rightarrow> u32 \<Rightarrow> u32 \<Rightarrow> bool" where
  "check_addr g a n \<longleftrightarrow>
     list_all (\<lambda>p. p < 2 ^ 20 \<and> readable_page g (of_nat p)) [unat a div 4096..<(unat a + unat n + 4095) div 4096]"

definition page_room :: "u32 \<Rightarrow> u32" where
  "page_room a = 4096 - (a AND 4095)"

lemma unat_page_room: "unat (page_room a) = 4096 - unat a mod 4096"
proof -
  have "(4095 :: u32) = mask 12" by (simp add: mask_eq_exp_minus_1)
  then have m: "a AND 4095 = take_bit 12 a" by (simp add: take_bit_eq_mask)
  have u: "unat (a AND 4095) = unat a mod 4096" by (simp add: m take_bit_eq_mod unat_mod_distrib)
  have "unat (4096 - (a AND 4095)) = unat (4096 :: u32) - unat (a AND 4095)"
    by (rule unat_sub) (simp add: word_le_nat_alt u less_imp_le)
  then show ?thesis by (simp add: page_room_def u)
qed

lemma page_split:
  obtains q r where "(x :: nat) = q * 4096 + r" "r < 4096" "x div 4096 = q" "x mod 4096 = r"
  using div_mult_mod_eq[of x 4096] that[of "x div 4096" "x mod 4096"] by simp

lemma page_round: "(r :: nat) + n \<le> 4096 \<Longrightarrow> 0 < n \<Longrightarrow> (q * 4096 + r + n + 4095) div 4096 = q + 1"
proof -
  assume a: "r + n \<le> 4096" "0 < n"
  have "(r + n + 4095) div 4096 = 1" by (rule div_nat_eqI) (use a in simp_all)
  moreover have "(q * 4096 + (r + n + 4095)) div 4096 = q + (r + n + 4095) div 4096" by simp
  ultimately show ?thesis by (simp add: add.assoc)
qed

lemma page_same: "(r :: nat) + i < 4096 \<Longrightarrow> (q * 4096 + r + i) div 4096 = q"
  by (simp add: add.assoc)

lemma room_pos: "0 < unat (page_room a)" "unat (page_room a) \<le> 4096"
  by (simp_all add: unat_page_room)

section \<open>Views\<close>

definition chunk :: "guest \<Rightarrow> u32 \<Rightarrow> u32 \<Rightarrow> bytes" where
  "chunk g a n =
     (if check_addr g a n then map (\<lambda>i. byte_at g (a + of_nat i)) [0..<unat n] else replicate (unat n) 0)"

function read_loop :: "guest \<Rightarrow> u32 \<Rightarrow> u32 \<Rightarrow> u32 \<Rightarrow> bytes \<Rightarrow> bytes" where
  "read_loop g offset len_w fin dst =
     (if fin < len_w
      then let a = offset + fin; n = min (page_room a) (len_w - fin)
        in read_loop g offset len_w (fin + n) (dst @ chunk g a n)
      else dst)"
  by pat_completeness auto
termination
proof (relation "measure (\<lambda>(g, offset, len_w, fin, dst). unat len_w - unat fin)")
  fix offset len_w fin :: u32 and dst :: bytes and g :: guest and a n :: u32
  assume a: "fin < len_w" "a = offset + fin" "n = min (page_room a) (len_w - fin)"
  have s: "unat (len_w - fin) = unat len_w - unat fin" using a(1) by (intro unat_sub) simp
  have n: "0 < unat n" "unat n \<le> unat len_w - unat fin"
    using a(1,3) s room_pos[of a] by (auto simp: min_def word_le_nat_alt word_less_nat_alt)
  have "unat (fin + n) = unat fin + unat n"
    using n(2) a(1) unsigned_less[of len_w, where ?'a = nat]
    by (intro unat_add_lem[THEN iffD1]) (simp add: word_less_nat_alt)
  then show "((g, offset, len_w, fin + n, dst @ chunk g a n), (g, offset, len_w, fin, dst))
      \<in> measure (\<lambda>(g, offset, len_w, fin, dst). unat len_w - unat fin)"
    using n a(1) by (simp add: word_less_nat_alt)
qed simp

declare read_loop.simps [simp del]

definition read_main_memory :: "guest \<Rightarrow> u32 \<Rightarrow> u32 \<Rightarrow> bytes" where
  "read_main_memory g offset len_w = read_loop g offset len_w 0 []"

definition view_byte :: "guest \<Rightarrow> u32 \<Rightarrow> u8" where
  "view_byte g a = (if readable_page g (a div 4096) then byte_at g a else 0)"

lemma in_page:
  assumes "i < unat (page_room a)"
  shows "unat (a + of_nat i) = unat a + i" "(a + of_nat i) div 4096 = a div 4096"
proof -
  have "i < 4096 - unat a mod 4096" using assms by (simp add: unat_page_room)
  then have i0: "i + unat a mod 4096 < 4096" by (simp add: less_diff_conv)
  obtain q r where qr: "unat a = q * 4096 + r" "r < 4096" "unat a div 4096 = q" "unat a mod 4096 = r" by (rule page_split)
  have "q * 4096 < 2 ^ 32" using qr(1) unsigned_less[of a, where ?'a = nat] by simp
  then have q: "q + 1 \<le> 1048576" by simp
  have i: "i + r < 4096" using i0 qr(4) by simp
  have "unat a + i < 4294967296" using q i qr(1) by linarith
  then have lt: "unat a + i < 2 ^ 32" by simp
  then show u: "unat (a + of_nat i) = unat a + i"
    by (subst unat_add_lem[THEN iffD1]) (simp_all add: unat_of_nat)
  have "(unat a + i) div 4096 = unat a div 4096"
    unfolding qr(3) unfolding qr(1) using page_same[of r i q] i by (simp add: add.commute)
  then show "(a + of_nat i) div 4096 = a div 4096" by (simp add: word_unat_eq_iff unat_div u)
qed

lemma check_addr_page:
  assumes "0 < unat n" "unat n \<le> unat (page_room a)"
  shows "check_addr g a n \<longleftrightarrow> readable_page g (a div 4096)"
proof -
  have r: "unat n \<le> 4096 - unat a mod 4096" using assms(2) by (simp add: unat_page_room)
  obtain q r where qr: "unat a = q * 4096 + r" "r < 4096" "unat a div 4096 = q" "unat a mod 4096 = r" by (rule page_split)
  have r2: "unat n + r \<le> 4096" using r qr(2,4) by (simp add: le_diff_conv2)
  have d: "(unat a + unat n + 4095) div 4096 = unat a div 4096 + 1"
    unfolding qr(3) unfolding qr(1) by (rule page_round) (use r2 assms(1) in simp_all)
  have l: "unat a div 4096 < 2 ^ 20" using unsigned_less[of a, where ?'a = nat] by (simp add: less_mult_imp_div_less)
  have "(of_nat (unat a div 4096) :: u32) = a div 4096"
    by (rule word_unat_eq_iff[THEN iffD2]) (use l in \<open>simp add: unat_div unat_of_nat\<close>)
  then show ?thesis using l by (simp add: check_addr_def d)
qed

lemma chunk_view:
  assumes "0 < unat n" "unat n \<le> unat (page_room a)"
  shows "chunk g a n = map (\<lambda>i. view_byte g (a + of_nat i)) [0..<unat n]"
proof -
  have "map (\<lambda>i. view_byte g (a + of_nat i)) [0..<unat n]
      = map (\<lambda>i. if readable_page g (a div 4096) then byte_at g (a + of_nat i) else 0) [0..<unat n]"
    using in_page(2) assms(2) by (intro map_cong) (auto simp: view_byte_def)
  also have "\<dots> = chunk g a n"
    unfolding chunk_def check_addr_page[OF assms] by (cases "readable_page g (a div 4096)") (simp_all add: map_replicate_const)
  finally show ?thesis by (rule sym)
qed

lemma read_loop_view:
  "dst = map (\<lambda>i. view_byte g (offset + of_nat i)) [0..<unat fin] \<Longrightarrow> fin \<le> len_w \<Longrightarrow>
     read_loop g offset len_w fin dst = map (\<lambda>i. view_byte g (offset + of_nat i)) [0..<unat len_w]"
proof (induction g offset len_w fin dst rule: read_loop.induct)
  case (1 g offset len_w fin dst)
  show ?case
  proof (cases "fin < len_w")
    case True
    define a where "a = offset + fin"
    define n where "n = min (page_room a) (len_w - fin)"
    have s: "unat (len_w - fin) = unat len_w - unat fin" using True by (intro unat_sub) simp
    have n: "0 < unat n" "unat n \<le> unat len_w - unat fin" "unat n \<le> unat (page_room a)"
      using True s room_pos[of a] by (auto simp: n_def min_def word_le_nat_alt word_less_nat_alt)
    have u: "unat (fin + n) = unat fin + unat n"
      using n(2) True unsigned_less[of len_w, where ?'a = nat]
      by (intro unat_add_lem[THEN iffD1]) (simp add: word_less_nat_alt)
    have le: "fin + n \<le> len_w" using u n(2) True by (simp add: word_le_nat_alt word_less_nat_alt)
    have "chunk g a n = map (\<lambda>i. view_byte g (offset + of_nat (unat fin + i))) [0..<unat n]"
      using chunk_view[OF n(1,3)] by (simp add: a_def add.assoc)
    also have "\<dots> = map (\<lambda>i. view_byte g (offset + of_nat i)) [unat fin..<unat fin + unat n]"
    proof -
      have "[unat fin..<unat fin + unat n] = map (\<lambda>i. i + unat fin) [0..<unat n]"
        by (simp add: map_add_upt add.commute)
      then show ?thesis by (simp add: comp_def add.commute)
    qed
    finally have d: "dst @ chunk g a n = map (\<lambda>i. view_byte g (offset + of_nat i)) [0..<unat (fin + n)]"
      unfolding u 1(2) upt_add_eq_append[of 0 "unat fin" "unat n", simplified] by simp
    have "read_loop g offset len_w fin dst = read_loop g offset len_w (fin + n) (dst @ chunk g a n)"
      by (subst read_loop.simps, unfold Let_def a_def[symmetric] n_def[symmetric]) (simp only: True if_True)
    then show ?thesis using 1(1)[OF True a_def n_def d le] by (rule trans)
  next
    case False
    then have "fin = len_w" using 1(3) by simp
    then show ?thesis using 1(2) by (subst read_loop.simps) simp
  qed
qed

text \<open>C34. The frontend's view of memory is the machine's: whatever stretch is read, from any address, past the
  end of the address space (where it goes on at zero) and over pages that are not mapped, it has
  exactly the bytes asked for, each the guest's byte when its page can be read, and zero when it
  cannot.\<close>

theorem memory_view_is_bytewise:
  "read_main_memory g offset len_w
    = map (\<lambda>i. let a = offset + of_nat i in if readable_page g (a div 4096) then byte_at g a else 0) [0..<unat len_w]"
  unfolding read_main_memory_def by (subst read_loop_view) (simp_all add: view_byte_def Let_def)

section \<open>The digest\<close>

definition fnv_step :: "u8 \<Rightarrow> u64 \<Rightarrow> u64" where
  "fnv_step b h = (h XOR ucast b) * 1099511628211"

definition digest_page :: "guest \<Rightarrow> nat \<Rightarrow> u64 \<Rightarrow> u64" where
  "digest_page g k h =
     (let page = of_nat (k * 4096) in
      if \<not> check_addr g page 4096 then h
      else fold (\<lambda>i. fnv_step (byte_at g (page + of_nat i))) [0..<4096] h)"

definition main_memory_digest :: "guest \<Rightarrow> u64" where
  "main_memory_digest g = fold (digest_page g) [0..<0x10000] 1469598103934665603"

lemma digest_of_bytes:
  "main_memory_digest g =
     fold fnv_step (concat (map (\<lambda>k. if check_addr g (of_nat (k * 4096)) 4096
       then map (\<lambda>i. byte_at g (of_nat (k * 4096) + of_nat i)) [0..<4096] else []) [0..<0x10000])) 1469598103934665603"
proof -
  have "digest_page g k h = fold fnv_step (if check_addr g (of_nat (k * 4096)) 4096
      then map (\<lambda>i. byte_at g (of_nat (k * 4096) + of_nat i)) [0..<4096] else []) h" for k h
  proof -
    have "(if \<not> c then h else fold (\<lambda>i. fnv_step (f i)) ps h) = fold fnv_step (if c then map f ps else []) h"
      for c :: bool and f :: "nat \<Rightarrow> u8" and ps
      by (simp add: fold_map comp_def)
    then show ?thesis unfolding digest_page_def Let_def .
  qed
  then have p: "digest_page g = (\<lambda>k. fold fnv_step (if check_addr g (of_nat (k * 4096)) 4096
      then map (\<lambda>i. byte_at g (of_nat (k * 4096) + of_nat i)) [0..<4096] else []))" by (intro ext)
  have "fold (\<lambda>k. fold fnv_step (f k)) ks h = fold fnv_step (concat (map f ks)) h" for f ks h
    by (induction ks arbitrary: h) auto
  then show ?thesis unfolding main_memory_digest_def p .
qed

section \<open>The TTY\<close>

record tty_state =
  g_tty_bytes :: bytes
  g_tty_read :: nat

definition read_tty :: "bytes option \<Rightarrow> tty_state \<Rightarrow> bytes \<times> tty_state" where
  "read_tty f s =
     (let s1 = (case f of
                  None \<Rightarrow> s
                | Some b \<Rightarrow> if length b > g_tty_read s
                            then s\<lparr>g_tty_bytes := g_tty_bytes s @ drop (g_tty_read s) b, g_tty_read := length b\<rparr> else s)
      in (g_tty_bytes s1, s1))"

text \<open>While the machine only adds to its TTY, the frontend has all of it.\<close>

lemma tty_is_whole:
  assumes "g_tty_read s = length old" "g_tty_bytes s = old" "take (length old) b = old"
  shows "fst (read_tty (Some b) s) = b \<and> g_tty_read (snd (read_tty (Some b) s)) = length b"
proof -
  have b: "old @ drop (length old) b = b" using append_take_drop_id[of "length old" b] unfolding assms(3) .
  show ?thesis
  proof (cases "length old < length b")
    case True
    then show ?thesis by (simp add: read_tty_def Let_def assms(1,2) b)
  next
    case False
    then have "old = b" using assms(3) by simp
    then show ?thesis by (simp add: read_tty_def Let_def assms(1,2))
  qed
qed

end
