(* ===== verification/DriverVideo.thy ===== *)
theory DriverVideo
  imports DriverMemory
begin

unbundle bit_operations_syntax

text \<open>
  The picture and a Raw SPU's registers (\<open>waterbox/rpcs3-driver.cpp\<close>): \<open>flip\<close>, \<open>present_frame\<close>, and the
  window of problem-state registers that is served without a fault. The renderer's state, the SPU's
  registers and the scheduler's yield are parameters.
\<close>

section \<open>The picture\<close>

record video =
  g_video :: "u32 list"
  g_video_w :: int
  g_video_h :: int

record display_buffer =
  db_width :: u32
  db_height :: u32
  db_pitch :: u32
  db_address :: u32

definition be_word :: "guest \<Rightarrow> u32 \<Rightarrow> u32" where
  "be_word g a =
     push_bit 24 (ucast (byte_at g a)) OR push_bit 16 (ucast (byte_at g (a + 1)))
     OR push_bit 8 (ucast (byte_at g (a + 2))) OR ucast (byte_at g (a + 3))"

definition flip_row :: "guest \<Rightarrow> u32 \<Rightarrow> u32 \<Rightarrow> u32 list" where
  "flip_row g row w =
     (if \<not> check_addr g row (w * 4) then replicate (unat w) 0
      else map (\<lambda>x. be_word g (row + of_nat x * 4) OR 0xff000000) [0..<unat w])"

text \<open>\<open>buffer\<close> is the display buffer on show, when there is a renderer and the buffer is valid.\<close>

definition flip :: "bool \<Rightarrow> display_buffer option \<Rightarrow> guest \<Rightarrow> video \<Rightarrow> video" where
  "flip s_gpu buffer g v =
     (if s_gpu then v
      else case buffer of
        None \<Rightarrow> v
      | Some db \<Rightarrow>
          let w = db_width db; h = db_height db; pitch = (if db_pitch db \<noteq> 0 then db_pitch db else w * 4) in
          if w > 4096 \<or> h > 4096 then v
          else \<lparr>g_video = concat (map (\<lambda>y. flip_row g (db_address db + of_nat y * pitch) w) [0..<unat h]),
                g_video_w = uint w, g_video_h = uint h\<rparr>)"

text \<open>One pixel; reading past the data is \<open>None\<close>.\<close>

definition pixel :: "bool \<Rightarrow> bytes \<Rightarrow> nat \<Rightarrow> u32 option" where
  "pixel is_bgra data pos =
     (if pos + 2 < length data
      then let p0 = ucast (data ! pos); p1 = ucast (data ! (pos + 1)); p2 = ucast (data ! (pos + 2)) in
        Some (if is_bgra then p0 OR push_bit 8 p1 OR push_bit 16 p2 OR 0xff000000
              else p2 OR push_bit 8 p1 OR push_bit 16 p0 OR 0xff000000)
      else None)"

fun all_some :: "'a option list \<Rightarrow> 'a list option" where
  "all_some [] = Some []"
| "all_some (x # xs) = (case x of None \<Rightarrow> None | Some a \<Rightarrow> map_option ((#) a) (all_some xs))"

definition present_frame :: "bytes \<Rightarrow> u32 \<Rightarrow> u32 \<Rightarrow> u32 \<Rightarrow> bool \<Rightarrow> video \<Rightarrow> video option" where
  "present_frame data pitch width height is_bgra v =
     (if width = 0 \<or> height = 0 \<or> width > 4096 \<or> height > 4096 \<or> length data < unat pitch * unat height then Some v
      else map_option (\<lambda>px. \<lparr>g_video = px, g_video_w = uint width, g_video_h = uint height\<rparr>)
             (all_some (concat (map (\<lambda>y. map (\<lambda>x. pixel is_bgra data (y * unat pitch + x * 4)) [0..<unat width])
                [0..<unat height]))))"

definition video_ok :: "video \<Rightarrow> bool" where
  "video_ok v \<longleftrightarrow> 0 \<le> g_video_w v \<and> 0 \<le> g_video_h v \<and> length (g_video v) = nat (g_video_w v) * nat (g_video_h v)"

lemma all_some_length: "all_some xs = Some ys \<Longrightarrow> length ys = length xs"
  by (induction xs arbitrary: ys) (auto split: option.splits)

lemma all_some_ex: "(\<forall>x \<in> set xs. x \<noteq> None) \<Longrightarrow> all_some xs = Some (map the xs)"
  by (induction xs) auto

lemma length_rows: "(\<And>y. length (f y) = w) \<Longrightarrow> length (concat (map f ys)) = length ys * w"
  by (induction ys) auto

lemma flip_ok: "video_ok v \<Longrightarrow> video_ok (flip gpu buf g v)"
proof -
  assume v: "video_ok v"
  have r: "length (flip_row g row w) = unat w" for row w by (simp add: flip_row_def)
  show ?thesis
    using v r by (auto simp: flip_def video_ok_def Let_def length_rows[where w = "unat w" for w]
        mult.commute simp del: length_concat split: option.splits)
qed

lemma present_ok:
  assumes "video_ok v" "present_frame data pitch width height is_bgra v = Some v'"
  shows "video_ok v'"
proof -
  have "length ys = unat height * unat width"
    if "all_some (concat (map (\<lambda>y. map (\<lambda>x. pixel is_bgra data (y * unat pitch + x * 4)) [0..<unat width])
                [0..<unat height])) = Some ys" for ys
    using all_some_length[OF that] length_rows[of "\<lambda>y. map (\<lambda>x. pixel is_bgra data (y * unat pitch + x * 4)) [0..<unat width]" "unat width" "[0..<unat height]"]
    by simp
  then show ?thesis
    using assms by (auto simp: present_frame_def video_ok_def mult.commute split: if_splits)
qed

text \<open>With a pitch that holds a row, no pixel is read past the data.\<close>

lemma present_in_bounds:
  assumes "4 * unat width \<le> unat pitch"
  shows "present_frame data pitch width height is_bgra v \<noteq> None"
proof (cases "length data < unat pitch * unat height")
  case True
  then show ?thesis by (simp add: present_frame_def)
next
  case False
  have "y * unat pitch + x * 4 + 2 < length data" if "x < unat width" "y < unat height" for x y
  proof -
    have "(y + 1) * unat pitch \<le> unat height * unat pitch" using that(2) by (intro mult_le_mono1) simp
    moreover have "x * 4 + 4 \<le> unat pitch" using assms that(1) by linarith
    ultimately show ?thesis using False by (simp add: mult.commute)
  qed
  then have "\<forall>p \<in> set (concat (map (\<lambda>y. map (\<lambda>x. pixel is_bgra data (y * unat pitch + x * 4)) [0..<unat width])
      [0..<unat height])). p \<noteq> None" by (auto simp: pixel_def Let_def)
  then show ?thesis by (auto simp: present_frame_def all_some_ex)
qed

section \<open>Raw SPU registers\<close>

definition RAW_SPU_BASE_ADDR :: u32 where "RAW_SPU_BASE_ADDR = 0xE0000000"
definition RAW_SPU_OFFSET :: u32 where "RAW_SPU_OFFSET = 0x100000"
definition RAW_SPU_PROB_OFFSET :: u32 where "RAW_SPU_PROB_OFFSET = 0x40000"

definition raw_spu_is_mmio :: "u32 \<Rightarrow> bool" where
  "raw_spu_is_mmio a \<longleftrightarrow>
     a - RAW_SPU_BASE_ADDR < 6 * RAW_SPU_OFFSET \<and> a mod RAW_SPU_OFFSET \<ge> RAW_SPU_PROB_OFFSET"

text \<open>The SPU threads and their registers, in the machine \<open>'m\<close>.\<close>

record 'm spus =
  find_raw_spu :: "'m \<Rightarrow> u32 \<Rightarrow> nat option"
  read_reg :: "nat \<Rightarrow> u32 \<Rightarrow> 'm \<Rightarrow> u32 option \<times> 'm"
  write_reg :: "nat \<Rightarrow> u32 \<Rightarrow> u32 \<Rightarrow> 'm \<Rightarrow> bool \<times> 'm"
  give_way :: "'m \<Rightarrow> 'm"

definition raw_spu_for :: "'m spus \<Rightarrow> u32 \<Rightarrow> 'm \<Rightarrow> nat option" where
  "raw_spu_for k a m = find_raw_spu k m ((a - RAW_SPU_BASE_ADDR) div RAW_SPU_OFFSET)"

definition narrow :: "u32 \<Rightarrow> u32 \<Rightarrow> u32 \<Rightarrow> u64" where
  "narrow a len v =
     (let v1 = drop_bit (unat ((4 - len - a mod 4) * 8)) v
      in if len = 4 then ucast v1 else ucast (v1 AND (push_bit (unat (len * 8)) 1 - 1)))"

definition raw_spu_read :: "'m spus \<Rightarrow> u32 \<Rightarrow> u32 \<Rightarrow> 'm \<Rightarrow> u64 option \<times> 'm" where
  "raw_spu_read k a len m =
     (if \<not> raw_spu_is_mmio a \<or> len > 4 \<or> a mod 4 + len > 4 then (None, m)
      else case raw_spu_for k a m of
        None \<Rightarrow> (None, m)
      | Some t \<Rightarrow>
          (case read_reg k t (a AND - 4) (give_way k m) of
             (None, m1) \<Rightarrow> (None, m1)
           | (Some v, m1) \<Rightarrow> (Some (narrow a len v), m1)))"

definition raw_spu_write :: "'m spus \<Rightarrow> u32 \<Rightarrow> u32 \<Rightarrow> u64 \<Rightarrow> 'm \<Rightarrow> bool \<times> 'm" where
  "raw_spu_write k a len v m =
     (if \<not> raw_spu_is_mmio a \<or> len \<noteq> 4 \<or> a mod 4 \<noteq> 0 then (False, m)
      else case raw_spu_for k a m of
        None \<Rightarrow> (False, m)
      | Some t \<Rightarrow> write_reg k t a (ucast v) m)"

text \<open>A narrow read gives the bytes of the register it names, the register big-endian: the bits of byte
  \<open>a mod 4 + i\<close> are the \<open>i\<close>th of the value from the top.\<close>

lemma narrow_bits:
  assumes "0 < len" "len \<le> 4" "a mod 4 + len \<le> 4" "unat (a mod 4) + unat len \<le> 4"
  shows "narrow a len v = take_bit (8 * unat len) (drop_bit (8 * (4 - unat len - unat (a mod 4))) (ucast v))"
proof -
  have s: "unat ((4 - len - a mod 4) * 8) = 8 * (4 - unat len - unat (a mod 4))"
  proof -
    have a1: "unat (4 - len) = 4 - unat len" using assms(2) by (subst unat_sub) (simp_all add: word_le_nat_alt)
    have a2: "unat (4 - len - a mod 4) = 4 - unat len - unat (a mod 4)"
      using assms(4) a1 by (subst unat_sub) (simp_all add: word_le_nat_alt)
    then show ?thesis by (subst unat_mult_lem[THEN iffD1]) simp_all
  qed
  have l: "unat len \<in> {1, 2, 3, 4}" using assms(1,2) by (auto simp: word_le_nat_alt word_less_nat_alt)
  have w: "len = of_nat (unat len)" by simp
  have m: "push_bit n 1 - 1 = (mask n :: u32)" for n by (simp add: mask_eq_exp_minus_1 push_bit_eq_mult)
  show ?thesis
  proof (cases "len = 4")
    case True
    then have z: "unat (a mod 4) = 0" using assms(4) by simp
    have u: "unat len = 4" using True by simp
    have "(ucast v :: u64) = take_bit 32 (ucast v)"
      by (rule bit_word_eqI) (auto simp: bit_simps dest: bit_imp_le_length)
    then show ?thesis unfolding narrow_def Let_def s z u using True by simp
  next
    case False
    have e: "unat (len * 8) = 8 * unat len" using l by (subst unat_mult_lem[THEN iffD1]) auto
    show ?thesis
      unfolding narrow_def Let_def s e m using False
      by (simp add: take_bit_eq_mask[symmetric]) (rule bit_word_eqI, use l in \<open>auto simp: bit_simps\<close>)
  qed
qed

end
