(* ===== verification/DriverInstall.thy ===== *)
theory DriverInstall
  imports DriverTitle MemfsList ZipProps
begin

text \<open>
  What the driver puts into the machine before it boots (\<open>waterbox/rpcs3-driver.cpp\<close>): the saves of an earlier
  run, the project's packages and licences, and a game that is itself a package; and the saves it
  takes out again. Archives and the memory filesystem are their own models; the emulator's package
  reader and its PARAM.SFO parser are parameters.
\<close>

section \<open>State\<close>

record inst =
  in_fs :: memfs
  in_error :: string
  in_install_error :: string
  g_savedata_zip :: string
  g_packages :: "string list"
  g_raps :: "string list"
  g_package_references :: bool
  g_game_pkg_boot :: string
  g_game_pkg_unlicensed :: bool
  g_savedata_snapshot :: "(string \<times> bytes) list"

datatype extract_result = Extracted "bool list" "string list" | App_version string string | Extract_failed

record pkg_info =
  pi_ps3 :: bool
  pi_dec :: pkg_decryption
  pi_requires_license :: bool
  pi_patch :: bool

record pkg_reader =
  pr_info :: "string \<Rightarrow> memfs \<Rightarrow> pkg_info option"
  pr_extract :: "string list \<Rightarrow> memfs \<Rightarrow> extract_result \<times> memfs"
  pr_sfo :: "string \<Rightarrow> memfs \<Rightarrow> string \<times> string"

definition err :: "string \<Rightarrow> inst \<Rightarrow> bool \<times> inst" where
  "err e s = (False, s\<lparr>in_error := e\<rparr>)"

section \<open>Save data\<close>

definition k_user_home :: string where "k_user_home = ''config/dev_hdd0/home/00000001/''"
definition k_savedata_prefix :: string where "k_savedata_prefix = ''savedata/''"

fun has_dots :: "string \<Rightarrow> bool" where
  "has_dots [] = False"
| "has_dots (c # cs) = (c = CHR ''.'' \<and> cs \<noteq> [] \<and> hd cs = CHR ''.'' \<or> has_dots cs)"

definition under_savedata :: "string \<Rightarrow> bool" where
  "under_savedata p \<longleftrightarrow> take (length k_savedata_prefix) p = k_savedata_prefix \<and> \<not> has_dots p"

datatype seed_error = SaveNotZip zip_error | SaveNotPs3 string | SaveNotUnpacked string | SaveEmpty
  | SaveNoMemory | SaveNoNode

text \<open>One entry: read whole through a fresh stream, then put. A vector that cannot be had is
  \<open>SaveNoMemory\<close>, the null directory of \<open>memfs_put\<close> is \<open>SaveNoNode\<close>, a decoder that does not end \<open>None\<close>.\<close>

definition seed_entry ::
  "('d, 'e) title_env \<Rightarrow> zip_index \<Rightarrow> nat \<Rightarrow> memfs \<Rightarrow> (seed_error + memfs) option" where
  "seed_entry env ix i s =
     (let e = zi_entries ix ! i in
      if \<not> under_savedata (ze_path e) then Some (Inl (SaveNotPs3 (ze_path e)))
      else if \<not> te_fits env (unat (ze_size e)) then Some (Inl SaveNoMemory)
      else (case zip_read_at (te_zlib env) e 0 (unat (ze_size e)) (new_zip_stream (open_hfile env (zi_path ix))) of
              None \<Rightarrow> None
            | Some (b, _) \<Rightarrow>
                if length b \<noteq> unat (ze_size e) then Some (Inl (SaveNotUnpacked (ze_path e)))
                else (case memfs_put (k_user_home @ ze_path e) b s of
                        None \<Rightarrow> Some (Inl SaveNoNode) | Some s' \<Rightarrow> Some (Inr s'))))"

fun seed_loop :: "('d, 'e) title_env \<Rightarrow> zip_index \<Rightarrow> nat list \<Rightarrow> nat \<Rightarrow> memfs \<Rightarrow> (seed_error + nat \<times> memfs) option" where
  "seed_loop env ix [] files s = Some (Inr (files, s))"
| "seed_loop env ix (i # is) files s =
     (let p = ze_path (zi_entries ix ! i) in
      if p = [] \<or> last p = CHR ''/'' then seed_loop env ix is files s
      else (case seed_entry env ix i s of
              None \<Rightarrow> None
            | Some (Inl x) \<Rightarrow> Some (Inl x)
            | Some (Inr s') \<Rightarrow> seed_loop env ix is (Suc files) s'))"

definition seed_savedata :: "('d, 'e) title_env \<Rightarrow> string \<Rightarrow> memfs \<Rightarrow> (seed_error + memfs) option" where
  "seed_savedata env arc s =
     (if arc = [] then Some (Inr s)
      else case zip_open (te_fits env) arc (te_file env arc) of
        Inl e \<Rightarrow> Some (Inl (SaveNotZip e))
      | Inr ix \<Rightarrow>
          (case seed_loop env ix [0..<length (zi_entries ix)] 0 s of
             None \<Rightarrow> None
           | Some (Inl x) \<Rightarrow> Some (Inl x)
           | Some (Inr (files, s')) \<Rightarrow> if files = 0 then Some (Inl SaveEmpty) else Some (Inr s')))"

definition set_savedata :: "string option \<Rightarrow> inst \<Rightarrow> inst" where
  "set_savedata arc s = s\<lparr>g_savedata_zip := (case arc of None \<Rightarrow> [] | Some z \<Rightarrow> z)\<rparr>"

text \<open>The saves of the machine, by name.\<close>

definition savedata_count :: "inst \<Rightarrow> (nat \<times> inst) option" where
  "savedata_count s =
     map_option (\<lambda>fs. let snap = sort_key fst (map (\<lambda>(rel, b). (k_savedata_prefix @ rel, b)) fs)
                      in (length snap, s\<lparr>g_savedata_snapshot := snap\<rparr>))
       (memfs_list (k_user_home @ ''savedata'') (in_fs s))"

definition savedata_at :: "int \<Rightarrow> inst \<Rightarrow> (string \<times> bytes) option" where
  "savedata_at index s =
     (if 0 \<le> index \<and> nat index < length (g_savedata_snapshot s) then Some (g_savedata_snapshot s ! nat index) else None)"

definition savedata_name :: "int \<Rightarrow> inst \<Rightarrow> string option" where
  "savedata_name index s = map_option fst (savedata_at index s)"

definition savedata_size :: "int \<Rightarrow> inst \<Rightarrow> int" where
  "savedata_size index s = (case savedata_at index s of None \<Rightarrow> 0 | Some (_, b) \<Rightarrow> int (length b))"

definition savedata_data :: "int \<Rightarrow> inst \<Rightarrow> bytes option" where
  "savedata_data index s = map_option snd (savedata_at index s)"

section \<open>Packages\<close>

definition starts_with :: "string \<Rightarrow> string \<Rightarrow> bool" where
  "starts_with p s \<longleftrightarrow> take (length p) s = p"

definition base_name :: "string \<Rightarrow> string" where
  "base_name path = rev (takeWhile (\<lambda>c. c \<noteq> CHR ''/'') (rev path))"

text \<open>The readers of a list of packages: each must be valid, and one of the project's own is marked.\<close>

fun open_readers :: "pkg_reader \<Rightarrow> bool \<Rightarrow> (string \<times> string) list \<Rightarrow> memfs \<Rightarrow> (string + memfs)" where
  "open_readers pr marking [] s = Inr s"
| "open_readers pr marking ((path, name) # ps) s =
     (case pr_info pr path s of
        None \<Rightarrow> Inl (''error.not_package'' @ TEXT_ARG @ name)
      | Some i \<Rightarrow>
          open_readers pr marking ps
            (if marking \<and> starts_with (memfs_root @ ''/'') path \<and> pi_ps3 i
             then snd (memfs_mark_package (drop (length (memfs_root @ ''/'')) path) (pi_dec i) s) else s))"

definition install_pkg_paths ::
  "pkg_reader \<Rightarrow> string list \<Rightarrow> string list \<Rightarrow> inst \<Rightarrow> (bool \<times> string list) \<times> inst" where
  "install_pkg_paths pr paths names s =
     (if paths = [] then ((True, []), s)
      else case open_readers pr (g_package_references s) (zip paths names) (in_fs s) of
        Inl e \<Rightarrow> ((False, []), s\<lparr>in_install_error := e\<rparr>)
      | Inr fs1 \<Rightarrow>
          (case pr_extract pr paths fs1 of
             (App_version expected installed, fs2) \<Rightarrow>
               ((False, []), s\<lparr>in_fs := fs2,
                  in_install_error := ''error.package_version'' @ TEXT_INNER @ expected @ TEXT_INNER @ installed\<rparr>)
           | (Extract_failed, fs2) \<Rightarrow> ((False, []), s\<lparr>in_fs := fs2, in_install_error := ''error.package_not_installed''\<rparr>)
           | (Extracted oks bootable, fs2) \<Rightarrow>
               if False \<in> set oks then ((False, []), s\<lparr>in_fs := fs2, in_install_error := ''error.package_not_installed''\<rparr>)
               else ((True, bootable), s\<lparr>in_fs := fs2\<rparr>)))"

text \<open>Grafting a list of the host's files below a directory: the names given, or the first that does not open.\<close>

fun graft_all :: "(string \<Rightarrow> int option) \<Rightarrow> string \<Rightarrow> string list \<Rightarrow> memfs \<Rightarrow> string option \<times> memfs" where
  "graft_all found dir [] s = (None, s)"
| "graft_all found dir (name # ns) s =
     (case memfs_graft (dir @ base_name name) name (found name) s of
        (False, s') \<Rightarrow> (Some name, s')
      | (True, s') \<Rightarrow> graft_all found dir ns s')"

definition install_packages :: "pkg_reader \<Rightarrow> (string \<Rightarrow> int option) \<Rightarrow> string \<Rightarrow> inst \<Rightarrow> bool \<times> inst" where
  "install_packages pr found root s =
     (if g_packages s = [] then (True, s)
      else case graft_all found ''packages/'' (g_packages s) (memfs_mkdirs ''packages'' (in_fs s)) of
        (Some name, fs1) \<Rightarrow> err (''error.package_not_opened'' @ TEXT_ARG @ name) (s\<lparr>in_fs := fs1\<rparr>)
      | (None, fs1) \<Rightarrow>
          (case install_pkg_paths pr (map (\<lambda>n. root @ ''packages/'' @ base_name n) (g_packages s)) (g_packages s)
                  (s\<lparr>in_fs := fs1\<rparr>) of
             ((False, _), s1) \<Rightarrow> err (in_install_error s1) s1
           | ((True, _), s1) \<Rightarrow> (True, s1)))"

definition install_raps :: "(string \<Rightarrow> int option) \<Rightarrow> inst \<Rightarrow> bool \<times> inst" where
  "install_raps found s =
     (if g_raps s = [] then (True, s)
      else case graft_all found (k_user_home @ ''exdata/'') (g_raps s) (memfs_mkdirs (k_user_home @ ''exdata'') (in_fs s)) of
        (Some path, fs1) \<Rightarrow> err (''error.licence_not_opened'' @ TEXT_ARG @ path) (s\<lparr>in_fs := fs1\<rparr>)
      | (None, fs1) \<Rightarrow> (True, s\<lparr>in_fs := fs1\<rparr>))"

definition first_bootable :: "string list \<Rightarrow> string" where
  "first_bootable ps = (case filter (\<lambda>p. p \<noteq> []) ps of [] \<Rightarrow> [] | p # _ \<Rightarrow> p)"

definition k_tail :: string where "k_tail = ''USRDIR/EBOOT.BIN''"

definition boot_dir :: "string \<Rightarrow> string" where
  "boot_dir boot = (if length k_tail < length boot then take (length boot - length k_tail) boot else [])"

definition install_game_package :: "pkg_reader \<Rightarrow> string \<Rightarrow> string \<Rightarrow> inst \<Rightarrow> bool \<times> inst" where
  "install_game_package pr pkg_path display s =
     (case pr_info pr pkg_path (in_fs s) of
        None \<Rightarrow> err (''error.not_a_package'' @ TEXT_ARG @ display) s
      | Some i \<Rightarrow>
          if pi_patch i then err ''error.pkg_update'' s
          else
          (case install_pkg_paths pr [pkg_path] [display]
                  (s\<lparr>g_game_pkg_unlicensed := pi_requires_license i \<and> g_raps s = []\<rparr>) of
             ((False, _), s1) \<Rightarrow> err (in_install_error s1) s1
           | ((True, bootable), s1) \<Rightarrow>
               let boot = first_bootable bootable in
               if boot = [] then err ''error.pkg_content'' s1
               else (case pr_sfo pr (boot_dir boot @ ''PARAM.SFO'') (in_fs s1) of
                       (category, title_id) \<Rightarrow>
                         if category = ''GD''
                         then err (''error.pkg_disc_patch'' @ TEXT_ARG @ (if title_id = [] then ''error.no_title'' else title_id)) s1
                         else (True, s1\<lparr>g_game_pkg_boot := boot\<rparr>))))"

definition set_package_references :: "int \<Rightarrow> inst \<Rightarrow> inst" where
  "set_package_references on s = s\<lparr>g_package_references := on \<noteq> 0\<rparr>"

definition add_package :: "string option \<Rightarrow> inst \<Rightarrow> inst" where
  "add_package p s = (case p of Some (c # cs) \<Rightarrow> s\<lparr>g_packages := g_packages s @ [c # cs]\<rparr> | _ \<Rightarrow> s)"

definition add_rap :: "string option \<Rightarrow> inst \<Rightarrow> inst" where
  "add_rap p s = (case p of Some (c # cs) \<Rightarrow> s\<lparr>g_raps := g_raps s @ [c # cs]\<rparr> | _ \<Rightarrow> s)"

section \<open>What a seed leaves\<close>

abbreviation file_at :: "zip_index \<Rightarrow> nat \<Rightarrow> bool" where
  "file_at ix i \<equiv> ze_path (zi_entries ix ! i) \<noteq> [] \<and> last (ze_path (zi_entries ix ! i)) \<noteq> CHR ''/''"

definition save_path :: "zip_index \<Rightarrow> nat \<Rightarrow> string list" where
  "save_path ix i = split_path (k_user_home @ ze_path (zi_entries ix ! i))"

text \<open>Every file of the archive reads whole: a contract of the archive, not of the code.\<close>

definition saves_hold ::
  "('d, 'e) title_env \<Rightarrow> ('d \<Rightarrow> nat \<Rightarrow> nat \<Rightarrow> bool) \<Rightarrow> zip_index \<Rightarrow> (nat \<Rightarrow> bytes) \<Rightarrow> (nat \<Rightarrow> bytes) \<Rightarrow> bool" where
  "saves_hold env R ix packed plain \<longleftrightarrow>
     (\<exists>h. open_hfile env (zi_path ix) = Some h
        \<and> (\<forall>i < length (zi_entries ix). file_at ix i \<longrightarrow>
             zip_entry_holds (te_zlib env) R h (zi_entries ix ! i) (packed i) (plain i) \<and> length (plain i) < 2 ^ 32))"

lemma seed_entry_puts:
  assumes "saves_hold env R ix packed plain" "i < length (zi_entries ix)" "file_at ix i"
    "seed_entry env ix i s = Some (Inr s')"
  shows "under_savedata (ze_path (zi_entries ix ! i))"
    "memfs_put (k_user_home @ ze_path (zi_entries ix ! i)) (plain i) s = Some s'"
proof -
  let ?e = "zi_entries ix ! i"
  obtain h where h: "open_hfile env (zi_path ix) = Some h"
    and H: "zip_entry_holds (te_zlib env) R h ?e (packed i) (plain i)" "length (plain i) < 2 ^ 32"
    using assms(1-3) unfolding saves_hold_def by blast
  have n: "unat (ze_size ?e) = length (plain i)" using H(1) by (simp add: zip_entry_holds_def)
  obtain st where "zip_read_at (te_zlib env) ?e 0 (length (plain i)) (new_zip_stream (Some h)) = Some (plain i, st)"
    using zip_read_gives[OF new_zip_stream_ok[OF H(1)], of "length (plain i)" 0] H(2) by (auto simp: cut_def)
  then show "under_savedata (ze_path ?e)" "memfs_put (k_user_home @ ze_path ?e) (plain i) s = Some s'"
    using assms(4) by (auto simp: seed_entry_def Let_def h n split: if_splits option.splits)
qed

text \<open>What a run of entries leaves: the invariant, the number of files, every older file unless one is put at it or
  above it, and each file it put unless a later one replaces it.\<close>

definition seeded :: "fsenv \<Rightarrow> zip_index \<Rightarrow> (nat \<Rightarrow> bytes) \<Rightarrow> nat list \<Rightarrow> nat \<Rightarrow> memfs \<Rightarrow> memfs \<Rightarrow> bool" where
  "seeded fe ix plain is n s s' \<longleftrightarrow>
     fs_inv fe s' \<and> n = length (filter (file_at ix) is) \<and> fs_next s \<le> fs_next s'
     \<and> (\<forall>k < fs_next s. content fe s' k = content fe s k)
     \<and> (\<forall>i \<in> set is. file_at ix i \<longrightarrow> under_savedata (ze_path (zi_entries ix ! i)))
     \<and> (\<forall>qs k. tree s qs = Some k \<longrightarrow> \<not> is_dir s k \<longrightarrow> (\<forall>i \<in> set is. file_at ix i \<longrightarrow> \<not> prefix (save_path ix i) qs)
          \<longrightarrow> tree s' qs = Some k \<and> \<not> is_dir s' k)
     \<and> (\<forall>ys i zs. is = ys @ i # zs \<longrightarrow> file_at ix i \<longrightarrow> (\<forall>j \<in> set zs. file_at ix j \<longrightarrow> \<not> prefix (save_path ix j) (save_path ix i))
          \<longrightarrow> (\<exists>k. tree s' (save_path ix i) = Some k \<and> \<not> is_dir s' k \<and> content fe s' k = plain i))"

lemma seeded_skip: "\<not> file_at ix i \<Longrightarrow> seeded fe ix plain is n s s' \<Longrightarrow> seeded fe ix plain (i # is) n s s'"
  unfolding seeded_def by (auto simp: Cons_eq_append_conv)

lemma seeded_put:
  assumes inv: "fs_inv fe s" and i: "file_at ix i" "under_savedata (ze_path (zi_entries ix ! i))"
    and p: "memfs_put (k_user_home @ ze_path (zi_entries ix ! i)) (plain i) s = Some t"
    and r: "seeded fe ix plain is n t s'"
  shows "seeded fe ix plain (i # is) (Suc n) s s'"
proof -
  note P = put_spec[OF inv p, folded save_path_def]
  note r = r[unfolded seeded_def]
  obtain k where k: "tree t (save_path ix i) = Some k" "\<not> is_dir t k" "content fe t k = plain i" "k < fs_next t"
    using P(1) by blast
  show ?thesis unfolding seeded_def
  proof (intro conjI allI impI)
    show "fs_inv fe s'" "Suc n = length (filter (file_at ix) (i # is))" "fs_next s \<le> fs_next s'"
      using r i P(3) by auto
    show "content fe s' j = content fe s j" if "j < fs_next s" for j using that r P(2)[OF that] P(3) by auto
    show "\<forall>j \<in> set (i # is). file_at ix j \<longrightarrow> under_savedata (ze_path (zi_entries ix ! j))" using r i by auto
  next
    fix qs j
    assume q: "tree s qs = Some j" "\<not> is_dir s j" "\<forall>i \<in> set (i # is). file_at ix i \<longrightarrow> \<not> prefix (save_path ix i) qs"
    have "tree t qs = Some j \<and> \<not> is_dir t j" by (rule P(4)) (use q i in auto)
    then show "tree s' qs = Some j" "\<not> is_dir s' j" using r q(3) by auto
  next
    fix ys j zs
    assume a: "i # is = ys @ j # zs" "file_at ix j" "\<forall>l \<in> set zs. file_at ix l \<longrightarrow> \<not> prefix (save_path ix l) (save_path ix j)"
    show "\<exists>k. tree s' (save_path ix j) = Some k \<and> \<not> is_dir s' k \<and> content fe s' k = plain j"
    proof (cases ys)
      case Nil
      then have "j = i" "zs = is" using a(1) by auto
      then show ?thesis using r k a(3) by (intro exI[of _ k]) auto
    next
      case (Cons y ys')
      then have "is = ys' @ j # zs" using a(1) by simp
      then show ?thesis using r a(2,3) by blast
    qed
  qed
qed

lemma seed_loop_puts:
  assumes "saves_hold env R ix packed plain" "\<forall>i \<in> set is. i < length (zi_entries ix)" "fs_inv fe s"
    "seed_loop env ix is n s = Some (Inr (m, s'))"
  shows "n \<le> m \<and> seeded fe ix plain is (m - n) s s'"
  using assms(2-)
proof (induction "is" arbitrary: n s)
  case Nil
  then show ?case by (simp add: seeded_def)
next
  case (Cons i "is")
  note l = Cons.prems(1) and inv = Cons.prems(2) and run = Cons.prems(3)
  show ?case
  proof (cases "file_at ix i")
    case False
    then have "seed_loop env ix is n s = Some (Inr (m, s'))" using run by (auto simp: Let_def)
    then show ?thesis using Cons.IH[OF _ inv] l seeded_skip[OF False] by auto
  next
    case True
    then obtain t where t: "seed_entry env ix i s = Some (Inr t)" "seed_loop env ix is (Suc n) t = Some (Inr (m, s'))"
      using run by (auto simp: Let_def split: option.splits sum.splits)
    note e = seed_entry_puts[OF assms(1) _ True t(1)]
    have u: "under_savedata (ze_path (zi_entries ix ! i))"
      and p: "memfs_put (k_user_home @ ze_path (zi_entries ix ! i)) (plain i) s = Some t" using e l by auto
    have "Suc n \<le> m \<and> seeded fe ix plain is (m - Suc n) t s'"
      using Cons.IH[OF _ put_inv[OF inv p] t(2)] l by auto
    then show ?thesis using seeded_put[where plain = plain, OF inv True u p, of "is" "m - Suc n" s'] by (auto simp: Suc_diff_Suc)
  qed
qed

text \<open>C35. Seeding puts the archive's saves, and nothing else, in the console's home. When \<open>seed_savedata\<close>
  succeeds, the archive held at least one file and every file of it is below \<open>savedata/\<close> with no \<open>..\<close> in its
  path; each file that no later one replaces is in the filesystem below the user's home, with the bytes the
  archive holds for it; every file that was there keeps its bytes, and its path unless a save lies at it
  or above it; and the filesystem is well formed.\<close>

theorem seeded_saves_are_in_place:
  assumes "fs_inv fe s" "arc \<noteq> []" "zip_open (te_fits env) arc (te_file env arc) = Inr ix"
    "saves_hold env R ix packed plain" "seed_savedata env arc s = Some (Inr s')"
  shows "fs_inv fe s' \<and> (\<exists>i < length (zi_entries ix). file_at ix i)
    \<and> (\<forall>k < fs_next s. content fe s' k = content fe s k)
    \<and> (\<forall>qs k. tree s qs = Some k \<longrightarrow> \<not> is_dir s k \<longrightarrow>
         (\<forall>i < length (zi_entries ix). file_at ix i \<longrightarrow> \<not> prefix (save_path ix i) qs) \<longrightarrow>
         tree s' qs = Some k \<and> \<not> is_dir s' k)
    \<and> (\<forall>i < length (zi_entries ix). file_at ix i \<longrightarrow>
         under_savedata (ze_path (zi_entries ix ! i))
         \<and> ((\<forall>j < length (zi_entries ix). i < j \<longrightarrow> file_at ix j \<longrightarrow> \<not> prefix (save_path ix j) (save_path ix i)) \<longrightarrow>
              (\<exists>k. tree s' (save_path ix i) = Some k \<and> \<not> is_dir s' k \<and> content fe s' k = plain i)))"
proof -
  let ?n = "length (zi_entries ix)"
  obtain m where m: "seed_loop env ix [0..<?n] 0 s = Some (Inr (m, s'))" "m \<noteq> 0"
    using assms(2,3,5) by (auto simp: seed_savedata_def split: option.splits sum.splits if_splits)
  have S: "seeded fe ix plain [0..<?n] m s s'"
    using seed_loop_puts[OF assms(4) _ assms(1) m(1)] by simp
  have "filter (file_at ix) [0..<?n] \<noteq> []" using S m(2) by (auto simp: seeded_def)
  then have some: "\<exists>i < ?n. file_at ix i" by (auto simp: filter_empty_conv)
  have "\<exists>k. tree s' (save_path ix i) = Some k \<and> \<not> is_dir s' k \<and> content fe s' k = plain i"
    if "i < ?n" "file_at ix i" "\<forall>j < ?n. i < j \<longrightarrow> file_at ix j \<longrightarrow> \<not> prefix (save_path ix j) (save_path ix i)" for i
  proof -
    have "[0..<?n] = [0..<i] @ i # [Suc i..<?n]"
      using that(1) upt_add_eq_append[of 0 i "?n - i"] by (simp add: upt_conv_Cons)
    moreover have "\<forall>j \<in> set [Suc i..<?n]. file_at ix j \<longrightarrow> \<not> prefix (save_path ix j) (save_path ix i)"
      using that(3) by auto
    ultimately show ?thesis using S that(2) unfolding seeded_def by blast
  qed
  note last = this
  have frame: "tree s' qs = Some k \<and> \<not> is_dir s' k"
    if "tree s qs = Some k" "\<not> is_dir s k" "\<forall>i < ?n. file_at ix i \<longrightarrow> \<not> prefix (save_path ix i) qs" for qs k
    using S that unfolding seeded_def by simp
  have safe: "under_savedata (ze_path (zi_entries ix ! i))" if "i < ?n" "file_at ix i" for i
    using S that by (simp add: seeded_def)
  have "fs_inv fe s'" "\<forall>k < fs_next s. content fe s' k = content fe s k" using S by (simp_all add: seeded_def)
  then show ?thesis using some last frame safe by blast
qed

text \<open>An archive of one stored save of three bytes, put into an empty filesystem.\<close>

definition one_save :: "zip_entry list" where
  "one_save = [\<lparr>ze_path = ''savedata/a'', ze_size = 3, ze_csize = 3, ze_header_offset = 0, ze_method = 0\<rparr>]"

definition one_save_data :: bytes where
  "one_save_data = [0x50, 0x4b, 3, 4] @ replicate 26 0 @ [1, 2, 3]"

definition one_save_file :: bytes where
  "one_save_file = zip_write one_save_data one_save []"

definition no_szdb :: szdb where
  "no_szdb = \<lparr>db_folders = [], db_FoStartPackStreamIndex = [], db_PackPositions = [], db_dataPos = 0, db_UnpackSize = [],
     db_FolderToFile = [], db_IsDirs = [], db_names = [], db_sizes = [], db_CRCs = [], db_FileToFolder = [],
     db_UnpackPositions = []\<rparr>"

definition one_save_env :: "(nat, unit) title_env" where
  "one_save_env = \<lparr>te_file = (\<lambda>_. Some (int (length one_save_file), bytes_file one_save_file)), te_fits = (\<lambda>_. True),
     te_zlib = flip_zlib, te_sz = (\<lambda>_. (False, SZ_ERROR_NO_ARCHIVE, no_szdb)),
     te_lzma = \<lparr>lz_new = (\<lambda>_ _. None), lz_step = (\<lambda>_ d _ _. (d, 0, [], False, False))\<rparr>, te_iso = (\<lambda>_. None), te_psf = (\<lambda>_. []),
     te_zip_error = (\<lambda>_. []), te_sz_error = (\<lambda>_. [])\<rparr>"

lemma one_save_open: "zip_open (te_fits one_save_env) ''z'' (te_file one_save_env ''z'') = Inr \<lparr>zi_path = ''z'', zi_entries = one_save\<rparr>"
proof -
  have "zip_open (\<lambda>_. True) ''z'' (Some (int (length one_save_file), bytes_file one_save_file))
      = Inr \<lparr>zi_path = ''z'', zi_entries = one_save\<rparr>"
    unfolding one_save_file_def
  proof (rule zip_open_write)
    show "length (zip_write one_save_data one_save []) < 2 ^ 63"
      by (simp add: zip_write_def Let_def one_save_def one_save_data_def zip64_extra_def zip64_members_def big_def)
  qed (simp_all add: one_save_def zip_entry_ok_def zip_path_ok_def comment_ok_def)
  then show ?thesis by (simp add: one_save_env_def)
qed

lemma one_save_holds:
  "zip_entry_holds flip_zlib (\<lambda>d k p. d = k \<and> p = k) (bytes_file one_save_file) (one_save ! 0) [1, 2, 3] [1, 2, 3]"
proof -
  obtain rest where f: "one_save_file = [0x50, 0x4b, 3, 4] @ replicate 26 0 @ [1, 2, 3] @ rest"
    by (auto simp: one_save_file_def zip_write_def Let_def one_save_data_def)
  have c: "cut 0 30 one_save_file = [0x50, 0x4b, 3, 4] @ replicate 26 0" and l: "30 \<le> length one_save_file"
    by (simp_all add: cut_def f)
  have z: "ze_header_offset (one_save ! 0) = 0" by (simp add: one_save_def)
  have "read_exact (bytes_file one_save_file) 0 30 = Some ([0x50, 0x4b, 3, 4] @ replicate 26 0)"
    using read_exact_bytes[of 0 0 30 one_save_file] l c by simp
  moreover have "rd32 ([0x50, 0x4b, 3, 4] @ replicate 26 0) = SIG_LOCAL"
    "rd16 (drop 26 ([0x50, 0x4b, 3, 4] @ replicate 26 0)) = 0" "rd16 (drop 28 ([0x50, 0x4b, 3, 4] @ replicate 26 0)) = 0"
    by code_simp+
  ultimately have "data_at (bytes_file one_save_file) (one_save ! 0) = Some 30"
    by (simp add: data_at_def z del: append_Cons)
  moreover have "cut (30 + k) n one_save_file = cut k n [1, 2, 3]" if "k + n \<le> 3" for k n
  proof -
    have "drop 30 one_save_file = [1, 2, 3] @ rest" by (simp add: f)
    then have "cut (30 + k) n one_save_file = take n (drop k ([1, 2, 3] @ rest))"
      unfolding cut_def by (simp add: add.commute flip: drop_drop)
    moreover have "drop k ([1, 2, 3] @ rest) = drop k [1, 2, 3] @ rest" using that drop_append[of k "[1, 2, 3]" rest] by simp
    ultimately show ?thesis using that by (simp add: cut_def del: append_Cons)
  qed
  ultimately show ?thesis unfolding zip_entry_holds_def file_read_def by (simp add: bytes_file_def one_save_def)
qed

theorem seeded_saves_are_in_place_witness:
  "\<exists>s' k. seed_savedata one_save_env ''z'' (memfs_install 0) = Some (Inr s')
     \<and> tree s' (split_path (k_user_home @ ''savedata/a'')) = Some k \<and> content demo_env s' k = [1, 2, 3]"
proof -
  let ?ix = "\<lparr>zi_path = ''z'', zi_entries = one_save\<rparr>" and ?p = "k_user_home @ ''savedata/a''"
  have o: "open_hfile one_save_env ''z'' = Some (bytes_file one_save_file)"
    by (simp add: open_hfile_def one_save_env_def)
  have h: "saves_hold one_save_env (\<lambda>d k p. d = k \<and> p = k) ?ix (\<lambda>_. [1, 2, 3]) (\<lambda>_. [1, 2, 3])"
    unfolding saves_hold_def using one_save_holds by (simp add: o) (simp add: one_save_def one_save_env_def)
  obtain st where r: "zip_read_at flip_zlib (one_save ! 0) 0 3 (new_zip_stream (Some (bytes_file one_save_file))) = Some ([1, 2, 3], st)"
    using zip_read_gives[OF new_zip_stream_ok[OF one_save_holds], of 3 0] by (auto simp: cut_def)
  have inv: "fs_inv demo_env (memfs_install 0)" by (rule install_inv)
  have parts: "split_path ?p \<noteq> []" by (simp add: split_path_def is_slash_def keep_part_def k_user_home_def)
  then obtain s' where p: "memfs_put ?p [1, 2, 3] (memfs_install 0) = Some s'"
    using put_into_new by blast
  have e: "ze_path (one_save ! 0) = ''savedata/a''" "ze_size (one_save ! 0) = 3" "length one_save = 1"
    "te_zlib one_save_env = flip_zlib" "te_fits one_save_env = (\<lambda>_. True)"
    by (simp_all add: one_save_def one_save_env_def)
  have "under_savedata ''savedata/a''" by (simp add: under_savedata_def k_savedata_prefix_def)
  then have "seed_entry one_save_env ?ix 0 (memfs_install 0) = Some (Inr s')"
    using r p unfolding seed_entry_def Let_def zip_index.simps e o by simp
  then have "seed_savedata one_save_env ''z'' (memfs_install 0) = Some (Inr s')"
    unfolding seed_savedata_def one_save_open using e by simp
  then show ?thesis
    using seeded_saves_are_in_place[OF inv _ one_save_open h] by (auto simp: one_save_def save_path_def)
qed

end
