(* ===== verification/DriverNodes.thy ===== *)
theory DriverNodes
  imports Main
begin

text \<open>
  The names of the project's settings and the nodes of rpcs3's configuration they move
  (\<open>waterbox/rpcs3-driver.cpp\<close>, \<open>option_nodes\<close>). No two settings move the same node.
\<close>

definition option_nodes :: "(string \<times> string) list" where
  "option_nodes =
     [(''resolutionScaleThreshold'', ''video.min_scalable_dimension''),
      (''frameLimit'', ''video.frame_limit''),
      (''sleepTimersAccuracy'', ''core.sleep_timers_accuracy''),
      (''vblankRate'', ''video.vblank_rate''),
      (''vblankNtscFixup'', ''video.vblank_ntsc''),
      (''multithreadedRsx'', ''video.multithreaded_rsx''),
      (''disableVertexCache'', ''video.disable_vertex_cache''),
      (''strictRenderingMode'', ''video.strict_rendering_mode''),
      (''accurateRsxReservationAccess'', ''core.rsx_accurate_res_access''),
      (''spuBlockSize'', ''core.spu_block_size''),
      (''spuXfloatAccuracy'', ''core.spu_xfloat_accuracy''),
      (''handleRsxMemoryTiling'', ''video.handle_tiled_memory''),
      (''forceCpuBlit'', ''video.force_cpu_blit_processing''),
      (''antiAliasing'', ''video.antialiasing_level''),
      (''writeDepthBuffer'', ''video.write_depth_buffer''),
      (''readDepthBuffer'', ''video.read_depth_buffer''),
      (''resolutionScale'', ''video.resolution_scale_percent''),
      (''driverWakeUpDelay'', ''video.driver_wakeup_delay''),
      (''shaderQuality'', ''video.shader_precision''),
      (''allowHostGpuLabels'', ''video.host_label_synchronization''),
      (''disableZcullQueries'', ''video.disable_zcull_queries''),
      (''emulateSpecialDepthComparison'', ''video.emulate_depth_compare''),
      (''shaderMode'', ''video.shadermode''),
      (''preferredSpuThreads'', ''core.preferred_spu_threads''),
      (''accurateSpuDma'', ''core.spu_accurate_dma''),
      (''defaultResolution'', ''video.resolution''),
      (''maxSpursThreads'', ''core.max_spurs_threads''),
      (''rsxFifoAccuracy'', ''core.rsx_fifo_accuracy''),
      (''disableSpuGetllarSpinOptimization'', ''core.spu_getllar_spin_optimization_disabled''),
      (''debugConsoleMode'', ''core.debug_console_mode''),
      (''accuratePpu128Reservations'', ''core.ppu_128_reservations_loop_max_length''),
      (''ppuThreads'', ''core.ppu_threads''),
      (''lodBiasOffset'', ''video.texture_lod_bias''),
      (''spuLoopDetection'', ''core.spu_loop_detection'')]"

definition translated :: "string list" where
  "translated = [''zcullAccuracy'', ''anisotropicFilter'', ''delayOddMfcCommands'', ''firmwareLibraries'']"

definition node_named :: "string \<Rightarrow> string option" where
  "node_named name = (case filter (\<lambda>(n, k). n = name) option_nodes of [] \<Rightarrow> None | ns \<Rightarrow> Some (snd (last ns)))"

definition node_owners :: "(string \<times> string) list" where
  "node_owners = map (\<lambda>(n, k). (k, n)) option_nodes
     @ [(''video.precise_zpass_count'', ''zcullAccuracy''), (''video.relaxed_zcull_sync'', ''zcullAccuracy''),
        (''video.anisotropic_level_override'', ''anisotropicFilter''),
        (''core.mfc_transfers_shuffling'', ''delayOddMfcCommands''), (''core.libraries_control'', ''firmwareLibraries'')]"

lemma node_owners_distinct: "distinct (map fst node_owners)"
  by (simp add: node_owners_def option_nodes_def)

lemma translated_owned:
  "(''video.precise_zpass_count'', ''zcullAccuracy'') \<in> set node_owners"
  "(''video.relaxed_zcull_sync'', ''zcullAccuracy'') \<in> set node_owners"
  "(''video.anisotropic_level_override'', ''anisotropicFilter'') \<in> set node_owners"
  "(''core.mfc_transfers_shuffling'', ''delayOddMfcCommands'') \<in> set node_owners"
  "(''core.libraries_control'', ''firmwareLibraries'') \<in> set node_owners"
  unfolding node_owners_def set_append list.set by (rule UnI2, simp)+

lemma node_named_nodes: "node_named name = Some k \<Longrightarrow> (name, k) \<in> set option_nodes"
proof -
  assume a: "node_named name = Some k"
  then have ne: "filter (\<lambda>(n, k). n = name) option_nodes \<noteq> []" by (auto simp: node_named_def split: list.splits)
  then have "last (filter (\<lambda>(n, k). n = name) option_nodes) \<in> set (filter (\<lambda>(n, k). n = name) option_nodes)"
    by (rule last_in_set)
  then show ?thesis using a by (auto simp: node_named_def split: list.splits if_splits)
qed

end
