(* ===== verification/DriverConfig.thy ===== *)
theory DriverConfig
  imports DriverText DriverNodes
begin

text \<open>
  The machine's configuration (\<open>waterbox/rpcs3-driver.cpp\<close>): the settings of the project, the pins that make two
  runs the same, and the project's own choices over the pins. The configuration is a value for each node of
  rpcs3's tree, the node named by its path below \<open>g_cfg\<close>; a node's own parser, which is rpcs3's, is the
  parameter \<open>parse\<close>: whether it takes a text, and the value it leaves.
\<close>

section \<open>State\<close>

datatype cfg_value = Flag bool | Num int | Choice string | Names "string set"

type_synonym config = "string \<Rightarrow> cfg_value"
type_synonym node_parser = "string \<Rightarrow> string \<Rightarrow> cfg_value \<Rightarrow> bool \<times> cfg_value"

record settings =
  g_cfg :: config
  s_options :: "(string \<times> string) list"
  s_renderer_opengl :: bool
  s_renderer_vulkan :: bool
  s_gpu :: bool
  s_vulkan :: bool
  s_write_color_buffers :: bool
  s_read_color_buffers :: bool
  s_spu_decoder :: string
  s_ppu_decoder :: string
  s_precompile_index :: int
  s_precompile_count :: int
  s_precompile_firmware :: bool
  g_recording_mode_rpcs3 :: bool

text \<open>What the host offers: the two bridges, absent in a build without them, and the environment.\<close>

record host_offer =
  gpu_bridge_present :: "bool option"
  vulkan_bridge_present :: "bool option"
  env_spu_decoder :: "string option"
  env_ppu_decoder :: "string option"

definition set_node :: "string \<Rightarrow> cfg_value \<Rightarrow> settings \<Rightarrow> settings" where
  "set_node n v s = s\<lparr>g_cfg := (g_cfg s)(n := v)\<rparr>"

definition node_from_string :: "node_parser \<Rightarrow> string \<Rightarrow> string \<Rightarrow> settings \<Rightarrow> bool \<times> settings" where
  "node_from_string parse n text s = (case parse n text (g_cfg s n) of (ok, v) \<Rightarrow> (ok, set_node n v s))"

section \<open>The settings' names\<close>

definition option_name :: "int \<Rightarrow> string option" where
  "option_name index =
     (let n = int (length translated) in
      if index < 0 then None
      else if index < n then Some (translated ! nat index)
      else if nat (index - n) < length option_nodes then Some (fst (option_nodes ! nat (index - n))) else None)"

fun put_option :: "string \<Rightarrow> string \<Rightarrow> (string \<times> string) list \<Rightarrow> (string \<times> string) list" where
  "put_option n v [] = [(n, v)]"
| "put_option n v ((m, w) # os) = (if m = n then (m, v) # os else (m, w) # put_option n v os)"

definition set_option :: "string option \<Rightarrow> string option \<Rightarrow> settings \<Rightarrow> settings" where
  "set_option name text s =
     (case (name, text) of
        (Some n, Some v) \<Rightarrow> s\<lparr>s_options := put_option n v (s_options s)\<rparr>
      | _ \<Rightarrow> s)"

definition set_renderer :: "string option \<Rightarrow> settings \<Rightarrow> settings" where
  "set_renderer name s =
     s\<lparr>s_renderer_opengl := (name = Some ''opengl-hw'' \<or> name = Some ''opengl''),
       s_renderer_vulkan := (name = Some ''vulkan-hw'')\<rparr>"

definition bridge :: "bool option \<Rightarrow> bool" where
  "bridge b \<longleftrightarrow> b = Some True"

definition renderer_refusal :: "host_offer \<Rightarrow> settings \<Rightarrow> string option" where
  "renderer_refusal h s =
     (if s_precompile_count s > 0 then None
      else if s_renderer_vulkan s \<and> \<not> bridge (vulkan_bridge_present h) then Some ''error.no_vulkan'' else None)"

definition set_read_color_buffers :: "int \<Rightarrow> settings \<Rightarrow> settings" where
  "set_read_color_buffers on s = s\<lparr>s_read_color_buffers := on \<noteq> 0\<rparr>"

definition set_write_color_buffers :: "int \<Rightarrow> settings \<Rightarrow> settings" where
  "set_write_color_buffers on s = s\<lparr>s_write_color_buffers := on \<noteq> 0\<rparr>"

definition gpu_active :: "settings \<Rightarrow> int" where
  "gpu_active s = (if s_gpu s then 1 else 0)"

definition set_spu_decoder :: "string option \<Rightarrow> settings \<Rightarrow> settings" where
  "set_spu_decoder name s = s\<lparr>s_spu_decoder := (if name = Some ''interpreter'' then ''interpreter'' else ''asmjit'')\<rparr>"

definition set_ppu_decoder :: "string option \<Rightarrow> settings \<Rightarrow> settings" where
  "set_ppu_decoder name s = s\<lparr>s_ppu_decoder := (if name = Some ''llvm'' then ''llvm'' else ''interpreter'')\<rparr>"

definition set_precompile :: "int \<Rightarrow> int \<Rightarrow> int \<Rightarrow> settings \<Rightarrow> settings" where
  "set_precompile index count firmware_too s =
     s\<lparr>s_precompile_index := index, s_precompile_count := count, s_precompile_firmware := firmware_too \<noteq> 0\<rparr>"

section \<open>The pins\<close>

definition decoders :: "host_offer \<Rightarrow> settings \<Rightarrow> settings" where
  "decoders h s =
     (let spu = (case env_spu_decoder h of Some d \<Rightarrow> d | None \<Rightarrow> s_spu_decoder s);
          ppu = (case env_ppu_decoder h of Some d \<Rightarrow> d | None \<Rightarrow> s_ppu_decoder s);
          s1 = set_node ''core.spu_decoder'' (Choice (if spu = ''asmjit'' then ''asmjit'' else ''_static'')) s;
          s2 = set_node ''core.ppu_decoder'' (Choice (if ppu = ''llvm'' then ''llvm'' else ''_static'')) s1
      in if s_precompile_count s > 0 then set_node ''core.ppu_decoder'' (Choice ''llvm'') s2 else s2)"

definition core_pins :: "(string \<times> cfg_value) list" where
  "core_pins =
     [(''core.llvm_precompilation'', Flag False), (''core.spu_cache'', Flag False),
      (''core.llvm_precompilation'', Flag False), (''core.spu_loop_detection'', Flag False),
      (''core.use_accurate_dfma'', Flag True), (''core.ppu_threads'', Num 2), (''core.clocks_scale'', Num 100),
      (''core.max_cpu_preempt_count_per_frame'', Num 0), (''core.thread_scheduler'', Choice ''os'')]"

definition machine_pins :: "(string \<times> cfg_value) list" where
  "machine_pins =
     [(''video.frame_limit'', Choice ''_ps3''), (''video.vblank_rate'', Num 60), (''video.vblank_ntsc'', Flag False),
      (''video.multithreaded_rsx'', Flag False), (''audio.renderer'', Choice ''null''),
      (''audio.channel_layout'', Choice ''stereo''), (''audio.enable_buffering'', Flag False),
      (''audio.enable_time_stretching'', Flag False), (''io.keyboard'', Choice ''null''), (''io.mouse'', Choice ''null''),
      (''io.camera'', Choice ''null''), (''io.move'', Choice ''null''), (''io.pad_mode'', Choice ''single_threaded''),
      (''io.mouse_based_gyro_enabled'', Flag False), (''sys.console_time_offset'', Num 0)]"

definition misc_pins :: "(string \<times> cfg_value) list" where
  "misc_pins =
     [(''misc.autostart'', Flag False), (''misc.enable_gamemode'', Flag False), (''misc.play_music_during_boot'', Flag False),
      (''misc.show_mouse_and_keyboard_toggle_hint'', Flag False),
      (''core.libraries_control'', Names {''liblv2.sprx:hle'', ''libsysmodule.sprx:hle''})]"

definition pin :: "(string \<times> cfg_value) list \<Rightarrow> settings \<Rightarrow> settings" where
  "pin ps s = fold (\<lambda>(n, v). set_node n v) ps s"

definition choose_renderer :: "host_offer \<Rightarrow> settings \<Rightarrow> settings" where
  "choose_renderer h s =
     (let gl = (s_renderer_opengl s \<and> bridge (gpu_bridge_present h));
          vk = (s_renderer_vulkan s \<and> bridge (vulkan_bridge_present h));
          s1 = set_node ''video.renderer'' (Choice (if vk then ''vulkan'' else if gl \<or> vk then ''opengl'' else ''null''))
                 (s\<lparr>s_vulkan := vk, s_gpu := gl \<or> vk\<rparr>)
      in if gl \<or> vk
         then (pin [(''video.shader_compiler_threads_count'', Num 0), (''video.shadermode'', Choice ''recompiler''),
                    (''video.write_color_buffers'', Flag (s_write_color_buffers s)),
                    (''video.read_color_buffers'', Flag (s_read_color_buffers s))] s1)\<lparr>g_recording_mode_rpcs3 := True\<rparr>
         else s1)"

definition pin_configuration :: "node_parser \<Rightarrow> host_offer \<Rightarrow> settings \<Rightarrow> settings" where
  "pin_configuration parse h s =
     (let s1 = decoders h (pin [(''core.ppu_decoder'', Choice ''_static''), (''core.spu_decoder'', Choice ''_static'')] s);
          s2 = snd (node_from_string parse ''core.llvm_cpu'' ''x86-64-v3'' (set_node ''core.llvm_threads'' (Num 1) s1));
          s3 = pin machine_pins (choose_renderer h (pin core_pins s2));
          s4 = snd (node_from_string parse ''sys.system_name'' ''Chimera'' s3);
          s5 = snd (node_from_string parse ''sys.console_psid'' ''0x0000000000000000'' s4)
      in pin misc_pins s5)"

section \<open>The project's choices\<close>

text \<open>\<open>atoi\<close>: white space, a sign, the digits that follow.\<close>

definition digit_of :: "char \<Rightarrow> int" where
  "digit_of c = int (of_char c) - 48"

definition is_digit :: "char \<Rightarrow> bool" where
  "is_digit c \<longleftrightarrow> 48 \<le> (of_char c :: nat) \<and> (of_char c :: nat) \<le> 57"

definition decimal :: "string \<Rightarrow> int" where
  "decimal s = foldl (\<lambda>n c. n * 10 + digit_of c) 0 (takeWhile is_digit s)"

definition atoi :: "string \<Rightarrow> int" where
  "atoi text =
     (case dropWhile (\<lambda>c. c = CHR '' '' \<or> 9 \<le> (of_char c :: nat) \<and> (of_char c :: nat) \<le> 13) text of
        [] \<Rightarrow> 0
      | c # cs \<Rightarrow> if c = CHR ''-'' then - decimal cs else if c = CHR ''+'' then decimal cs else decimal (c # cs))"

text \<open>The parts of a list between its commas.\<close>

function comma_parts :: "string \<Rightarrow> string list" where
  "comma_parts s =
     (if s = [] then []
      else let p = takeWhile (\<lambda>c. c \<noteq> CHR '','') s in p # comma_parts (drop (length p + 1) s))"
  by auto
termination by (relation "measure length") auto

definition trim_spaces :: "string \<Rightarrow> string" where
  "trim_spaces s = rev (dropWhile (\<lambda>c. c = CHR '' '') (rev (dropWhile (\<lambda>c. c = CHR '' '') s)))"

definition firmware_libraries :: "string \<Rightarrow> string set" where
  "firmware_libraries v = set (map (\<lambda>l. l @ '':lle'') (filter (\<lambda>l. l \<noteq> []) (map trim_spaces (comma_parts v))))"

text \<open>One setting: whether its value is one it takes, and the configuration with it.\<close>

definition apply_option :: "node_parser \<Rightarrow> bool \<Rightarrow> string \<Rightarrow> string \<Rightarrow> settings \<Rightarrow> bool \<times> settings" where
  "apply_option parse have_firmware name v s =
     (if name = ''zcullAccuracy''
      then (v \<in> {''Precise'', ''Approximate'', ''Relaxed''},
            set_node ''video.relaxed_zcull_sync'' (Flag (v = ''Relaxed''))
              (set_node ''video.precise_zpass_count'' (Flag (v = ''Precise'')) s))
      else if name = ''anisotropicFilter''
      then (v \<in> {''Auto'', ''2x'', ''4x'', ''8x'', ''16x''},
            set_node ''video.anisotropic_level_override'' (Num (if v = ''Auto'' then 0 else atoi v)) s)
      else if name = ''delayOddMfcCommands''
      then (True, set_node ''core.mfc_transfers_shuffling'' (Num (if v = ''true'' then 1 else 0)) s)
      else if name = ''firmwareLibraries''
      then (True, if have_firmware then set_node ''core.libraries_control'' (Names (firmware_libraries v)) s else s)
      else case node_named name of
        None \<Rightarrow> (True, s)
      | Some k \<Rightarrow> node_from_string parse k v s)"

fun apply_loop :: "node_parser \<Rightarrow> bool \<Rightarrow> (string \<times> string) list \<Rightarrow> settings \<Rightarrow> string option \<times> settings" where
  "apply_loop parse have_firmware [] s = (None, s)"
| "apply_loop parse have_firmware ((name, v) # os) s =
     (case apply_option parse have_firmware name v s of
        (False, s') \<Rightarrow> (Some (''error.bad_setting'' @ TEXT_ARG @ name @ TEXT_ARG @ v), s')
      | (True, s') \<Rightarrow> apply_loop parse have_firmware os s')"

definition apply_options :: "node_parser \<Rightarrow> bool \<Rightarrow> settings \<Rightarrow> string option \<times> settings" where
  "apply_options parse have_firmware s = apply_loop parse have_firmware (s_options s) s"

section \<open>What a setting moves\<close>

lemma put_option_map: "map_of (put_option n v os) = (map_of os)(n \<mapsto> v)"
  by (induction os) (auto simp: fun_eq_iff)

lemma put_option_names: "set (map fst (put_option n v os)) = insert n (set (map fst os))"
  by (induction n v os rule: put_option.induct) (simp_all add: insert_commute)

lemma put_option_distinct: "distinct (map fst os) \<Longrightarrow> distinct (map fst (put_option n v os))"
  by (induction n v os rule: put_option.induct) (auto simp del: set_map simp: put_option_names)

definition touched :: "string \<Rightarrow> string set" where
  "touched name =
     (if name = ''zcullAccuracy'' then {''video.precise_zpass_count'', ''video.relaxed_zcull_sync''}
      else if name = ''anisotropicFilter'' then {''video.anisotropic_level_override''}
      else if name = ''delayOddMfcCommands'' then {''core.mfc_transfers_shuffling''}
      else if name = ''firmwareLibraries'' then {''core.libraries_control''}
      else (case node_named name of None \<Rightarrow> {} | Some k \<Rightarrow> {k}))"

text \<open>Two settings never move the same node.\<close>

lemma set_node_cfg [simp]: "g_cfg (set_node n v s) k = (if k = n then v else g_cfg s k)"
  by (simp add: set_node_def)

lemma node_from_string_cfg:
  "g_cfg (snd (node_from_string parse n v s)) k = (if k = n then snd (parse n v (g_cfg s n)) else g_cfg s k)"
  "fst (node_from_string parse n v s) = fst (parse n v (g_cfg s n))"
  by (simp_all add: node_from_string_def split: prod.split)

lemma apply_zcull:
  "apply_option parse fw ''zcullAccuracy'' v s =
     (v \<in> {''Precise'', ''Approximate'', ''Relaxed''},
      set_node ''video.relaxed_zcull_sync'' (Flag (v = ''Relaxed''))
        (set_node ''video.precise_zpass_count'' (Flag (v = ''Precise'')) s))"
  "touched ''zcullAccuracy'' = {''video.precise_zpass_count'', ''video.relaxed_zcull_sync''}"
  unfolding apply_option_def touched_def by simp_all

lemma apply_aniso:
  "apply_option parse fw ''anisotropicFilter'' v s =
     (v \<in> {''Auto'', ''2x'', ''4x'', ''8x'', ''16x''},
      set_node ''video.anisotropic_level_override'' (Num (if v = ''Auto'' then 0 else atoi v)) s)"
  "touched ''anisotropicFilter'' = {''video.anisotropic_level_override''}"
  unfolding apply_option_def touched_def by simp_all

lemma apply_mfc:
  "apply_option parse fw ''delayOddMfcCommands'' v s =
     (True, set_node ''core.mfc_transfers_shuffling'' (Num (if v = ''true'' then 1 else 0)) s)"
  "touched ''delayOddMfcCommands'' = {''core.mfc_transfers_shuffling''}"
  unfolding apply_option_def touched_def by simp_all

lemma apply_libs:
  "apply_option parse fw ''firmwareLibraries'' v s =
     (True, if fw then set_node ''core.libraries_control'' (Names (firmware_libraries v)) s else s)"
  "touched ''firmwareLibraries'' = {''core.libraries_control''}"
  unfolding apply_option_def touched_def by simp_all

lemma setting_kinds:
  obtains (zcull) "name = ''zcullAccuracy''" | (aniso) "name = ''anisotropicFilter''" | (mfc) "name = ''delayOddMfcCommands''"
  | (libs) "name = ''firmwareLibraries''"
  | (none) "touched name = {}" "\<And>parse fw v s. apply_option parse fw name v s = (True, s)"
  | (one) k where "touched name = {k}" "(name, k) \<in> set option_nodes" "\<And>parse fw v s. apply_option parse fw name v s = node_from_string parse k v s"
proof (cases "name \<in> set translated")
  case True
  then have "name = ''zcullAccuracy'' \<or> name = ''anisotropicFilter'' \<or> name = ''delayOddMfcCommands''
    \<or> name = ''firmwareLibraries''" unfolding translated_def list.set insert_iff empty_iff simp_thms .
  then show ?thesis using that(1-4) by (elim disjE) assumption+
next
  case False
  then have n: "name \<noteq> ''zcullAccuracy''" "name \<noteq> ''anisotropicFilter''" "name \<noteq> ''delayOddMfcCommands''"
    "name \<noteq> ''firmwareLibraries''" by (auto simp: translated_def)
  have t: "touched name = (case node_named name of None \<Rightarrow> {} | Some k \<Rightarrow> {k})"
    unfolding touched_def n[THEN if_not_P] ..
  have e: "apply_option parse fw name v s =
    (case node_named name of None \<Rightarrow> (True, s) | Some k \<Rightarrow> node_from_string parse k v s)" for parse fw v s
    unfolding apply_option_def n[THEN if_not_P] ..
  show ?thesis
  proof (cases "node_named name")
    case None
    show ?thesis by (rule that(5)) (simp_all only: t e None option.case)
  next
    case (Some k)
    show ?thesis by (rule that(6)[OF _ node_named_nodes[OF Some]]) (simp_all only: t e Some option.case)
  qed
qed

lemma touched_owned: "k \<in> touched name \<Longrightarrow> (k, name) \<in> set node_owners"
proof (cases name rule: setting_kinds)
  case (one l)
  moreover assume "k \<in> touched name"
  ultimately have "(name, k) \<in> set option_nodes" by simp
  then have "(k, name) \<in> (\<lambda>(n, k). (k, n)) ` set option_nodes" by (rule rev_image_eqI) simp
  then show ?thesis unfolding node_owners_def by simp
qed (use translated_owned in \<open>auto simp only: apply_zcull(2) apply_aniso(2) apply_mfc(2) apply_libs(2) insert_iff empty_iff\<close>)

lemma touched_disjoint: "a \<noteq> b \<Longrightarrow> touched a \<inter> touched b = {}"
proof -
  have "a = b" if "k \<in> touched a" "k \<in> touched b" for k
    using touched_owned[OF that(1)] touched_owned[OF that(2)] node_owners_distinct
    by (metis map_of_is_SomeI option.inject)
  then show "a \<noteq> b \<Longrightarrow> touched a \<inter> touched b = {}" by blast
qed

lemma apply_option_frame: "k \<notin> touched name \<Longrightarrow> g_cfg (snd (apply_option parse fw name v s)) k = g_cfg s k"
  by (cases name rule: setting_kinds)
    (simp_all add: apply_zcull apply_aniso apply_mfc apply_libs node_from_string_cfg)

text \<open>What a setting does depends on the nodes it moves only.\<close>

lemma apply_option_local:
  assumes "\<forall>k \<in> touched name. g_cfg s k = g_cfg t k"
  shows "fst (apply_option parse fw name v s) = fst (apply_option parse fw name v t)
    \<and> (\<forall>k \<in> touched name. g_cfg (snd (apply_option parse fw name v s)) k = g_cfg (snd (apply_option parse fw name v t)) k)"
proof (cases name rule: setting_kinds)
  case zcull
  show ?thesis unfolding zcull apply_zcull by simp
next
  case aniso
  show ?thesis unfolding aniso apply_aniso by simp
next
  case mfc
  show ?thesis unfolding mfc apply_mfc by simp
next
  case libs
  have "g_cfg s ''core.libraries_control'' = g_cfg t ''core.libraries_control''"
    using assms unfolding libs apply_libs by blast
  then show ?thesis unfolding libs apply_libs by (cases fw) simp_all
next
  case none
  show ?thesis unfolding none fst_conv by blast
next
  case (one k)
  have "g_cfg s k = g_cfg t k" using assms unfolding one(1) by simp
  then show ?thesis unfolding one(1,3) by (simp add: node_from_string_cfg)
qed

lemma apply_loop_frame:
  "\<forall>(n, v) \<in> set os. k \<notin> touched n \<Longrightarrow> g_cfg (snd (apply_loop parse fw os s)) k = g_cfg s k"
proof (induction os arbitrary: s)
  case (Cons o1 os)
  obtain n v where o: "o1 = (n, v)" by fastforce
  obtain ok t where t: "apply_option parse fw n v s = (ok, t)" by fastforce
  have "g_cfg t k = g_cfg s k" using apply_option_frame[of k n parse fw v s] Cons.prems t o by simp
  then show ?case using Cons.IH[of t] Cons.prems o t by (simp split: bool.split)
qed simp

lemma apply_loop_each:
  assumes "distinct (map fst os)" "apply_loop parse fw os s = (None, s')" "(n, v) \<in> set os"
  shows "fst (apply_option parse fw n v s)
    \<and> (\<forall>k \<in> touched n. g_cfg s' k = g_cfg (snd (apply_option parse fw n v s)) k)"
  using assms
proof (induction os arbitrary: s)
  case (Cons o1 os)
  obtain m w where o: "o1 = (m, w)" by fastforce
  obtain t where t: "apply_option parse fw m w s = (True, t)" "apply_loop parse fw os t = (None, s')"
    using Cons.prems(2) o by (auto split: prod.splits bool.splits)
  show ?case
  proof (cases "n = m")
    case True
    then have "v = w" using Cons.prems(1,3) o by (force simp: image_iff)
    moreover have "\<forall>(a, b) \<in> set os. k \<notin> touched a" if "k \<in> touched n" for k
    proof -
      have "a \<noteq> n" if "(a, b) \<in> set os" for a b using that Cons.prems(1) o True by (force simp: image_iff)
      then show ?thesis using touched_disjoint[of _ n] \<open>k \<in> touched n\<close> by blast
    qed
    ultimately show ?thesis using apply_loop_frame[of os _ parse fw t] t True by simp
  next
    case False
    then have l: "\<forall>k \<in> touched n. g_cfg t k = g_cfg s k"
      using apply_option_frame[of _ m parse fw w s] touched_disjoint[of n m] t(1) by auto
    have "(n, v) \<in> set os" "distinct (map fst os)" using Cons.prems o False by auto
    note H = Cons.IH[OF this(2) t(2) this(1)]
    show ?thesis using H apply_option_local[OF l, of parse fw v] by simp
  qed
qed simp

text \<open>C36. The project's settings are independent of each other and of their order. With one entry per name, which is
  how \<open>set_option\<close> keeps them, a start that accepts them all leaves, in every node a setting moves, what that
  setting alone makes of the pinned configuration, and every other node as it was pinned; no setting is refused
  on its own.\<close>

theorem settings_are_independent:
  assumes "distinct (map fst (s_options s))" "apply_options parse fw s = (None, s')"
  shows "(\<forall>(n, v) \<in> set (s_options s). fst (apply_option parse fw n v s)
      \<and> (\<forall>k \<in> touched n. g_cfg s' k = g_cfg (snd (apply_option parse fw n v s)) k))
    \<and> (\<forall>k. (\<forall>(n, v) \<in> set (s_options s). k \<notin> touched n) \<longrightarrow> g_cfg s' k = g_cfg s k)"
proof -
  have "g_cfg s' k = g_cfg s k" if "\<forall>(n, v) \<in> set (s_options s). k \<notin> touched n" for k
    using apply_loop_frame[OF that, of parse fw s] assms(2) by (simp add: apply_options_def)
  then show ?thesis using apply_loop_each[OF assms(1)] assms(2) by (auto simp: apply_options_def)
qed

text \<open>Two settings of a fresh start, under a parser that takes every text.\<close>

definition two_settings :: settings where
  "two_settings = \<lparr>g_cfg = (\<lambda>_. Flag False), s_options = [(''frameLimit'', ''60''), (''zcullAccuracy'', ''Relaxed'')],
     s_renderer_opengl = False, s_renderer_vulkan = False, s_gpu = False, s_vulkan = False,
     s_write_color_buffers = False, s_read_color_buffers = False, s_spu_decoder = ''asmjit'',
     s_ppu_decoder = ''interpreter'', s_precompile_index = 0, s_precompile_count = 0,
     s_precompile_firmware = True, g_recording_mode_rpcs3 = False\<rparr>"

lemma frame_limit_node: "node_named ''frameLimit'' = Some ''video.frame_limit''"
  by (simp add: node_named_def option_nodes_def)

theorem settings_are_independent_witness:
  "\<exists>s'. apply_options (\<lambda>n t v. (True, Choice t)) True two_settings = (None, s')
     \<and> g_cfg s' ''video.relaxed_zcull_sync'' = Flag True"
proof -
  let ?p = "\<lambda>n t v. (True, Choice t)"
  have f: "apply_option ?p True ''frameLimit'' ''60'' s = (True, set_node ''video.frame_limit'' (Choice ''60'') s)" for s
    by (simp add: apply_option_def frame_limit_node node_from_string_def)
  obtain s' where a: "apply_options ?p True two_settings = (None, s')"
    by (simp add: apply_options_def two_settings_def f apply_zcull)
  have d: "distinct (map fst (s_options two_settings))" by (simp add: two_settings_def)
  have m: "(''zcullAccuracy'', ''Relaxed'') \<in> set (s_options two_settings)" by (simp add: two_settings_def)
  have "g_cfg s' ''video.relaxed_zcull_sync'' = Flag True"
    using settings_are_independent[OF d a, THEN conjunct1] m by (auto simp: apply_zcull)
  then show ?thesis using a by blast
qed

end
