(* ===== verification/DriverBoot.thy ===== *)
theory DriverBoot
  imports DriverInstall DriverConfig
begin

text \<open>
  Building the machine: \<open>chimera_rpcs3_init\<close> of \<open>waterbox/rpcs3-driver.cpp\<close>, stage by stage in its order, on the
  models of the filesystem, the archives, the installers and the configuration. The emulator itself (its
  boot, its firmware parsers, the logs' registry) is the parameter \<open>emulator\<close>. A stage gives \<open>None\<close> when the code
  would go through a null pointer or a decoder would not end, and otherwise whether to go on.
\<close>

section \<open>State\<close>

datatype boot_result = No_errors | Install_failed | Boot_error string

text \<open>What the emulator does while it boots, as far as the driver can tell: it changes the filesystem, and on the way
  it may hand the driver the packages a disc brings (and goes on by whether they were installed), or report that it
  finds no firmware.\<close>

datatype boot_script =
    Booted boot_result memfs
  | Installs "string list" memfs "bool \<Rightarrow> memfs \<Rightarrow> boot_script"
  | Misses_firmware memfs boot_script

record ('d, 'e, 'p) emulator =
  em_title :: "('d, 'e) title_env"
  em_fs :: fsenv
  em_pkg :: pkg_reader
  em_found :: "string \<Rightarrow> int option"
  em_assets :: "(string \<times> bytes) list"
  em_parse :: node_parser
  em_host :: host_offer
  em_pup :: "string \<Rightarrow> memfs \<Rightarrow> (string + 'p) option"
  em_pup_file :: "'p \<Rightarrow> nat \<Rightarrow> bytes option"
  em_tar_names :: "bytes \<Rightarrow> string list"
  em_tar_get :: "bytes \<Rightarrow> string \<Rightarrow> bytes option"
  em_decrypt :: "bytes \<Rightarrow> bytes list"
  em_extract :: "bytes \<Rightarrow> memfs \<Rightarrow> bool \<times> memfs"
  em_boot :: "string \<Rightarrow> settings \<Rightarrow> memfs \<Rightarrow> boot_script"
  em_not_ready :: "memfs \<Rightarrow> string option"
  em_has_disc :: "memfs \<Rightarrow> bool"
  em_title_id :: "memfs \<Rightarrow> string"
  em_iso_eboot :: "string \<Rightarrow> memfs \<Rightarrow> bytes option option"

record boot =
  bo_inst :: inst
  bo_settings :: settings
  bo_firmware :: string
  bo_game :: string
  bo_name :: string
  bo_is_iso :: bool
  bo_is_pkg :: bool
  bo_disc_image :: string

definition boot_root :: string where "boot_root = memfs_root @ ''/''"

definition boot_err :: "string \<Rightarrow> boot \<Rightarrow> (bool \<times> boot) option" where
  "boot_err e b = Some (False, b\<lparr>bo_inst := snd (err e (bo_inst b))\<rparr>)"

definition upd_fs :: "(memfs \<Rightarrow> memfs) \<Rightarrow> boot \<Rightarrow> boot" where
  "upd_fs f b = b\<lparr>bo_inst := (bo_inst b)\<lparr>in_fs := f (in_fs (bo_inst b))\<rparr>\<rparr>"

definition boot_then :: "(bool \<times> boot) option \<Rightarrow> (boot \<Rightarrow> (bool \<times> boot) option) \<Rightarrow> (bool \<times> boot) option" where
  "boot_then r f = (case r of None \<Rightarrow> None | Some (ok, b) \<Rightarrow> if ok then f b else Some (False, b))"

section \<open>The filesystem and the saves\<close>

fun put_all :: "(string \<times> bytes) list \<Rightarrow> memfs \<Rightarrow> memfs option" where
  "put_all [] s = Some s"
| "put_all ((path, data) # fs) s = (case memfs_put path data s of None \<Rightarrow> None | Some s' \<Rightarrow> put_all fs s')"

definition seed_text :: "('d, 'e) title_env \<Rightarrow> seed_error \<Rightarrow> string option" where
  "seed_text env e =
     (case e of
        SaveNotZip z \<Rightarrow> Some (''error.save_not_zip'' @ TEXT_ARG @ te_zip_error env z)
      | SaveNotPs3 p \<Rightarrow> Some (''error.save_not_ps3'' @ TEXT_ARG @ p)
      | SaveNotUnpacked p \<Rightarrow> Some (''error.save_not_unpacked'' @ TEXT_ARG @ p)
      | SaveEmpty \<Rightarrow> Some ''error.save_empty''
      | SaveNoMemory \<Rightarrow> None
      | SaveNoNode \<Rightarrow> None)"

definition boot_files :: "('d, 'e, 'p) emulator \<Rightarrow> u64 \<Rightarrow> bool \<Rightarrow> boot \<Rightarrow> (bool \<times> boot) option" where
  "boot_files em now have_firmware b0 =
     (let b = b0\<lparr>bo_inst := (bo_inst b0)\<lparr>in_error := [], in_fs := memfs_install now\<rparr>\<rparr>;
          fs1 = memfs_mkdirs ''config/Icons/ui'' (memfs_mkdirs ''cache'' (memfs_mkdirs ''config'' (in_fs (bo_inst b))))
      in case put_all (map (\<lambda>(p, d). (''config/'' @ p, d)) (em_assets em)) fs1 of
           None \<Rightarrow> None
         | Some fs2 \<Rightarrow>
             (case seed_savedata (em_title em) (g_savedata_zip (bo_inst b)) fs2 of
                None \<Rightarrow> None
              | Some (Inl e) \<Rightarrow> (case seed_text (em_title em) e of None \<Rightarrow> None | Some t \<Rightarrow> boot_err t b)
              | Some (Inr fs3) \<Rightarrow>
                  if have_firmware then Some (True, upd_fs (\<lambda>_. fs3) b)
                  else map_option (\<lambda>fs4. (True, upd_fs (\<lambda>_. fs4) b))
                         (memfs_put ''config/dev_flash/sys/external/liblv2.sprx'' [] fs3)))"

section \<open>A disc in an archive\<close>

definition upper_char :: "char \<Rightarrow> char" where
  "upper_char c = (if 97 \<le> (of_char c :: nat) \<and> (of_char c :: nat) \<le> 122 then char_of ((of_char c :: nat) - 32) else c)"

definition dir_part :: "string \<Rightarrow> string" where
  "dir_part path = take (length path - length (base_name path)) path"

text \<open>The disc root: where PS3_DISC.SFB lies, the shortest such path, the first of several as short.\<close>

definition is_sfb :: "string \<Rightarrow> bool" where
  "is_sfb p \<longleftrightarrow> map upper_char (base_name p) = ''PS3_DISC.SFB''"

fun disc_root_from :: "string list \<Rightarrow> string option \<Rightarrow> string option" where
  "disc_root_from [] best = best"
| "disc_root_from (p # ps) best =
     disc_root_from ps
       (if is_sfb p
          \<and> (case best of None \<Rightarrow> True | Some b \<Rightarrow> length (dir_part p) < length b)
        then Some (dir_part p) else best)"

definition disc_root :: "string list \<Rightarrow> string option" where
  "disc_root ps = disc_root_from ps None"

definition k_eboot :: string where "k_eboot = ''PS3_GAME/USRDIR/EBOOT.BIN''"

definition archive_disc :: "string list \<Rightarrow> (memfs \<Rightarrow> memfs) \<Rightarrow> boot \<Rightarrow> (bool \<times> boot) option" where
  "archive_disc paths graft b =
     (case disc_root paths of
        None \<Rightarrow> boot_err ''error.no_disc_in_archive'' b
      | Some root \<Rightarrow>
          if root @ k_eboot \<notin> set paths then boot_err ''error.no_eboot'' b
          else Some (True, (upd_fs graft b)\<lparr>bo_game := boot_root @ ''game/disc/'' @ root @ k_eboot\<rparr>))"

definition graft_zip :: "zip_index \<Rightarrow> memfs \<Rightarrow> memfs" where
  "graft_zip ix = fold (\<lambda>i. memfs_graft_zip_entry (''game/disc/'' @ ze_path (zi_entries ix ! i)) 0 i
                              (ze_size (zi_entries ix ! i))) [0..<length (zi_entries ix)]"

definition graft_sz :: "sz_index \<Rightarrow> memfs \<Rightarrow> memfs" where
  "graft_sz ix = fold (\<lambda>i. memfs_graft_sz_entry (''game/disc/'' @ to_chars (se_path (si_entries ix ! i))) 0 i
                              (se_size (si_entries ix ! i))) [0..<length (si_entries ix)]"

definition boot_archive :: "('d, 'e, 'p) emulator \<Rightarrow> string \<Rightarrow> boot \<Rightarrow> (bool \<times> boot) option" where
  "boot_archive em path b =
     (if ends_with (base_name path) ''.zip''
      then (case zip_open (te_fits (em_title em)) path (te_file (em_title em) path) of
              Inl e \<Rightarrow> boot_err (''error.archive_unreadable'' @ TEXT_ARG @ te_zip_error (em_title em) e) b
            | Inr ix \<Rightarrow> archive_disc (map ze_path (zi_entries ix)) (graft_zip ix) b)
      else (case sz_open path (te_file (em_title em) path \<noteq> None) (fst (te_sz (em_title em) path)) (snd (te_sz (em_title em) path)) of
              Inl e \<Rightarrow> boot_err (''error.archive_unreadable'' @ TEXT_ARG @ te_sz_error (em_title em) e) b
            | Inr ix \<Rightarrow>
                if si_solid ix then boot_err ''error.7z_solid'' b
                else archive_disc (map (\<lambda>e. to_chars (se_path e)) (si_entries ix)) (graft_sz ix) b))"

section \<open>The game, its key and its image\<close>

definition boot_plain :: "('d, 'e, 'p) emulator \<Rightarrow> string \<Rightarrow> boot \<Rightarrow> (bool \<times> boot) option" where
  "boot_plain em path b =
     (case memfs_graft (''game/'' @ base_name path) path (em_found em path) (in_fs (bo_inst b)) of
        (False, fs) \<Rightarrow> boot_err (''error.game_not_opened'' @ TEXT_ARG @ path) (upd_fs (\<lambda>_. fs) b)
      | (True, fs) \<Rightarrow>
          Some (True, (upd_fs (\<lambda>_. fs) b)\<lparr>bo_game := boot_root @ ''game/'' @ base_name path,
            bo_is_iso := ends_with (base_name path) ''.iso'', bo_is_pkg := ends_with (base_name path) ''.pkg''\<rparr>))"

text \<open>The name without its last extension.\<close>

definition stem :: "string \<Rightarrow> string" where
  "stem name = (if CHR ''.'' \<in> set name then rev (tl (dropWhile (\<lambda>c. c \<noteq> CHR ''.'') (rev name))) else name)"

definition boot_key :: "('d, 'e, 'p) emulator \<Rightarrow> string \<Rightarrow> string option \<Rightarrow> boot \<Rightarrow> (bool \<times> boot) option" where
  "boot_key em path dkey b =
     (case dkey of
        Some (c # cs) \<Rightarrow>
          if ends_with (base_name path) ''.zip'' \<or> ends_with (base_name path) ''.7z'' then Some (True, b)
          else (case memfs_graft (''game/'' @ stem (base_name path) @ ''.dkey'') (c # cs) (em_found em (c # cs)) (in_fs (bo_inst b)) of
                  (False, fs) \<Rightarrow> boot_err (''error.dkey_not_opened'' @ TEXT_ARG @ c # cs) (upd_fs (\<lambda>_. fs) b)
                | (True, fs) \<Rightarrow> Some (True, upd_fs (\<lambda>_. fs) b))
      | _ \<Rightarrow> Some (True, b))"

definition boot_game :: "('d, 'e, 'p) emulator \<Rightarrow> string \<Rightarrow> string option \<Rightarrow> boot \<Rightarrow> (bool \<times> boot) option" where
  "boot_game em path dkey b0 =
     (let name = base_name path;
          b = b0\<lparr>bo_game := path, bo_name := name, bo_is_iso := False, bo_is_pkg := False, bo_disc_image := []\<rparr>
      in if ends_with name ''.rar'' then boot_err ''error.rar'' b
         else boot_then (if ends_with name ''.zip'' \<or> ends_with name ''.7z'' then boot_archive em path b else boot_plain em path b)
           (\<lambda>b1. boot_then (boot_key em path dkey b1)
              (\<lambda>b2. Some (True,
                  if bo_is_iso b2
                  then (upd_fs (memfs_mark_disc_image (em_fs em) (''game/'' @ name)) b2)\<lparr>bo_disc_image := ''game/'' @ name\<rparr>
                  else b2))))"

section \<open>The firmware\<close>

text \<open>One package of the update: fetched, decrypted, its third file extracted.\<close>

fun firmware_loop :: "('d, 'e, 'p) emulator \<Rightarrow> bytes \<Rightarrow> string list \<Rightarrow> memfs \<Rightarrow> string option \<times> memfs" where
  "firmware_loop em tar [] s = (None, s)"
| "firmware_loop em tar (name # ns) s =
     (case em_tar_get em tar name of
        None \<Rightarrow> (Some (''error.firmware_package_missing'' @ TEXT_ARG @ name), s)
      | Some pkg \<Rightarrow>
          let files = em_decrypt em pkg in
          if length files < 3 then (Some (''error.firmware_package_encrypted'' @ TEXT_ARG @ name), s)
          else (case em_extract em (files ! 2) s of
                  (False, s') \<Rightarrow> (Some (''error.firmware_package_not_extracted'' @ TEXT_ARG @ name), s')
                | (True, s') \<Rightarrow> firmware_loop em tar ns s'))"

definition has_part :: "string \<Rightarrow> string \<Rightarrow> bool" where
  "has_part part s \<longleftrightarrow> list_ex (\<lambda>i. take (length part) (drop i s) = part) [0..<length s + 1]"

definition install_firmware :: "('d, 'e, 'p) emulator \<Rightarrow> string \<Rightarrow> memfs \<Rightarrow> (string + string) \<times> memfs" where
  "install_firmware em path s =
     (case em_pup em path s of
        None \<Rightarrow> (Inl (''error.firmware_not_opened'' @ TEXT_ARG @ path), s)
      | Some (Inl e) \<Rightarrow> (Inl (''error.firmware_not_pup'' @ TEXT_ARG @ e), s)
      | Some (Inr pup) \<Rightarrow>
          (case em_pup_file em pup 0x300 of
             None \<Rightarrow> (Inl ''error.firmware_no_packages'', s)
           | Some [] \<Rightarrow> (Inl ''error.firmware_no_packages'', s)
           | Some (t # ts) \<Rightarrow>
               let version = (case em_pup_file em pup 0x100 of
                                None \<Rightarrow> [] | Some v \<Rightarrow> takeWhile (\<lambda>c. c \<noteq> CHR 0x0A) (to_chars v));
                   names = filter (has_part ''dev_flash_'') (em_tar_names em (t # ts))
               in if names = [] then (Inl ''error.firmware_no_dev_flash'', s)
                  else (case firmware_loop em (t # ts) names s of
                          (Some e, s') \<Rightarrow> (Inl e, s')
                        | (None, s') \<Rightarrow> (Inr version, s'))))"

text \<open>A version that is empty ends the start with whatever error there was.\<close>

definition boot_firmware :: "('d, 'e, 'p) emulator \<Rightarrow> string option \<Rightarrow> boot \<Rightarrow> (bool \<times> boot) option" where
  "boot_firmware em firmware b =
     (case firmware of
        Some (c # cs) \<Rightarrow>
          let fw = c # cs; rel = ''firmware/'' @ base_name fw;
              b1 = b\<lparr>bo_settings := set_node ''core.libraries_control'' (Names {}) (bo_settings b)\<rparr>
          in (case memfs_graft rel fw (em_found em fw) (in_fs (bo_inst b1)) of
                (False, fs) \<Rightarrow> boot_err (''error.firmware_unopenable'' @ TEXT_ARG @ fw) (upd_fs (\<lambda>_. fs) b1)
              | (True, fs) \<Rightarrow>
                  (case install_firmware em (boot_root @ rel) fs of
                     (Inl e, fs') \<Rightarrow> boot_err e (upd_fs (\<lambda>_. fs') b1)
                   | (Inr v, fs') \<Rightarrow> Some (v \<noteq> [], (upd_fs (\<lambda>_. fs') b1)\<lparr>bo_firmware := v\<rparr>)))
      | _ \<Rightarrow> Some (True, b))"

section \<open>Licences, packages and settings\<close>

definition on_inst :: "(inst \<Rightarrow> bool \<times> inst) \<Rightarrow> boot \<Rightarrow> (bool \<times> boot) option" where
  "on_inst f b = (case f (bo_inst b) of (ok, i) \<Rightarrow> Some (ok, b\<lparr>bo_inst := i\<rparr>))"

definition boot_packages :: "('d, 'e, 'p) emulator \<Rightarrow> bool \<Rightarrow> boot \<Rightarrow> (bool \<times> boot) option" where
  "boot_packages em have_firmware b =
     boot_then (on_inst (install_raps (em_found em)) b)
       (\<lambda>b1. boot_then
          (if bo_is_pkg b1
           then boot_then (on_inst (install_game_package (em_pkg em) (bo_game b1) (bo_name b1)) b1)
                  (\<lambda>b'. Some (True, b'\<lparr>bo_game := g_game_pkg_boot (bo_inst b')\<rparr>))
           else Some (True, b1))
          (\<lambda>b2. boot_then (on_inst (install_packages (em_pkg em) (em_found em) boot_root) b2)
             (\<lambda>b3. case apply_options (em_parse em) have_firmware (bo_settings b3) of
                (Some e, st) \<Rightarrow> boot_err e (b3\<lparr>bo_settings := st\<rparr>)
              | (None, st) \<Rightarrow> Some (True, b3\<lparr>bo_settings := st\<rparr>))))"

section \<open>The boot\<close>

definition iso_data_is_locked :: "('d, 'e, 'p) emulator \<Rightarrow> string \<Rightarrow> memfs \<Rightarrow> bool" where
  "iso_data_is_locked em path s =
     (case em_iso_eboot em path s of
        Some (Some magic) \<Rightarrow>
          length magic = 4 \<and> magic \<noteq> ascii ''SCE'' @ [0] \<and> magic \<noteq> 0x7F # ascii ''ELF''
      | _ \<Rightarrow> False)"

definition boot_failure :: "('d, 'e, 'p) emulator \<Rightarrow> string option \<Rightarrow> boot_result \<Rightarrow> boot \<Rightarrow> string" where
  "boot_failure em dkey r b =
     (if g_game_pkg_unlicensed (bo_inst b) then ''error.needs_rap''
      else if r = Install_failed \<and> in_install_error (bo_inst b) \<noteq> []
      then ''error.disc_content'' @ TEXT_ARG @ in_install_error (bo_inst b)
      else if bo_is_iso b \<and> iso_data_is_locked em (bo_game b) (in_fs (bo_inst b))
      then (if dkey \<noteq> None \<and> dkey \<noteq> Some [] then ''error.wrong_dkey'' else ''error.needs_dkey'')
      else ''error.boot_failed'' @ TEXT_ARG @ (case r of Boot_error t \<Rightarrow> t | _ \<Rightarrow> ''install_failed''))"

text \<open>How a start ends: refused before the emulator was asked, refused after (and taken down), or on.\<close>

datatype outcome = Refused | Taken_down | Precompiling | Running

definition eboot_alone :: "('d, 'e, 'p) emulator \<Rightarrow> boot \<Rightarrow> bool" where
  "eboot_alone em b \<longleftrightarrow>
     \<not> bo_is_pkg b \<and> \<not> em_has_disc em (in_fs (bo_inst b)) \<and> em_title_id em (in_fs (bo_inst b)) = []
     \<and> map upper_char (base_name (bo_game b)) = ''EBOOT.BIN''"

text \<open>The callbacks of the boot. What fails to install leaves its reason behind.\<close>

definition on_install_pkgs :: "pkg_reader \<Rightarrow> string list \<Rightarrow> inst \<Rightarrow> bool \<times> inst" where
  "on_install_pkgs pr pkgs i = (case install_pkg_paths pr pkgs pkgs i of ((ok, _), i') \<Rightarrow> (ok, i'))"

definition on_missing_fw :: "inst \<Rightarrow> inst" where
  "on_missing_fw i = snd (err ''error.no_firmware'' i)"

primrec run_boot :: "boot_script \<Rightarrow> pkg_reader \<Rightarrow> inst \<Rightarrow> boot_result \<times> inst" where
  "run_boot (Booted r fs) pr i = (r, i\<lparr>in_fs := fs\<rparr>)"
| "run_boot (Installs pkgs fs k) pr i =
     (case on_install_pkgs pr pkgs (i\<lparr>in_fs := fs\<rparr>) of (ok, i') \<Rightarrow> run_boot (k ok (in_fs i')) pr i')"
| "run_boot (Misses_firmware fs k) pr i = run_boot k pr (on_missing_fw (i\<lparr>in_fs := fs\<rparr>))"

definition boot_machine :: "('d, 'e, 'p) emulator \<Rightarrow> string option \<Rightarrow> boot \<Rightarrow> outcome \<times> boot" where
  "boot_machine em dkey b =
     (case run_boot (em_boot em (bo_game b) (bo_settings b) (in_fs (bo_inst b))) (em_pkg em) (bo_inst b) of
        (r, i) \<Rightarrow>
          let b1 = b\<lparr>bo_inst := i\<rparr>;
              fail = (\<lambda>e. (Taken_down, b1\<lparr>bo_inst := snd (err e (bo_inst b1))\<rparr>))
          in if r \<noteq> No_errors then fail (boot_failure em dkey r b1)
             else (case em_not_ready em (in_fs i) of
                     Some status \<Rightarrow> fail (''error.not_ready'' @ TEXT_ARG @ status)
                   | None \<Rightarrow>
                       if eboot_alone em b1 then fail ''error.eboot_alone''
                       else if s_precompile_count (bo_settings b1) > 0 then (Precompiling, b1)
                       else (Running, upd_fs memfs_mirror_reset b1)))"

section \<open>The whole start\<close>

definition driver_init ::
  "('d, 'e, 'p) emulator \<Rightarrow> u64 \<Rightarrow> string \<Rightarrow> string option \<Rightarrow> string option \<Rightarrow> boot \<Rightarrow> (outcome \<times> boot) option" where
  "driver_init em now path firmware dkey b =
     (let have_firmware = (firmware \<noteq> None \<and> firmware \<noteq> Some []) in
      case boot_then (boot_files em now have_firmware b)
             (\<lambda>b1. boot_then (boot_game em path dkey b1)
                (\<lambda>b2. boot_then (boot_firmware em firmware
                          (b2\<lparr>bo_settings := pin_configuration (em_parse em) (em_host em) (bo_settings b2)\<rparr>))
                   (boot_packages em have_firmware))) of
        None \<Rightarrow> None
      | Some (False, b') \<Rightarrow> Some (Refused, b')
      | Some (True, b') \<Rightarrow> Some (boot_machine em dkey b'))"

section \<open>Where the disc is\<close>

lemma disc_root_from_spec:
  "disc_root_from ps best = Some r \<Longrightarrow>
     (best = Some r \<or> (\<exists>p \<in> set ps. is_sfb p \<and> r = dir_part p))
     \<and> (\<forall>p \<in> set ps. is_sfb p \<longrightarrow> length r \<le> length (dir_part p))
     \<and> (\<forall>b. best = Some b \<longrightarrow> length r \<le> length b)"
proof (induction ps arbitrary: best)
  case (Cons p ps)
  from Cons.IH[OF Cons.prems[unfolded disc_root_from.simps]] show ?case
    by (auto split: if_splits option.splits)
qed simp

text \<open>The root is the shortest directory with a PS3_DISC.SFB in it, in any letter case.\<close>

lemma disc_root_shortest:
  "disc_root ps = Some r \<Longrightarrow>
     (\<exists>p \<in> set ps. is_sfb p \<and> r = dir_part p)
     \<and> (\<forall>p \<in> set ps. is_sfb p \<longrightarrow> length r \<le> length (dir_part p))"
  using disc_root_from_spec[of ps None r] by (simp add: disc_root_def)

section \<open>Refusals say why\<close>

text \<open>A stage that stops has left an error behind, or \<open>Q\<close> is why not.\<close>

definition speaks :: "bool \<Rightarrow> (bool \<times> boot) option \<Rightarrow> bool" where
  "speaks Q r \<longleftrightarrow> (\<forall>b. r = Some (False, b) \<longrightarrow> in_error (bo_inst b) \<noteq> [] \<or> Q)"

lemma speaks_simps [simp]:
  "speaks Q None" "speaks Q (Some (True, b))" "e \<noteq> [] \<Longrightarrow> speaks Q (boot_err e b)"
  by (simp_all add: speaks_def boot_err_def err_def)

lemma speaks_then [intro]: "speaks Q r \<Longrightarrow> (\<And>b. r = Some (True, b) \<Longrightarrow> speaks Q (f b)) \<Longrightarrow> speaks Q (boot_then r f)"
  by (auto simp: speaks_def boot_then_def split: option.splits if_splits)

lemma speaks_inst: "(\<And>i. f (bo_inst b) = (False, i) \<Longrightarrow> in_error i \<noteq> []) \<Longrightarrow> speaks Q (on_inst f b)"
  by (auto simp: speaks_def on_inst_def split: prod.splits)

lemma files_speak: "speaks Q (boot_files em now fw b)"
proof -
  have t: "seed_text env e \<noteq> Some []" for env e by (cases e) (auto simp: seed_text_def)
  have "speaks Q (boot_err x b')" if "seed_text env e = Some x" for env e x b'
    using t[of env e] that by auto
  then show ?thesis
    unfolding boot_files_def Let_def by (auto simp: map_option_case split: option.split sum.split)
qed

lemma archive_disc_speaks: "speaks Q (archive_disc paths graft b)"
  by (simp add: archive_disc_def split: option.split)

lemma archive_speaks: "speaks Q (boot_archive em path b)"
  by (auto simp: boot_archive_def archive_disc_speaks split: sum.split)

lemma plain_speaks: "speaks Q (boot_plain em path b)"
  by (auto simp: boot_plain_def split: prod.split bool.split)

lemma key_speaks: "speaks Q (boot_key em path dkey b)"
  by (auto simp: boot_key_def split: prod.split bool.split option.split list.split)

lemma game_speaks: "speaks Q (boot_game em path dkey b)"
  unfolding boot_game_def Let_def
  by (auto intro!: speaks_then simp: archive_speaks plain_speaks key_speaks)

lemma firmware_error: "fst (install_firmware em path s) = Inl e \<Longrightarrow> e \<noteq> []"
proof -
  have "e' \<noteq> []" if "fst (firmware_loop em tar ns s) = Some e'" for e' tar ns s
    using that by (induction em tar ns s rule: firmware_loop.induct) (auto simp: Let_def split: option.splits if_splits prod.splits bool.splits)
  then have l: "e' \<noteq> []" if "firmware_loop em tar ns s = (Some e', s')" for e' tar ns s s' using that by (metis fst_conv)
  assume "fst (install_firmware em path s) = Inl e"
  then show "e \<noteq> []"
    using l by (auto simp: install_firmware_def Let_def split: option.splits sum.splits list.splits if_splits prod.splits)
qed

text \<open>The one refusal without a reason: the firmware of this start, as it lies in the filesystem the stages before
  have made, installs and has an empty version text.\<close>

definition silent_firmware ::
  "('d, 'e, 'p) emulator \<Rightarrow> u64 \<Rightarrow> string \<Rightarrow> string option \<Rightarrow> string option \<Rightarrow> boot \<Rightarrow> bool" where
  "silent_firmware em now path firmware dkey b \<longleftrightarrow>
     (\<exists>fw b1 b2 fs. firmware = Some fw \<and> fw \<noteq> [] \<and> boot_files em now True b = Some (True, b1)
        \<and> boot_game em path dkey b1 = Some (True, b2)
        \<and> memfs_graft (''firmware/'' @ base_name fw) fw (em_found em fw) (in_fs (bo_inst b2)) = (True, fs)
        \<and> fst (install_firmware em (boot_root @ ''firmware/'' @ base_name fw) fs) = Inr [])"

lemma firmware_speaks:
  "speaks (\<exists>fw fs. firmware = Some fw \<and> fw \<noteq> []
      \<and> memfs_graft (''firmware/'' @ base_name fw) fw (em_found em fw) (in_fs (bo_inst b)) = (True, fs)
      \<and> fst (install_firmware em (boot_root @ ''firmware/'' @ base_name fw) fs) = Inr [])
     (boot_firmware em firmware b)"
proof -
  have e: "x \<noteq> []" if "install_firmware em path s = (Inl x, s')" for path s s' x using firmware_error[of em path s x] that by simp
  show ?thesis
    unfolding boot_firmware_def Let_def
    by (auto simp: speaks_def boot_err_def err_def dest: e split: option.splits list.splits prod.splits bool.splits sum.splits)
qed

lemma pkg_paths_error: "install_pkg_paths pr paths names s = ((False, bs), s') \<Longrightarrow> in_install_error s' \<noteq> []"
proof -
  have "e \<noteq> []" if "open_readers pr marking ps fs = Inl e" for e marking ps fs
    using that by (induction pr marking ps fs rule: open_readers.induct) (auto split: option.splits if_splits)
  then show "install_pkg_paths pr paths names s = ((False, bs), s') \<Longrightarrow> in_install_error s' \<noteq> []"
    by (auto simp: install_pkg_paths_def split: if_splits sum.splits prod.splits extract_result.splits)
qed

lemma packages_error: "install_packages pr found root s = (False, s') \<Longrightarrow> in_error s' \<noteq> []"
  by (auto simp: install_packages_def err_def dest: pkg_paths_error split: if_splits prod.splits option.splits bool.splits)

lemma raps_error: "install_raps found s = (False, s') \<Longrightarrow> in_error s' \<noteq> []"
  by (auto simp: install_raps_def err_def split: if_splits prod.splits option.splits)

lemma game_package_error: "install_game_package pr path display s = (False, s') \<Longrightarrow> in_error s' \<noteq> []"
  by (auto simp: install_game_package_def err_def Let_def dest: pkg_paths_error
      split: if_splits prod.splits option.splits bool.splits)

lemma apply_loop_error: "fst (apply_loop parse fw os s) = Some e \<Longrightarrow> e \<noteq> []"
  by (induction os arbitrary: s) (auto split: prod.splits bool.splits)

lemma packages_speak: "speaks Q (boot_packages em fw b)"
proof -
  have "e \<noteq> []" if "apply_options parse fw s = (Some e, st)" for parse s e st
    using apply_loop_error[of parse fw "s_options s" s e] that by (simp add: apply_options_def)
  then show ?thesis unfolding boot_packages_def
    by (auto intro!: speaks_then speaks_inst simp: raps_error game_package_error packages_error split: prod.split option.split)
qed

text \<open>A start that is refused says why: whichever stage refuses it, before the emulator is asked to boot or after,
  the error is set. The one exception is a firmware whose version text is empty, which is refused in silence.\<close>

lemma refused_start_says_why:
  assumes "driver_init em now path firmware dkey b = Some (out, b')" "out = Refused \<or> out = Taken_down"
  shows "in_error (bo_inst b') \<noteq> [] \<or> out = Refused \<and> silent_firmware em now path firmware dkey b"
proof -
  let ?Q = "silent_firmware em now path firmware dkey b"
  let ?fw = "firmware \<noteq> None \<and> firmware \<noteq> Some []"
  let ?pin = "\<lambda>b2. b2\<lparr>bo_settings := pin_configuration (em_parse em) (em_host em) (bo_settings b2)\<rparr>"
  let ?r = "boot_then (boot_files em now ?fw b)
             (\<lambda>b1. boot_then (boot_game em path dkey b1)
                (\<lambda>b2. boot_then (boot_firmware em firmware (?pin b2)) (boot_packages em ?fw)))"
  have fw: "speaks ?Q (boot_firmware em firmware (?pin b2))"
    if "boot_files em now ?fw b = Some (True, b1)" "boot_game em path dkey b1 = Some (True, b2)" for b1 b2
    using firmware_speaks[of firmware em "?pin b2"] that unfolding speaks_def silent_firmware_def by fastforce
  have r: "speaks ?Q ?r"
    by (intro speaks_then files_speak game_speaks packages_speak fw) assumption+
  have m: "in_error (bo_inst b') \<noteq> []" if "boot_machine em dkey b1 = (Taken_down, b')" for b1
    using that by (auto simp: boot_machine_def Let_def err_def boot_failure_def split: prod.splits if_splits option.splits)
  have n: "boot_machine em dkey b1 \<noteq> (Refused, b')" for b1
    by (auto simp: boot_machine_def Let_def split: prod.splits if_splits option.splits)
  show ?thesis
  proof (cases ?r)
    case None
    then show ?thesis using assms(1) by (simp add: driver_init_def Let_def)
  next
    case (Some x)
    obtain ok b1 where x: "x = (ok, b1)" by fastforce
    show ?thesis
    proof (cases ok)
      case True
      then have "boot_machine em dkey b1 = (out, b')" using assms(1) Some x by (simp add: driver_init_def Let_def)
      then show ?thesis using m n assms(2) by blast
    next
      case False
      then have "b' = b1" "out = Refused" using assms(1) Some x by (simp_all add: driver_init_def Let_def)
      then show ?thesis using r Some x False by (auto simp: speaks_def)
    qed
  qed
qed

text \<open>What a disc brings and does not install is named: the boot that fails over it ends with the installer's reason.\<close>

lemma failed_install_is_named:
  assumes "em_boot em (bo_game b) (bo_settings b) (in_fs (bo_inst b)) = Installs pkgs fs k"
    and "install_pkg_paths (em_pkg em) pkgs pkgs ((bo_inst b)\<lparr>in_fs := fs\<rparr>) = ((False, names), i)"
    and "k False (in_fs i) = Booted Install_failed fs'" "\<not> g_game_pkg_unlicensed i"
  shows "fst (boot_machine em dkey b) = Taken_down
    \<and> in_error (bo_inst (snd (boot_machine em dkey b))) = ''error.disc_content'' @ TEXT_ARG @ in_install_error i"
  using assms pkg_paths_error[OF assms(2)]
  by (simp add: boot_machine_def on_install_pkgs_def boot_failure_def err_def Let_def)

text \<open>An emulator that is never asked anything, and a game that is an archive of the one kind the core does not read.\<close>

definition quiet_emulator :: "(nat, unit, unit) emulator" where
  "quiet_emulator = \<lparr>em_title = one_save_env, em_fs = demo_env,
     em_pkg = \<lparr>pr_info = (\<lambda>_ _. None), pr_extract = (\<lambda>_ s. (Extract_failed, s)), pr_sfo = (\<lambda>_ _. ([], []))\<rparr>,
     em_found = (\<lambda>_. None), em_assets = [], em_parse = (\<lambda>_ _ v. (True, v)),
     em_host = \<lparr>gpu_bridge_present = None, vulkan_bridge_present = None, env_spu_decoder = None, env_ppu_decoder = None\<rparr>,
     em_pup = (\<lambda>_ _. None), em_pup_file = (\<lambda>_ _. None), em_tar_names = (\<lambda>_. []), em_tar_get = (\<lambda>_ _. None),
     em_decrypt = (\<lambda>_. []), em_extract = (\<lambda>_ s. (False, s)), em_boot = (\<lambda>_ _ s. Booted No_errors s),
     em_not_ready = (\<lambda>_. None), em_has_disc = (\<lambda>_. False), em_title_id = (\<lambda>_. []), em_iso_eboot = (\<lambda>_ _. None)\<rparr>"

definition first_boot :: boot where
  "first_boot = \<lparr>bo_inst = \<lparr>in_fs = memfs_install 0, in_error = [], in_install_error = [], g_savedata_zip = [], g_packages = [],
       g_raps = [], g_package_references = True, g_game_pkg_boot = [], g_game_pkg_unlicensed = False, g_savedata_snapshot = []\<rparr>,
     bo_settings = two_settings, bo_firmware = [], bo_game = [], bo_name = [], bo_is_iso = False, bo_is_pkg = False,
     bo_disc_image = []\<rparr>"

lemma refused_start_says_why_witness:
  "\<exists>b'. driver_init quiet_emulator 0 ''a.rar'' (Some ''f'') None first_boot = Some (Refused, b') \<and> in_error (bo_inst b') \<noteq> []"
proof -
  obtain b1 where f: "boot_files quiet_emulator 0 True first_boot = Some (True, b1)"
    by (simp add: boot_files_def quiet_emulator_def first_boot_def seed_savedata_def)
  have g: "boot_game quiet_emulator ''a.rar'' None b1 = Some (False, snd (the (boot_game quiet_emulator ''a.rar'' None b1)))"
    by (simp add: boot_game_def base_name_def ends_with_def lower_char_def boot_err_def Let_def)
  obtain b2 where b2: "boot_game quiet_emulator ''a.rar'' None b1 = Some (False, b2)" using g by blast
  have d: "driver_init quiet_emulator 0 ''a.rar'' (Some ''f'') None first_boot = Some (Refused, b2)"
    by (simp add: driver_init_def f boot_then_def b2)
  have n: "\<not> silent_firmware quiet_emulator 0 ''a.rar'' (Some ''f'') None first_boot"
    by (auto simp: silent_firmware_def install_firmware_def quiet_emulator_def)
  show ?thesis using refused_start_says_why[OF d] d n by blast
qed

end
