(* ===== verification/GpuShims.thy ===== *)
theory GpuShims
  imports Prelude
begin

unbundle bit_operations_syntax

text \<open>
  The ends of the two GPU bridges. \<open>waterbox/vk-shim.cpp\<close> is the guest's end of the Vulkan one: the switch that keeps
  every command in the box from a load until the renderer has let go of the old device, and the table of the commands
  the bridge does not carry. \<open>waterbox/gl-shim.cpp\<close> is the guest's end of the GL one, and \<open>waterbox/gl-host.c\<close> the
  host's: the context's identity and the dispatcher. The generated wrappers, volk, glad and the drivers are parameters.
\<close>

section \<open>The Vulkan shim\<close>

text \<open>A bridge is a function of an opcode and its five arguments. \<open>crossed\<close> is the list of the opcodes the frontend was
  handed, and \<open>forgotten\<close> how often the guest half was told to give its copies of mapped memory back.\<close>

type_synonym 'a bridge_fn = "u64 \<Rightarrow> 'a \<Rightarrow> u64"

record 'a vk_shim =
  s_host :: "'a bridge_fn option"
  s_installed :: bool
  s_quiet :: bool
  s_missing :: "string list"
  s_vk_loaded :: bool
  crossed :: "u64 list"
  forgotten :: nat

definition vk_start :: "'a vk_shim" where
  "vk_start = \<lparr>s_host = None, s_installed = False, s_quiet = False, s_missing = [], s_vk_loaded = False,
     crossed = [], forgotten = 0\<rparr>"

text \<open>\<open>None\<close> is a call through a null pointer.\<close>

definition vk_bridge :: "u64 \<Rightarrow> 'a \<Rightarrow> 'a vk_shim \<Rightarrow> (u64 \<times> 'a vk_shim) option" where
  "vk_bridge op a s =
     (if s_quiet s \<and> op \<ge> 100 then Some (0, s)
      else case s_host s of None \<Rightarrow> None | Some h \<Rightarrow> Some (h op a, s\<lparr>crossed := crossed s @ [op]\<rparr>))"

text \<open>\<open>accepts\<close> is whether the guest half takes the bridge.\<close>

definition install_vulkan_bridge :: "bool \<Rightarrow> 'a bridge_fn option \<Rightarrow> 'a vk_shim \<Rightarrow> 'a vk_shim" where
  "install_vulkan_bridge accepts fn s = s\<lparr>s_host := fn, s_installed := fn \<noteq> None \<and> accepts\<rparr>"

definition vulkan_bridge_is_present :: "'a vk_shim \<Rightarrow> bool" where
  "vulkan_bridge_is_present s = s_installed s"

text \<open>What a name leads to: the guest half's wrapper, a function that stands for one missing command, or null.\<close>

datatype vk_function = Wrapper string | Missing nat | Null_function

fun index_of :: "nat \<Rightarrow> string \<Rightarrow> string list \<Rightarrow> nat option" where
  "index_of i name [] = None"
| "index_of i name (m # ms) = (if m = name then Some i else index_of (Suc i) name ms)"

definition vk_lookup :: "(string \<Rightarrow> bool) \<Rightarrow> string \<Rightarrow> 'a vk_shim \<Rightarrow> vk_function \<times> 'a vk_shim" where
  "vk_lookup carried name s =
     (if carried name then (Wrapper name, s)
      else case index_of 0 name (s_missing s) of
             Some i \<Rightarrow> (Missing i, s)
           | None \<Rightarrow>
               if length (s_missing s) = 1024 then (Null_function, s)
               else (Missing (length (s_missing s)), s\<lparr>s_missing := s_missing s @ [name]\<rparr>))"

text \<open>The command a missing function says it stands for when it is called.\<close>

definition missing_called :: "nat \<Rightarrow> 'a vk_shim \<Rightarrow> string option" where
  "missing_called i s = (if i < length (s_missing s) then Some (s_missing s ! i) else None)"

text \<open>volk asks for the names \<open>names\<close>, one after the other.\<close>

definition vk_load_commands :: "(string \<Rightarrow> bool) \<Rightarrow> string list \<Rightarrow> 'a vk_shim \<Rightarrow> bool \<times> 'a vk_shim" where
  "vk_load_commands carried names s =
     (if \<not> s_installed s then (False, s) else (True, fold (\<lambda>n s. snd (vk_lookup carried n s)) names s))"

definition vulkan_context :: "u64 \<Rightarrow> 'a vk_shim \<Rightarrow> u64" where
  "vulkan_context ident s = (if s_installed s then ident else 0)"

definition vulkan_describe :: "string \<Rightarrow> 'a vk_shim \<Rightarrow> string" where
  "vulkan_describe words s = (if s_installed s then take 255 words else [])"

definition vk_note_state_loaded :: "'a vk_shim \<Rightarrow> 'a vk_shim" where
  "vk_note_state_loaded s = s\<lparr>s_vk_loaded := True, s_quiet := s_quiet s \<or> s_installed s\<rparr>"

definition vk_take_state_loaded :: "'a vk_shim \<Rightarrow> bool \<times> 'a vk_shim" where
  "vk_take_state_loaded s = (s_vk_loaded s, s\<lparr>s_vk_loaded := False\<rparr>)"

definition vulkan_quiet :: "'a vk_shim \<Rightarrow> 'a vk_shim" where
  "vulkan_quiet s = s\<lparr>s_quiet := True\<rparr>"

definition vulkan_old_device_gone :: "'a vk_shim \<Rightarrow> 'a vk_shim" where
  "vulkan_old_device_gone s = (if \<not> s_quiet s then s else s\<lparr>forgotten := forgotten s + 1, s_quiet := False\<rparr>)"

section \<open>A run of the Vulkan shim\<close>

text \<open>The calls the renderer, its driver manager thread and the engine make, in any order.\<close>

datatype 'a vk_event =
    Command u64 'a
  | Load_commands "string list"
  | State_loaded
  | Take_loaded
  | Go_quiet
  | Old_device_gone

fun vk_step :: "(string \<Rightarrow> bool) \<Rightarrow> 'a vk_event \<Rightarrow> 'a vk_shim \<Rightarrow> 'a vk_shim option" where
  "vk_step carried (Command op a) s = map_option snd (vk_bridge op a s)"
| "vk_step carried (Load_commands names) s = Some (snd (vk_load_commands carried names s))"
| "vk_step carried State_loaded s = Some (vk_note_state_loaded s)"
| "vk_step carried Take_loaded s = Some (snd (vk_take_state_loaded s))"
| "vk_step carried Go_quiet s = Some (vulkan_quiet s)"
| "vk_step carried Old_device_gone s = Some (vulkan_old_device_gone s)"

fun vk_run :: "(string \<Rightarrow> bool) \<Rightarrow> 'a vk_event list \<Rightarrow> 'a vk_shim \<Rightarrow> 'a vk_shim option" where
  "vk_run carried [] s = Some s"
| "vk_run carried (e # es) s = (case vk_step carried e s of None \<Rightarrow> None | Some s' \<Rightarrow> vk_run carried es s')"

text \<open>The table of missing commands: no name twice, no name the bridge carries, and never past its end.\<close>

definition missing_ok :: "(string \<Rightarrow> bool) \<Rightarrow> 'a vk_shim \<Rightarrow> bool" where
  "missing_ok carried s \<longleftrightarrow>
     distinct (s_missing s) \<and> length (s_missing s) \<le> 1024 \<and> (\<forall>m \<in> set (s_missing s). \<not> carried m)"

lemma index_of_None: "index_of i name ms = None \<longleftrightarrow> name \<notin> set ms"
  by (induction i name ms rule: index_of.induct) auto

lemma index_of_Some: "index_of i name ms = Some j \<Longrightarrow> i \<le> j \<and> j - i < length ms \<and> ms ! (j - i) = name"
proof (induction i name ms rule: index_of.induct)
  case (2 i name m ms)
  then show ?case by (cases "m = name") (auto simp: Suc_diff_le nth_Cons' Suc_le_eq less_diff_conv2)
qed simp

text \<open>A missing command's function names that command, and goes on doing so while the table grows.\<close>

lemma vk_lookup_spec:
  assumes "missing_ok carried s" "vk_lookup carried name s = (f, s')"
  shows "missing_ok carried s'" "take (length (s_missing s)) (s_missing s') = s_missing s"
    "carried name \<Longrightarrow> f = Wrapper name"
    "f = Missing i \<Longrightarrow> missing_called i s' = Some name"
    "f = Null_function \<Longrightarrow> length (s_missing s) = 1024"
  using assms
  by (auto simp: vk_lookup_def missing_ok_def missing_called_def index_of_None nth_append
      dest!: index_of_Some split: if_splits option.splits)

lemma vk_lookup_leads:
  assumes "missing_ok carried s" "vk_lookup carried name s = (f, t)"
  shows "if carried name then f = Wrapper name
    else (\<exists>i. f = Missing i \<and> missing_called i t = Some name)
      \<or> f = Null_function \<and> length (s_missing s) = 1024 \<and> name \<notin> set (s_missing s)"
proof (cases "carried name")
  case True
  then show ?thesis using vk_lookup_spec(3)[OF assms] by simp
next
  case False
  then have "f \<noteq> Wrapper x" "f = Null_function \<Longrightarrow> name \<notin> set (s_missing s)" for x
    using assms(2) by (auto simp: vk_lookup_def index_of_None split: option.splits if_splits)
  then show ?thesis using False vk_lookup_spec(4,5)[OF assms] by (cases f) auto
qed

lemma vk_lookup_quiet [simp]:
  "s_quiet (snd (vk_lookup carried n s)) = s_quiet s"
  "crossed (snd (vk_lookup carried n s)) = crossed s"
  "s_installed (snd (vk_lookup carried n s)) = s_installed s"
  by (simp_all add: vk_lookup_def split: option.split)

lemma vk_load_quiet [simp]:
  "s_quiet (snd (vk_load_commands carried names s)) = s_quiet s"
  "crossed (snd (vk_load_commands carried names s)) = crossed s"
proof -
  have "s_quiet (fold (\<lambda>n s. snd (vk_lookup carried n s)) names s) = s_quiet s
      \<and> crossed (fold (\<lambda>n s. snd (vk_lookup carried n s)) names s) = crossed s"
    by (induction names arbitrary: s) auto
  then show "s_quiet (snd (vk_load_commands carried names s)) = s_quiet s"
    "crossed (snd (vk_load_commands carried names s)) = crossed s"
    by (simp_all add: vk_load_commands_def)
qed

lemma vk_load_ok: "missing_ok carried (s :: 'a vk_shim) \<Longrightarrow> missing_ok carried (snd (vk_load_commands carried names s))"
proof -
  have "missing_ok carried (fold (\<lambda>n s. snd (vk_lookup carried n s)) names s)" if "missing_ok carried s" for s :: "'a vk_shim"
    using that vk_lookup_spec(1)[OF _ surjective_pairing] by (induction names arbitrary: s) auto
  then show "missing_ok carried s \<Longrightarrow> missing_ok carried (snd (vk_load_commands carried names s))"
    by (simp add: vk_load_commands_def)
qed

lemma vk_step_missing: "missing_ok carried s \<Longrightarrow> vk_step carried e s = Some s' \<Longrightarrow> missing_ok carried s'"
proof (cases e)
  case (Load_commands names)
  then show "missing_ok carried s \<Longrightarrow> vk_step carried e s = Some s' \<Longrightarrow> missing_ok carried s'"
    using vk_load_ok by fastforce
qed (auto simp: missing_ok_def vk_bridge_def vk_note_state_loaded_def vk_take_state_loaded_def vulkan_quiet_def
    vulkan_old_device_gone_def split: if_splits option.splits)

lemma vk_run_missing: "missing_ok carried s \<Longrightarrow> vk_run carried es s = Some s' \<Longrightarrow> missing_ok carried s'"
  by (induction es arbitrary: s) (auto split: option.splits dest: vk_step_missing)

lemma vk_step_quiet:
  assumes "s_quiet s" "e \<noteq> Old_device_gone" "vk_step carried e s = Some s'"
  shows "s_quiet s' \<and> (\<exists>ops. crossed s' = crossed s @ ops \<and> (\<forall>op \<in> set ops. op < 100))"
  using assms
  by (cases e) (auto simp: vk_bridge_def vk_note_state_loaded_def vk_take_state_loaded_def vulkan_quiet_def not_le
      split: if_splits option.splits)

lemma vk_run_quiet:
  assumes "s_quiet s" "Old_device_gone \<notin> set es" "vk_run carried es s = Some s'"
  shows "s_quiet s' \<and> (\<exists>ops. crossed s' = crossed s @ ops \<and> (\<forall>op \<in> set ops. op < 100))"
  using assms
proof (induction es arbitrary: s)
  case (Cons e es)
  from Cons.prems obtain t where t: "vk_step carried e s = Some t" "vk_run carried es t = Some s'"
    by (auto split: option.splits)
  from vk_step_quiet[OF Cons.prems(1) _ t(1)] Cons.prems(2)
  obtain ops where o: "s_quiet t" "crossed t = crossed s @ ops" "\<forall>op \<in> set ops. op < 100" by auto
  from Cons.IH[OF o(1) _ t(2)] Cons.prems(2)
  obtain ops' where "s_quiet s'" "crossed s' = crossed t @ ops'" "\<forall>op \<in> set ops'. op < 100" by auto
  then show ?case using o(2,3) by (intro conjI exI[of _ "ops @ ops'"]) auto
qed simp

text \<open>While the switch is on every command of the renderer is answered at once with 0 and leaves no trace.\<close>

lemma quiet_command: "s_quiet s \<Longrightarrow> op \<ge> 100 \<Longrightarrow> vk_bridge op a s = Some (0, s)"
  by (simp add: vk_bridge_def)

section \<open>The GL shim\<close>

record 'f gl_shim =
  g_bridge :: "'f option"
  g_state_loaded :: bool

text \<open>The sandboxed flavour; \<open>accepts\<close> is whether the generated half takes the bridge.\<close>

definition install_gpu_bridge :: "('f \<Rightarrow> bool) \<Rightarrow> 'f option \<Rightarrow> 'f gl_shim \<Rightarrow> 'f gl_shim" where
  "install_gpu_bridge accepts fn s =
     (case fn of None \<Rightarrow> s | Some f \<Rightarrow> if accepts f then s\<lparr>g_bridge := Some f\<rparr> else s)"

definition gpu_bridge_is_present :: "'f gl_shim \<Rightarrow> bool" where
  "gpu_bridge_is_present s \<longleftrightarrow> g_bridge s \<noteq> None"

definition gl_note_state_loaded :: "'f gl_shim \<Rightarrow> 'f gl_shim" where
  "gl_note_state_loaded s = s\<lparr>g_state_loaded := True\<rparr>"

definition gl_take_state_loaded :: "'f gl_shim \<Rightarrow> bool \<times> 'f gl_shim" where
  "gl_take_state_loaded s = (g_state_loaded s, s\<lparr>g_state_loaded := False\<rparr>)"

datatype 'p gl_function = Gl_wrapper 'p | Gl_trap 'p | UnbridgedCallTrap

definition gl_lookup_or_trap :: "(string \<Rightarrow> 'p option) \<Rightarrow> (string \<Rightarrow> 'p option) \<Rightarrow> string \<Rightarrow> 'p gl_function" where
  "gl_lookup_or_trap wrapper trap name =
     (case wrapper name of
        Some p \<Rightarrow> Gl_wrapper p
      | None \<Rightarrow> (case trap name of Some t \<Rightarrow> Gl_trap t | None \<Rightarrow> UnbridgedCallTrap))"

text \<open>A load is heard once: of any number of looks between two loads, the first hears of the earlier one.\<close>

lemma load_is_heard_once:
  "fst (gl_take_state_loaded (gl_note_state_loaded s))"
  "\<not> fst (gl_take_state_loaded (snd (gl_take_state_loaded s)))"
  by (simp_all add: gl_take_state_loaded_def gl_note_state_loaded_def)

section \<open>The host's GL\<close>

text \<open>The driver: whether a context can be made and its entry points found, its version, its words and its test pixel.
  \<open>clocks\<close> is what the clocks and the process's place in memory say when an identity is minted.\<close>

record 'a gl_driver =
  gd_context :: "string option"
  gd_version :: nat
  gd_renderer :: "string option"
  gd_gl_version :: "string option"
  gd_clear_pixel :: "'a \<Rightarrow> u32"
  gd_generated :: "u64 \<Rightarrow> 'a \<Rightarrow> u64 option"
  gd_list_length :: u64

record clocks =
  cl_address :: u64
  cl_time :: u64
  cl_pid :: u64
  cl_sec :: u64
  cl_nsec :: u64

record gl_host =
  s_gl_version :: nat
  s_context_id :: u64
  s_unhandled :: u64
  s_unhandled_op :: u64
  made :: u64

definition gl_host_start :: gl_host where
  "gl_host_start = \<lparr>s_gl_version = 0, s_context_id = 0, s_unhandled = 0, s_unhandled_op = 0, made = 0\<rparr>"

definition per_process :: "clocks \<Rightarrow> u64" where
  "per_process c = push_bit 32 (cl_pid c) XOR (cl_sec c * 1000000000 + cl_nsec c)"

definition raw_context_id :: "clocks \<Rightarrow> u64 \<Rightarrow> u64" where
  "raw_context_id c n = push_bit 16 (cl_address c) XOR push_bit 8 (cl_time c) XOR per_process c XOR n"

definition mint_context_id :: "clocks \<Rightarrow> gl_host \<Rightarrow> gl_host" where
  "mint_context_id c s =
     (let n = made s + 1; x = raw_context_id c n
      in s\<lparr>made := n, s_context_id := if x = 0 then 1 else x\<rparr>)"

definition gl_host_state_loaded :: "clocks \<Rightarrow> gl_host \<Rightarrow> gl_host" where
  "gl_host_state_loaded c s = (if s_context_id s \<noteq> 0 then mint_context_id c s else s)"

definition gl_host_unhandled :: "gl_host \<Rightarrow> u64 \<times> u64" where
  "gl_host_unhandled s = (s_unhandled s, s_unhandled_op s)"

definition gl_host_description :: "'a gl_driver \<Rightarrow> string" where
  "gl_host_description d =
     take 255 ((case gd_gl_version d of None \<Rightarrow> ''?'' | Some v \<Rightarrow> v) @ '' on ''
               @ (case gd_renderer d of None \<Rightarrow> ''?'' | Some r \<Rightarrow> r))"

text \<open>A refusal of \<open>chimera_gl_host_init\<close>, by its text. A version of the driver is \<open>10000 * major + minor\<close>.\<close>

datatype gl_refusal = No_context string | No_entry_points | Too_old nat nat

definition gl_major :: "nat \<Rightarrow> nat" where "gl_major v = v div 10000"
definition gl_minor :: "nat \<Rightarrow> nat" where "gl_minor v = v mod 10000"

definition gl_host_init :: "'a gl_driver \<Rightarrow> clocks \<Rightarrow> gl_host \<Rightarrow> gl_refusal option \<times> gl_host" where
  "gl_host_init d c s =
     (case gd_context d of
        Some e \<Rightarrow> (Some (No_context e), s)
      | None \<Rightarrow>
          let s1 = s\<lparr>s_gl_version := gd_version d\<rparr>
          in if gd_version d = 0 then (Some No_entry_points, s1)
             else if gl_major (gd_version d) < 3 then (Some (Too_old (gl_major (gd_version d)) (gl_minor (gd_version d))), s1)
             else (None, mint_context_id c s1))"

text \<open>A call of the dispatcher, by its opcode: the bridge's own questions, the generated cases and the rest. What a call
  writes in the guest is the second part of its answer.\<close>

datatype 'a gl_call = Version "nat option" | List_length | Context_id | Clear_test 'a bool | Generated u64 'a

datatype gl_written = Nothing | Text string | Pixel u32

definition gl_dispatch :: "'a gl_driver \<Rightarrow> 'a gl_call \<Rightarrow> gl_host \<Rightarrow> (u64 \<times> gl_written) \<times> gl_host" where
  "gl_dispatch d call s =
     (case call of
        Version out \<Rightarrow>
          (case out of
             None \<Rightarrow> ((0, Nothing), s)
           | Some room \<Rightarrow>
               if room = 0 then ((0, Nothing), s)
               else ((1, Text (take (room - 1) (gl_host_description d))), s))
      | List_length \<Rightarrow> ((gd_list_length d, Nothing), s)
      | Context_id \<Rightarrow> ((s_context_id s, Nothing), s)
      | Clear_test a pixel_out \<Rightarrow> ((1, if pixel_out then Pixel (gd_clear_pixel d a) else Nothing), s)
      | Generated op a \<Rightarrow>
          (case gd_generated d op a of
             Some r \<Rightarrow> ((r, Nothing), s)
           | None \<Rightarrow> ((0, Nothing), s\<lparr>s_unhandled := s_unhandled s + 1, s_unhandled_op := op\<rparr>)))"

text \<open>An identity is never 0, so 0 is said exactly before there is a context.\<close>

lemma minted_is_not_zero: "s_context_id (mint_context_id c s) \<noteq> 0"
  by (simp add: mint_context_id_def Let_def)

lemma init_gives_identity: "gl_host_init d c s = (None, s') \<Longrightarrow> s_context_id s' \<noteq> 0"
  by (auto simp: gl_host_init_def minted_is_not_zero Let_def split: option.splits if_splits)

text \<open>The count alone tells two mints of one moment apart, but for the one that is moved off 0.\<close>

lemma xor_cancel: "(a XOR m = a XOR n) = (m = (n :: u64))"
proof
  assume "a XOR m = a XOR n"
  then have "a XOR (a XOR m) = a XOR (a XOR n)" by simp
  then show "m = n" by (simp add: xor.assoc[symmetric])
qed simp

lemma mints_differ:
  assumes "raw_context_id c (made s + 1) \<noteq> 0" "raw_context_id c (made s + 2) \<noteq> 0"
  shows "s_context_id (mint_context_id c (mint_context_id c s)) \<noteq> s_context_id (mint_context_id c s)"
proof -
  have "raw_context_id c (made s + 1) \<noteq> raw_context_id c (made s + 2)"
    by (simp add: raw_context_id_def xor_cancel)
  then show ?thesis using assms by (simp add: mint_context_id_def Let_def add.assoc)
qed

text \<open>The count says how many calls of a run had no case, which is what the gate looks at.\<close>

fun gl_calls :: "'a gl_driver \<Rightarrow> 'a gl_call list \<Rightarrow> gl_host \<Rightarrow> gl_host" where
  "gl_calls d [] s = s"
| "gl_calls d (c # cs) s = gl_calls d cs (snd (gl_dispatch d c s))"

definition has_no_case :: "'a gl_driver \<Rightarrow> 'a gl_call \<Rightarrow> bool" where
  "has_no_case d c = (case c of Generated op a \<Rightarrow> gd_generated d op a = None | _ \<Rightarrow> False)"

lemma shrugs_are_counted:
  "s_unhandled (gl_calls d cs s) = s_unhandled s + of_nat (length (filter (has_no_case d) cs))"
proof (induction cs arbitrary: s)
  case (Cons c cs)
  have "s_unhandled (snd (gl_dispatch d c s)) = s_unhandled s + (if has_no_case d c then 1 else 0)"
    by (auto simp: gl_dispatch_def has_no_case_def split: gl_call.split option.split)
  then show ?case by (simp add: Cons.IH)
qed simp

section \<open>After a load\<close>

text \<open>C40. From a load until the renderer says the old device is gone, whatever its threads ask for, no command of
  Vulkan reaches the frontend: all that crosses are the bridge's own questions, every command is answered with 0 at
  once, and a command looked up meanwhile still leads to its wrapper when it is carried and otherwise to a function
  that names it, or to null once the table of 1,024 such functions is full of other commands. The word that the
  device is gone gives the mapped copies back and lets commands cross again.\<close>

theorem nothing_crosses_after_a_load:
  assumes "s_installed s" "missing_ok carried s"
    "vk_run carried es (vk_note_state_loaded s) = Some s'" "Old_device_gone \<notin> set es"
  shows "(\<exists>ops. crossed s' = crossed s @ ops \<and> (\<forall>op \<in> set ops. op < 100))
    \<and> (\<forall>op a. 100 \<le> op \<longrightarrow> vk_bridge op a s' = Some (0, s'))
    \<and> (\<forall>name f t. vk_lookup carried name s' = (f, t) \<longrightarrow>
         (if carried name then f = Wrapper name
          else (\<exists>i. f = Missing i \<and> missing_called i t = Some name)
            \<or> f = Null_function \<and> length (s_missing s') = 1024 \<and> name \<notin> set (s_missing s')))
    \<and> \<not> s_quiet (vulkan_old_device_gone s') \<and> forgotten (vulkan_old_device_gone s') = forgotten s' + 1"
proof -
  have q: "s_quiet (vk_note_state_loaded s)" "crossed (vk_note_state_loaded s) = crossed s"
    using assms(1) by (simp_all add: vk_note_state_loaded_def)
  from vk_run_quiet[OF q(1) assms(4,3)]
  obtain ops where r: "s_quiet s'" "crossed s' = crossed s @ ops" "\<forall>op \<in> set ops. op < 100" using q(2) by auto
  have m: "missing_ok carried s'"
    using vk_run_missing[OF _ assms(3)] assms(2) by (simp add: missing_ok_def vk_note_state_loaded_def)
  have g: "\<not> s_quiet (vulkan_old_device_gone s') \<and> forgotten (vulkan_old_device_gone s') = forgotten s' + 1"
    using r(1) by (simp add: vulkan_old_device_gone_def)
  show ?thesis using r(2,3) quiet_command[OF r(1)] vk_lookup_leads[OF m] g by blast
qed

text \<open>A frontend that answers everything with 7, and a renderer that looks two commands up, asks which device this is
  and calls a command.\<close>

definition one_vk_shim :: "unit vk_shim" where
  "one_vk_shim = install_vulkan_bridge True (Some (\<lambda>_ _. 7)) vk_start"

definition one_vk_run :: "unit vk_event list" where
  "one_vk_run = [Load_commands [''vkA'', ''vkB''], Command 3 (), Take_loaded, Command 100 ()]"

theorem nothing_crosses_after_a_load_witness:
  "\<exists>s'. vk_run (\<lambda>n. n = ''vkA'') one_vk_run (vk_note_state_loaded one_vk_shim) = Some s'
     \<and> crossed s' = [3] \<and> s_missing s' = [''vkB''] \<and> vk_bridge 100 () s' = Some (0, s')"
proof -
  obtain s' where r: "vk_run (\<lambda>n. n = ''vkA'') one_vk_run (vk_note_state_loaded one_vk_shim) = Some s'"
    and c: "crossed s' = [3]" "s_missing s' = [''vkB'']"
    by (simp add: one_vk_run_def one_vk_shim_def install_vulkan_bridge_def vk_start_def vk_note_state_loaded_def
        vk_load_commands_def vk_lookup_def vk_bridge_def vk_take_state_loaded_def)
  have "s_installed one_vk_shim" "missing_ok (\<lambda>n. n = ''vkA'') one_vk_shim" "Old_device_gone \<notin> set one_vk_run"
    by (simp_all add: one_vk_shim_def install_vulkan_bridge_def vk_start_def missing_ok_def one_vk_run_def)
  from nothing_crosses_after_a_load[OF this(1,2) r this(3)] r c show ?thesis by auto
qed

end
