(* ===== verification/WbxEntry.thy ===== *)
theory WbxEntry
  imports DriverBoot DriverFrame GpuShims "HOL-Library.Signed_Division"
begin

text \<open>
  The sandboxed core's entry points: \<open>waterbox/wbx-entry.cpp\<close>. The project's slots and settings and the mounted files
  are the parameter \<open>wbx\<close>: a slot or a setting that is absent is \<open>None\<close> and leaves the buffer it would be written to
  alone, and what is written fits the size it is asked with. The entry points that only hand a call on are the
  driver's own operations.
\<close>

section \<open>What the project brings\<close>

record wbx =
  wbx_slot_first :: "string \<Rightarrow> nat \<Rightarrow> string option"
  wbx_slot_count :: "string \<Rightarrow> nat"
  wbx_slot_name :: "string \<Rightarrow> nat \<Rightarrow> nat \<Rightarrow> string option"
  wbx_setting_str :: "string \<Rightarrow> nat \<Rightarrow> string option"
  wbx_setting_bool :: "string \<Rightarrow> int \<Rightarrow> int"
  wbx_file :: "string \<Rightarrow> string option"
  cpu_supports_v3 :: bool

record session =
  se_boot :: boot
  se_input :: input_state
  g_loadError :: string

definition c_string :: "string \<Rightarrow> string" where
  "c_string s = takeWhile (\<lambda>c. c \<noteq> CHR 0x00) s"

definition strip_newlines :: "string \<Rightarrow> string" where
  "strip_newlines s = rev (dropWhile (\<lambda>c. c = CHR 0x0A \<or> c = CHR 0x0D) (rev s))"

definition real_name :: "wbx \<Rightarrow> string" where
  "real_name w = (case wbx_file w ''rom.name'' of None \<Rightarrow> [] | Some t \<Rightarrow> c_string (strip_newlines (take 255 t)))"

definition find_game :: "wbx \<Rightarrow> string" where
  "find_game w =
     (case wbx_slot_first w ''game'' 256 of
        Some name \<Rightarrow> name
      | None \<Rightarrow>
          (case real_name w of
             [] \<Rightarrow> ''game''
           | c # cs \<Rightarrow>
               let candidate = (if c = CHR ''/'' then [] else ''/'') @ c # cs
               in if wbx_file w candidate \<noteq> None then take 255 candidate
                  else if wbx_file w (c # cs) \<noteq> None then take 255 (c # cs)
                  else ''game''))"

section \<open>Starting\<close>

definition refuse :: "string \<Rightarrow> session \<Rightarrow> (int \<times> session) option" where
  "refuse e s = Some (0, s\<lparr>g_loadError := take 511 e\<rparr>)"

definition on_boot :: "(inst \<Rightarrow> inst) \<Rightarrow> session \<Rightarrow> session" where
  "on_boot f s = s\<lparr>se_boot := (se_boot s)\<lparr>bo_inst := f (bo_inst (se_boot s))\<rparr>\<rparr>"

definition on_settings :: "(settings \<Rightarrow> settings) \<Rightarrow> session \<Rightarrow> session" where
  "on_settings f s = s\<lparr>se_boot := (se_boot s)\<lparr>bo_settings := f (bo_settings (se_boot s))\<rparr>\<rparr>"

definition setting_or :: "wbx \<Rightarrow> string \<Rightarrow> nat \<Rightarrow> string \<Rightarrow> string" where
  "setting_or w name room v0 = (case wbx_setting_str w name room of None \<Rightarrow> v0 | Some v \<Rightarrow> v)"

definition init_firmware :: "wbx \<Rightarrow> string option" where
  "init_firmware w = (if wbx_file w ''PS3UPDAT.PUP'' \<noteq> None then Some ''PS3UPDAT.PUP'' else None)"

definition init_dkey :: "wbx \<Rightarrow> string option" where
  "init_dkey w =
     (case wbx_slot_first w ''dkey'' 256 of
        Some name \<Rightarrow> Some name
      | None \<Rightarrow> if wbx_file w ''dkey'' \<noteq> None then Some ''dkey'' else None)"

text \<open>Every file of a slot, in order; one that is not there is left out.\<close>

definition slot_files :: "wbx \<Rightarrow> string \<Rightarrow> (string option \<Rightarrow> inst \<Rightarrow> inst) \<Rightarrow> inst \<Rightarrow> inst" where
  "slot_files w slot add s0 =
     fold (\<lambda>i s. case wbx_slot_name w slot i 256 of None \<Rightarrow> s | Some name \<Rightarrow> add (Some name) s) [0..<wbx_slot_count w slot] s0"

definition init_slots :: "wbx \<Rightarrow> inst \<Rightarrow> inst" where
  "init_slots w s =
     slot_files w ''rap'' add_rap (slot_files w ''pkg'' add_package (set_savedata (wbx_slot_first w ''savedata'' 256) s))"

text \<open>The settings that are handed to the emulator's own parsers: the loop ends at the first index without a name.\<close>

definition option_count :: nat where
  "option_count = length translated + length option_nodes"

definition init_options :: "wbx \<Rightarrow> settings \<Rightarrow> settings" where
  "init_options w s0 =
     fold (\<lambda>i s. case option_name (int i) of
                   None \<Rightarrow> s
                 | Some name \<Rightarrow>
                     (case wbx_setting_str w name 256 of None \<Rightarrow> s | Some v \<Rightarrow> set_option (Some name) (Some v) s))
       [0..<option_count] s0"

definition port_key :: "nat \<Rightarrow> string" where
  "port_key port = ''port'' @ [char_of (49 + port)]"

definition port_device :: "wbx \<Rightarrow> nat \<Rightarrow> string" where
  "port_device w port = setting_or w (port_key port) 16 (if port = 0 then ''dualshock3'' else ''none'')"

definition init_ports :: "wbx \<Rightarrow> input_state \<Rightarrow> input_state" where
  "init_ports w s0 =
     fold (\<lambda>port s. set_port (int port) (if port_device w port \<noteq> ''none'' then 1 else 0) s) [0..<7] s0"

definition is_iso_name :: "string \<Rightarrow> bool" where
  "is_iso_name n \<longleftrightarrow> length n \<ge> 4 \<and> drop (length n - 4) n \<in> {''.iso'', ''.ISO''}"

definition init_machine :: "wbx \<Rightarrow> ('d, 'e, 'p) emulator \<Rightarrow> u64 \<Rightarrow> session \<Rightarrow> (int \<times> session) option" where
  "init_machine w em now s =
     (if init_firmware w = None \<and> is_iso_name (find_game w) then refuse ''error.needs_firmware'' s
      else case driver_init em now (find_game w) (init_firmware w) (init_dkey w) (se_boot s) of
             None \<Rightarrow> None
           | Some (out, b) \<Rightarrow>
               if out = Refused \<or> out = Taken_down then refuse (in_error (bo_inst b)) (s\<lparr>se_boot := b\<rparr>)
               else Some (1, s\<lparr>se_boot := b\<rparr>))"

definition init_decoders :: "wbx \<Rightarrow> session \<Rightarrow> session option" where
  "init_decoders w s =
     (let s1 = on_settings (set_spu_decoder (Some (setting_or w ''spu_decoder'' 16 ''asmjit''))) s;
          ppu = setting_or w ''ppu_decoder'' 16 ''interpreter''
      in if ppu = ''llvm'' \<and> \<not> cpu_supports_v3 w then None
         else Some (on_settings (set_ppu_decoder (Some ppu)) s1))"

text \<open>What \<open>Init\<close> does before it looks at the firmware: the slots and the settings, or the reason it refuses one.\<close>

definition init_prepare :: "wbx \<Rightarrow> ('d, 'e, 'p) emulator \<Rightarrow> session \<Rightarrow> (string \<times> session) + session" where
  "init_prepare w em s0 =
     (let s1 = on_boot (init_slots w) (s0\<lparr>g_loadError := []\<rparr>);
          s2 = on_settings (set_renderer (Some (setting_or w ''renderer'' 32 ''null''))) s1
      in case renderer_refusal (em_host em) (bo_settings (se_boot s2)) of
           Some refusal \<Rightarrow> Inl (refusal, s2)
         | None \<Rightarrow>
             (case init_decoders w s2 of
                None \<Rightarrow> Inl (''error.no_avx2'', on_settings (set_spu_decoder (Some (setting_or w ''spu_decoder'' 16 ''asmjit''))) s2)
              | Some s3 \<Rightarrow>
                  let s4 = on_settings (set_read_color_buffers (wbx_setting_bool w ''readColorBuffers'' 0))
                             (on_settings (set_write_color_buffers (wbx_setting_bool w ''writeColorBuffers'' 0)) s3);
                      s5 = on_settings (init_options w) s4
                  in Inr (s5\<lparr>se_input := init_ports w (se_input s5)\<rparr>)))"

definition wbx_Init :: "wbx \<Rightarrow> ('d, 'e, 'p) emulator \<Rightarrow> u64 \<Rightarrow> session \<Rightarrow> (int \<times> session) option" where
  "wbx_Init w em now s0 =
     (case init_prepare w em s0 of
        Inl (refusal, s) \<Rightarrow> refuse refusal s
      | Inr s \<Rightarrow> init_machine w em now s)"

lemmas wbx_Init_whole = wbx_Init_def init_prepare_def

section \<open>Controls\<close>

definition IsButtonActive :: "int \<Rightarrow> input_state \<Rightarrow> bool" where
  "IsButtonActive index s \<longleftrightarrow> index \<ge> 0 \<and> index < 7 * 17 \<and> port_present (index sdiv 17) s"

definition IsAxisActive :: "int \<Rightarrow> input_state \<Rightarrow> bool" where
  "IsAxisActive index s \<longleftrightarrow> index \<ge> 0 \<and> index < 7 * 4 \<and> port_present (index sdiv 4) s"

definition SetButton :: "int \<Rightarrow> int \<Rightarrow> input_state \<Rightarrow> input_state" where
  "SetButton index state s = set_button (index sdiv 17) (index smod 17) state s"

definition SetAxis :: "int \<Rightarrow> int \<Rightarrow> input_state \<Rightarrow> input_state" where
  "SetAxis index v s = set_axis (index sdiv 4) (index smod 4) (v + 128) s"

section \<open>Loads, and the request of the disc copy\<close>

definition StateLoaded :: "'f gl_shim \<times> 'a vk_shim \<Rightarrow> 'f gl_shim \<times> 'a vk_shim" where
  "StateLoaded s = (gl_note_state_loaded (fst s), vk_note_state_loaded (snd s))"

text \<open>The path on the disc and the flags; \<open>None\<close> is the answer -100.\<close>

definition disc_copy_request :: "wbx \<Rightarrow> (string \<times> nat) option" where
  "disc_copy_request w =
     (case wbx_file w ''disccopy'' of
        None \<Rightarrow> None
      | Some t \<Rightarrow>
          let spec = c_string (take 511 t);
              path = takeWhile (\<lambda>c. c \<noteq> CHR 0x0A) spec;
              rest = drop (length path + 1) spec
          in Some (path, (if has_part ''raw'' rest then 1 else 0) + (if has_part ''verify'' rest then 2 else 0)))"

section \<open>What a start does to the controls\<close>

text \<open>Every name of the table is asked for, and the loop ends behind the last.\<close>

lemma option_names_end: "option_name (int i) \<noteq> None \<longleftrightarrow> i < option_count"
  by (auto simp: option_name_def option_count_def Let_def)

lemma is_iso_name_suffix: "is_iso_name n \<longleftrightarrow> (\<exists>m. n = m @ ''.iso'' \<or> n = m @ ''.ISO'')"
proof
  assume "is_iso_name n"
  then have "n = take (length n - 4) n @ drop (length n - 4) n" "drop (length n - 4) n \<in> {''.iso'', ''.ISO''}"
    by (simp_all add: is_iso_name_def)
  then show "\<exists>m. n = m @ ''.iso'' \<or> n = m @ ''.ISO''" by (metis empty_iff insert_iff)
qed (auto simp: is_iso_name_def)

lemma ports_loop:
  fixes w :: wbx
  assumes "n \<le> 7" "length (g_port_present s) = 7"
  defines "r \<equiv> fold (\<lambda>port s. set_port (int port) (if port_device w port \<noteq> ''none'' then 1 else 0) s) [0..<n] s"
  shows "length (g_port_present r) = 7
    \<and> (\<forall>port < 7. g_port_present r ! port = (if port < n then port_device w port \<noteq> ''none'' else g_port_present s ! port))
    \<and> g_button r = g_button s \<and> g_axis r = g_axis s \<and> m_pads r = m_pads s"
  using assms(1) unfolding r_def
proof (induction n)
  case 0
  then show ?case using assms(2) by simp
next
  case (Suc n)
  then show ?case by (auto simp: set_port_def PORTS_def nth_list_update less_Suc_eq)
qed

lemma init_ports_spec:
  assumes "length (g_port_present s) = 7"
  shows "port < 7 \<Longrightarrow> g_port_present (init_ports w s) ! port \<longleftrightarrow> port_device w port \<noteq> ''none''"
    "length (g_port_present (init_ports w s)) = 7"
    "g_button (init_ports w s) = g_button s" "g_axis (init_ports w s) = g_axis s" "m_pads (init_ports w s) = m_pads s"
  using ports_loop[OF order_refl assms, of w] unfolding init_ports_def by auto

lemma init_ports_ok: "input_ok s \<Longrightarrow> input_ok (init_ports w s)"
  using init_ports_spec(2-5)[of s w] by (simp add: input_ok_def PORTS_def)

lemma init_decoders_input: "init_decoders w s = Some s' \<Longrightarrow> se_input s' = se_input s \<and> g_loadError s' = g_loadError s"
  by (auto simp: init_decoders_def on_settings_def Let_def split: if_splits)

lemma started_session:
  assumes "wbx_Init w em now s = Some (1, s')"
  shows "se_input s' = init_ports w (se_input s)" "g_loadError s' = []"
  using assms
  by (auto simp: wbx_Init_whole init_machine_def refuse_def Let_def on_boot_def on_settings_def dest!: init_decoders_input
      split: option.splits if_splits prod.splits)

lemma int_sdiv: "int x sdiv int n = int (x div n)"
  by (cases x; cases n) (simp_all only: signed_divide_int_def abs_of_nat sgn_of_nat zdiv_int, simp_all)

lemma int_smod: "int x smod int n = int (x mod n)"
  by (cases x) (simp_all only: signed_modulo_int_def abs_of_nat sgn_of_nat zmod_int, simp_all)

lemma quot_index:
  assumes "b < n"
  shows "int (n * port + b) sdiv int n = int port" "int (n * port + b) smod int n = int b"
  unfolding int_sdiv int_smod using assms by simp_all

text \<open>A stick moves as a button does: the frontend's signed value, put in the pad's byte.\<close>

lemma SetAxis_byte:
  assumes "a < 4" "port < 7" "-128 \<le> v" "v \<le> 127" "input_ok s"
  shows "g_axis (SetAxis (int (4 * port + a)) v s) ! port ! a = of_int (v + 128)"
proof -
  have "length (g_axis s) = 7" "length (g_axis s ! port) = 4"
    using assms(2,5) nth_mem[of port "g_axis s"] by (simp_all add: input_ok_def PORTS_def AXES_def)
  then show ?thesis
    using quot_index[OF assms(1), of port] assms(1-4) by (simp add: SetAxis_def set_axis_def PORTS_def AXES_def)
qed

text \<open>C39. What the project plugs into a port is what the frontend may move and what the game sees: after a start the
  buttons of a port are offered exactly when its setting names a pad, the console finds a pad there in the same case,
  and pressing a button is seen on that pad, on that button and on no other of it.\<close>

theorem controls_reach_their_pad:
  assumes "wbx_Init w em now s = Some (1, s')" "input_ok (se_input s)" "port < 7" "b < 17" "m_player_id p = port"
  shows "(IsButtonActive (int (17 * port + b)) (se_input s') \<longleftrightarrow> port_device w port \<noteq> ''none'')
    \<and> (fst (bindPadToDevice p (se_input s')) \<longleftrightarrow> port_device w port \<noteq> ''none'')
    \<and> (port_device w port \<noteq> ''none'' \<longrightarrow>
        (\<exists>q. m_pads (process_pads (SetButton (int (17 * port + b)) st (snd (bindPadToDevice p (se_input s'))))) ! port = Some q
           \<and> (\<forall>k < 17. b_code (m_buttons q ! k) = g_button_codes ! k
                \<and> b_pressed (m_buttons q ! k) = (if k = b then st \<noteq> 0 else g_button (se_input s) ! port ! k))))"
proof -
  let ?on = "port_device w port \<noteq> ''none''" and ?i = "se_input s'"
  have lp: "length (g_port_present (se_input s)) = 7" using assms(2) by (simp add: input_ok_def PORTS_def)
  note start = started_session(1)[OF assms(1)]
  note ports = init_ports_spec[OF lp]
  have ok: "input_ok ?i" unfolding start by (rule init_ports_ok[OF assms(2)])
  have on: "g_port_present ?i ! port \<longleftrightarrow> ?on" unfolding start by (rule ports(1)[OF assms(3)])
  have idx: "17 * port + b < 119" using assms(3,4) by simp
  have act: "IsButtonActive (int (17 * port + b)) ?i \<longleftrightarrow> ?on"
    using quot_index[OF assms(4), of port] idx assms(3) on by (simp add: IsButtonActive_def port_present_def PORTS_def)
  have bnd: "fst (bindPadToDevice p ?i) \<longleftrightarrow> ?on" using assms(3,5) on by (simp add: bindPadToDevice_def Let_def PORTS_def)
  have "\<exists>q. m_pads (process_pads (SetButton (int (17 * port + b)) st (snd (bindPadToDevice p ?i)))) ! port = Some q
      \<and> (\<forall>k < 17. b_code (m_buttons q ! k) = g_button_codes ! k
           \<and> b_pressed (m_buttons q ! k) = (if k = b then st \<noteq> 0 else g_button (se_input s) ! port ! k))" if ?on
  proof -
    let ?t = "snd (bindPadToDevice p ?i)"
    let ?u = "SetButton (int (17 * port + b)) st ?t"
    let ?j = "?i\<lparr>m_pads := (m_pads ?i)[port := Some (p\<lparr>m_connected := True, m_assign_changes := True,
        m_capability := [PS3_CONFORMITY, PRESS_MODE, HP_ANALOG_STICK, ACTUATOR, SENSOR_MODE],
        m_buttons := map (\<lambda>c. \<lparr>b_code = c, b_pressed = False, b_value = 0\<rparr>) g_button_codes,
        m_sticks := map (\<lambda>a. (a, 128)) g_axis_offsets\<rparr>)]\<rparr>"
    have bt: "?t = ?j" using that on assms(3,5) by (simp add: bindPadToDevice_def Let_def PORTS_def)
    have u: "?u = set_button (int port) (int b) st ?j"
      unfolding SetButton_def using quot_index[OF assms(4), of port] bt by simp
    have uok: "input_ok ?u" unfolding SetButton_def by (intro set_button_ok bind_ok ok)
    have l: "length (m_pads ?i) = 7" "length (g_button ?i) = 7" "length (g_button ?i ! port) = 17"
      using ok assms(3) nth_mem[of port "g_button ?i"] by (simp_all add: input_ok_def PORTS_def BUTTONS_def)
    obtain q0 where q0: "m_pads ?u ! port = Some q0" "m_buttons q0 = map (\<lambda>c. \<lparr>b_code = c, b_pressed = False, b_value = 0\<rparr>) g_button_codes"
      using assms(3,4) l unfolding u by (simp add: set_button_def PORTS_def BUTTONS_def)
    have g: "g_button ?u ! port ! k = (if k = b then st \<noteq> 0 else g_button (se_input s) ! port ! k)" if "k < 17" for k
      using that l assms(3,4) unfolding u by (simp add: set_button_def PORTS_def BUTTONS_def nth_list_update start ports(3))
    have shown: "\<exists>q. m_pads (process_pads ?u) ! port = Some q \<and> b_pressed (m_buttons q ! k) = g_button ?u ! port ! k
        \<and> b_code (m_buttons q ! k) = g_button_codes ! k" if "k < 17" for k
    proof -
      have "length g_button_codes = 17" by (simp add: g_button_codes_def)
      then have "b_code (m_buttons q0 ! k) = g_button_codes ! k" using that by (simp add: q0(2))
      then show ?thesis using process_shows_button[OF uok, of port q0 k] that q0(1) assms(3) by (simp add: PORTS_def BUTTONS_def)
    qed
    obtain q where q: "m_pads (process_pads ?u) ! port = Some q" using shown[of 0] by auto
    show ?thesis using shown g q by (intro exI[of _ q]) fastforce
  qed
  then show ?thesis using act bnd by blast
qed

section \<open>Refusals\<close>

lemma refusal_text: "renderer_refusal h st = Some e \<Longrightarrow> e \<noteq> []"
  by (auto simp: renderer_refusal_def split: if_splits)

lemma machine_says_why:
  assumes "init_machine w em now s = Some (r, s')"
  shows "r = 1 \<and> g_loadError s' = g_loadError s
    \<or> r = 0 \<and> (g_loadError s' \<noteq> []
        \<or> silent_firmware em now (find_game w) (init_firmware w) (init_dkey w) (se_boot s))"
proof (cases "init_firmware w = None \<and> is_iso_name (find_game w)")
  case True
  then show ?thesis using assms by (auto simp: init_machine_def refuse_def)
next
  case False
  then obtain out b where d: "driver_init em now (find_game w) (init_firmware w) (init_dkey w) (se_boot s) = Some (out, b)"
    using assms by (auto simp: init_machine_def split: if_splits option.splits)
  show ?thesis
  proof (cases "out = Refused \<or> out = Taken_down")
    case True
    then have r: "r = 0" "g_loadError s' = take 511 (in_error (bo_inst b))"
      using assms d False by (auto simp: init_machine_def refuse_def split: if_splits)
    then show ?thesis using refused_start_says_why[OF d True] by auto
  next
    case out: False
    then show ?thesis using assms d False by (auto simp: init_machine_def split: if_splits)
  qed
qed

lemma prepare_says_why:
  "init_prepare w em s = Inl (e, s') \<Longrightarrow> take 511 e \<noteq> []"
  "init_prepare w em s = Inr s' \<Longrightarrow> g_loadError s' = []"
  by (auto simp: init_prepare_def Let_def on_boot_def on_settings_def dest: refusal_text dest!: init_decoders_input
      split: option.splits)

text \<open>C38. A session that does not start says why: when \<open>Init\<close> answers 0 the load error is set, whichever stage refused it,
  the entry point's own checks, the driver's or the emulator's boot, and when it answers 1 there is none. The one
  exception is that the firmware of this very session, mounted as \<open>PS3UPDAT.PUP\<close> and opened in the filesystem this start
  has made, installs and has an empty version text: the driver refuses that in silence.\<close>

theorem refused_session_says_why:
  assumes "wbx_Init w em now s = Some (r, s')"
  shows "r = 1 \<and> g_loadError s' = []
    \<or> r = 0 \<and> (g_loadError s' \<noteq> []
        \<or> (\<exists>s1. init_prepare w em s = Inr s1
             \<and> silent_firmware em now (find_game w) (init_firmware w) (init_dkey w) (se_boot s1)))"
proof (cases "init_prepare w em s")
  case (Inl es)
  then show ?thesis using assms prepare_says_why(1)[of w em s] by (cases es) (auto simp: wbx_Init_def refuse_def)
next
  case (Inr s1)
  then show ?thesis using assms prepare_says_why(2)[OF Inr] machine_says_why[of w em now s1] by (auto simp: wbx_Init_def)
qed

section \<open>Two projects\<close>

text \<open>A project with one file and a second pad in port 3, on an emulator that boots whatever it is given.\<close>

definition one_project :: wbx where
  "one_project = \<lparr>wbx_slot_first = (\<lambda>slot _. if slot = ''game'' then Some ''a'' else None),
     wbx_slot_count = (\<lambda>_. 0), wbx_slot_name = (\<lambda>_ _ _. None),
     wbx_setting_str = (\<lambda>name _. if name = ''port3'' then Some ''dualshock3'' else None),
     wbx_setting_bool = (\<lambda>_ v. v), wbx_file = (\<lambda>_. None), cpu_supports_v3 = True\<rparr>"

definition ready_emulator :: "(nat, unit, unit) emulator" where
  "ready_emulator = quiet_emulator\<lparr>em_found := (\<lambda>_. Some 0)\<rparr>"

definition first_session :: session where
  "first_session = \<lparr>se_boot = first_boot\<lparr>bo_settings := two_settings\<lparr>s_options := []\<rparr>\<rparr>, se_input = no_input, g_loadError = []\<rparr>"

definition machine_files :: "memfs option" where
  "machine_files = memfs_put ''config/dev_flash/sys/external/liblv2.sprx'' []
     (memfs_mkdirs ''config/Icons/ui'' (memfs_mkdirs ''cache'' (memfs_mkdirs ''config'' (memfs_install 0))))"

definition game_grafts :: bool where
  "game_grafts = (case machine_files of None \<Rightarrow> False | Some f \<Rightarrow> fst (memfs_graft ''game/a'' ''a'' (Some 0) f))"

lemma game_grafts: "game_grafts"
  by code_simp

lemma pin_keeps: "s_options (pin ps s) = s_options s" "s_precompile_count (pin ps s) = s_precompile_count s"
  by (induction ps arbitrary: s) (auto simp: pin_def set_node_def)

lemma nodes_keep:
  "s_options (set_node n v s) = s_options s" "s_precompile_count (set_node n v s) = s_precompile_count s"
  "s_options (snd (node_from_string parse n x s)) = s_options s"
  "s_precompile_count (snd (node_from_string parse n x s)) = s_precompile_count s"
  "s_options (decoders h s) = s_options s" "s_precompile_count (decoders h s) = s_precompile_count s"
  by (simp_all add: decoders_def Let_def node_from_string_def set_node_def split: prod.split)

lemma renderer_keeps:
  "s_options (choose_renderer h s) = s_options s" "s_precompile_count (choose_renderer h s) = s_precompile_count s"
  by (simp_all add: choose_renderer_def Let_def pin_keeps nodes_keep)

lemma pinned_keeps:
  "s_options (pin_configuration parse h s) = s_options s"
  "s_precompile_count (pin_configuration parse h s) = s_precompile_count s"
  unfolding pin_configuration_def Let_def pin_keeps nodes_keep renderer_keeps by (rule refl)+

lemma ready_starts:
  assumes "g_savedata_zip (bo_inst b) = []" "g_packages (bo_inst b) = []" "g_raps (bo_inst b) = []"
    "s_options (bo_settings b) = []" "s_precompile_count (bo_settings b) = 0"
  shows "\<exists>b'. driver_init ready_emulator 0 ''a'' None None b = Some (Running, b')"
proof -
  obtain f f' where f: "machine_files = Some f" and g: "memfs_graft ''game/a'' ''a'' (Some 0) f = (True, f')"
    using game_grafts by (auto simp: game_grafts_def split: option.splits) (metis prod.collapse)
  obtain b1 where b1: "boot_files ready_emulator 0 False b = Some (True, b1)" "in_fs (bo_inst b1) = f"
    "g_savedata_zip (bo_inst b1) = []" "g_packages (bo_inst b1) = []" "g_raps (bo_inst b1) = []" "bo_settings b1 = bo_settings b"
    using f assms by (simp add: boot_files_def ready_emulator_def quiet_emulator_def seed_savedata_def machine_files_def upd_fs_def)
  obtain b2 where b2: "boot_game ready_emulator ''a'' None b1 = Some (True, b2)" "bo_is_pkg b2 = False"
    "g_packages (bo_inst b2) = []" "g_raps (bo_inst b2) = []" "bo_settings b2 = bo_settings b" "bo_game b2 = boot_root @ ''game/a''"
    using b1 g by (simp add: boot_game_def boot_plain_def boot_key_def boot_then_def base_name_def ends_with_def
        lower_char_def ready_emulator_def Let_def upd_fs_def)
  let ?b3 = "b2\<lparr>bo_settings := pin_configuration (em_parse ready_emulator) (em_host ready_emulator) (bo_settings b2)\<rparr>"
  have b3: "boot_packages ready_emulator False ?b3 = Some (True, ?b3)"
    using b2 assms(4) by (simp add: boot_packages_def on_inst_def install_raps_def install_packages_def boot_then_def
        apply_options_def pinned_keeps)
  have m: "fst (boot_machine ready_emulator None ?b3) = Running"
    using b2 assms(5) by (simp add: boot_machine_def ready_emulator_def quiet_emulator_def eboot_alone_def upper_char_def
        base_name_def boot_root_def pinned_keeps upd_fs_def Let_def)
  show ?thesis
    unfolding driver_init_def Let_def boot_then_def boot_firmware_def
    using b1(1) b2(1) b3 m by (auto simp: prod_eq_iff)
qed

lemma no_port_option: "option_name i \<noteq> Some ''port3''"
proof -
  have n: "''port3'' \<notin> set translated" "''port3'' \<notin> fst ` set option_nodes"
    by (simp_all add: translated_def option_nodes_def)
  have "x \<in> set translated \<union> fst ` set option_nodes" if "option_name i = Some x" for x
    using that nth_mem[of "nat i" translated] nth_mem[of "nat (i - int (length translated))" option_nodes]
    by (auto simp: option_name_def Let_def image_iff split: if_splits)
  then show ?thesis using n by blast
qed

lemma fold_idle: "(\<And>i s. i \<in> set is \<Longrightarrow> f i s = s) \<Longrightarrow> fold f is s = s"
  by (induction "is" arbitrary: s) auto

theorem controls_reach_their_pad_witness:
  "\<exists>s'. wbx_Init one_project ready_emulator 0 first_session = Some (1, s') \<and> IsButtonActive 44 (se_input s')
     \<and> (\<forall>p. m_player_id p = 2 \<longrightarrow> fst (bindPadToDevice p (se_input s'))
          \<and> (\<exists>q. m_pads (process_pads (SetButton 44 1 (snd (bindPadToDevice p (se_input s'))))) ! 2 = Some q
               \<and> b_code (m_buttons q ! 10) = (DIGITAL2, CROSS) \<and> b_pressed (m_buttons q ! 10)))"
proof -
  have f: "find_game one_project = ''a''" "init_firmware one_project = None" "init_dkey one_project = None"
    by (simp_all add: find_game_def init_firmware_def init_dkey_def one_project_def)
  have o: "init_options one_project s = s" for s
    unfolding init_options_def using no_port_option
    by (intro fold_idle) (auto simp: one_project_def split: option.split)
  have c: "char_of (51 :: nat) = CHR ''3''" by code_simp
  have d: "port_device one_project 2 \<noteq> ''none''"
    by (simp add: c port_device_def setting_or_def port_key_def one_project_def)
  obtain s' where s: "wbx_Init one_project ready_emulator 0 first_session = Some (1, s')"
  proof -
    let ?w = one_project
    have w: "wbx_slot_first ?w ''savedata'' n = None" "wbx_slot_count ?w slot = 0" "cpu_supports_v3 ?w"
      "wbx_setting_bool ?w name v = v" "name \<noteq> ''port3'' \<Longrightarrow> wbx_setting_str ?w name n = None" for n slot name v
      by (simp_all add: one_project_def)
    have h: "vulkan_bridge_present (em_host ready_emulator) = None" by (simp add: ready_emulator_def quiet_emulator_def)
    have "\<exists>s3. wbx_Init ?w ready_emulator 0 first_session = init_machine ?w ready_emulator 0 s3
        \<and> g_savedata_zip (bo_inst (se_boot s3)) = [] \<and> g_packages (bo_inst (se_boot s3)) = [] \<and> g_raps (bo_inst (se_boot s3)) = []
        \<and> s_options (bo_settings (se_boot s3)) = [] \<and> s_precompile_count (bo_settings (se_boot s3)) = 0"
      by (simp add: wbx_Init_whole Let_def init_decoders_def w h o renderer_refusal_def bridge_def on_boot_def on_settings_def
          init_slots_def slot_files_def set_savedata_def set_renderer_def set_spu_decoder_def set_ppu_decoder_def
          set_read_color_buffers_def set_write_color_buffers_def setting_or_def first_session_def first_boot_def two_settings_def)
        (intro exI conjI, rule refl, simp_all)
    then obtain s3 where s3: "wbx_Init ?w ready_emulator 0 first_session = init_machine ?w ready_emulator 0 s3"
      and b: "g_savedata_zip (bo_inst (se_boot s3)) = []" "g_packages (bo_inst (se_boot s3)) = []" "g_raps (bo_inst (se_boot s3)) = []"
        "s_options (bo_settings (se_boot s3)) = []" "s_precompile_count (bo_settings (se_boot s3)) = 0"
      by blast
    from ready_starts[OF b] obtain b' where "driver_init ready_emulator 0 ''a'' None None (se_boot s3) = Some (Running, b')" by blast
    then show ?thesis using that s3 by (simp add: init_machine_def f is_iso_name_def)
  qed
  have ok: "input_ok (se_input first_session)" by (simp add: first_session_def no_input_ok)
  have P: "IsButtonActive 44 (se_input s') \<and> fst (bindPadToDevice p (se_input s'))
      \<and> (\<exists>q. m_pads (process_pads (SetButton 44 1 (snd (bindPadToDevice p (se_input s'))))) ! 2 = Some q
           \<and> (\<forall>k < 17. b_code (m_buttons q ! k) = g_button_codes ! k
                \<and> b_pressed (m_buttons q ! k) = (if k = 10 then (1 :: int) \<noteq> 0 else g_button (se_input first_session) ! 2 ! k)))"
    if "m_player_id p = 2" for p
    using controls_reach_their_pad[OF s ok, of 2 10 p 1] d that by simp
  have c: "g_button_codes ! 10 = (DIGITAL2, CROSS)" by (simp add: g_button_codes_def)
  obtain p0 :: pad where p0: "m_player_id p0 = 2" using pad.select_convs(1) by metis
  have "fst (bindPadToDevice p (se_input s'))
      \<and> (\<exists>q. m_pads (process_pads (SetButton 44 1 (snd (bindPadToDevice p (se_input s'))))) ! 2 = Some q
           \<and> b_code (m_buttons q ! 10) = (DIGITAL2, CROSS) \<and> b_pressed (m_buttons q ! 10))"
    if r: "m_player_id p = 2" for p
  proof -
    obtain q where q: "m_pads (process_pads (SetButton 44 1 (snd (bindPadToDevice p (se_input s'))))) ! 2 = Some q"
      "\<forall>k < 17. b_code (m_buttons q ! k) = g_button_codes ! k
         \<and> b_pressed (m_buttons q ! k) = (if k = 10 then (1 :: int) \<noteq> 0 else g_button (se_input first_session) ! 2 ! k)"
      using P[OF r] by blast
    then have "b_code (m_buttons q ! 10) = (DIGITAL2, CROSS)" "b_pressed (m_buttons q ! 10)"
      using c by (auto dest: spec[of _ 10])
    then show ?thesis using P[OF r] q(1) by blast
  qed
  then show ?thesis using s P[OF p0] by blast
qed

text \<open>A disc without the firmware.\<close>

definition iso_project :: wbx where
  "iso_project = one_project\<lparr>wbx_slot_first := (\<lambda>slot _. if slot = ''game'' then Some ''x.iso'' else None)\<rparr>"

theorem refused_session_says_why_witness:
  "\<exists>s'. wbx_Init iso_project ready_emulator 0 first_session = Some (0, s') \<and> g_loadError s' \<noteq> []"
proof -
  let ?w = iso_project
  have w: "wbx_slot_first ?w slot n = (if slot = ''game'' then Some ''x.iso'' else None)" "wbx_slot_count ?w slot = 0"
    "cpu_supports_v3 ?w" "name \<noteq> ''port3'' \<Longrightarrow> wbx_setting_str ?w name n = None" "wbx_file ?w name = None" for n slot name
    by (simp_all add: one_project_def iso_project_def)
  have h: "vulkan_bridge_present (em_host ready_emulator) = None" by (simp add: ready_emulator_def quiet_emulator_def)
  have m: "fst (the (init_machine ?w ready_emulator 0 s)) = 0" "init_machine ?w ready_emulator 0 s \<noteq> None" for s
    by (simp_all add: init_machine_def init_firmware_def is_iso_name_def find_game_def w refuse_def)
  have "\<exists>s3. wbx_Init ?w ready_emulator 0 first_session = init_machine ?w ready_emulator 0 s3"
    by (simp add: wbx_Init_whole Let_def init_decoders_def w h renderer_refusal_def bridge_def on_boot_def on_settings_def
        init_slots_def slot_files_def set_savedata_def set_renderer_def set_spu_decoder_def set_ppu_decoder_def setting_or_def)
      (intro exI, rule refl)
  then obtain s3 where "wbx_Init ?w ready_emulator 0 first_session = init_machine ?w ready_emulator 0 s3" by blast
  then obtain s' where s: "wbx_Init ?w ready_emulator 0 first_session = Some (0, s')" using m[of s3] by fastforce
  have "init_firmware ?w = None" by (simp add: init_firmware_def w)
  then have "\<not> silent_firmware ready_emulator 0 p (init_firmware ?w) k b" for p k b by (simp add: silent_firmware_def)
  then show ?thesis using refused_session_says_why[OF s] s by auto
qed

end
