(* ===== verification/DriverFault.thy ===== *)
theory DriverFault
  imports WindowsProps MemfsTree
begin

text \<open>
  A fault on a page of the guest (\<open>chimera_rpcs3_on_fault\<close> of \<open>waterbox/rpcs3-driver.cpp\<close>): declined, served by a page
  window, or handed to the renderer's handler, which may fault again. The renderer and the emulator's thread are
  parameters. With it the figures of the filesystem a diagnosis asks for.
\<close>

section \<open>State\<close>

record fault =
  fa_windows :: windows
  g_faults_served :: u64
  t_in_renderer_handler :: int
  s_declines :: nat
  said :: "(u64 \<times> bool \<times> string) list"

text \<open>What the emulator says when the fault happens: the renderer's handler, if it has one, which addresses are mapped,
  whether there is a renderer and this is its thread, whether it is in its cache, and what giving the thread's lock
  away and taking it back does.\<close>

record 'm renderer =
  re_base :: u64
  re_handler :: "(u32 \<Rightarrow> bool \<Rightarrow> fault \<times> 'm \<Rightarrow> bool \<times> fault \<times> 'm) option"
  re_mapped :: "u32 \<Rightarrow> 'm \<Rightarrow> bool"
  re_present :: "'m \<Rightarrow> bool"
  re_current :: "'m \<Rightarrow> bool"
  re_busy :: "'m \<Rightarrow> bool"
  re_has_cpu :: "'m \<Rightarrow> bool"
  re_unlock :: "'m \<Rightarrow> bool \<times> 'm"
  re_relock :: "'m \<Rightarrow> 'm"

text \<open>The first eight declined faults are said.\<close>

definition decline :: "u64 \<Rightarrow> bool \<Rightarrow> string \<Rightarrow> fault \<Rightarrow> fault" where
  "decline addr is_write why f =
     f\<lparr>s_declines := s_declines f + 1,
       said := (if s_declines f < 8 then said f @ [(addr, is_write, why)] else said f)\<rparr>"

definition inside_cache :: "'m renderer \<Rightarrow> u32 \<Rightarrow> fault \<times> 'm \<Rightarrow> bool" where
  "inside_cache r vaddr s \<longleftrightarrow>
     re_present r (snd s) \<and> (re_current r (snd s) \<or> t_in_renderer_handler (fst s) > 0) \<and> re_busy r (snd s)
     \<and> believed (fa_windows (fst s)) (unat (vaddr div 4096)) \<noteq> Rw"

text \<open>The renderer's handler, with the thread's lock given away around it.\<close>

definition ask_renderer ::
  "(u32 \<Rightarrow> bool \<Rightarrow> fault \<times> 'm \<Rightarrow> bool \<times> fault \<times> 'm) \<Rightarrow> 'm renderer \<Rightarrow> u64 \<Rightarrow> u32 \<Rightarrow> bool \<Rightarrow> fault \<times> 'm \<Rightarrow> bool \<times> fault \<times> 'm" where
  "ask_renderer handler r addr vaddr is_write s =
     (let (changed, m) = (if re_has_cpu r (snd s) then re_unlock r (snd s) else (False, snd s));
          (handled, f1, m1) = handler vaddr is_write ((fst s)\<lparr>t_in_renderer_handler := t_in_renderer_handler (fst s) + 1\<rparr>, m);
          f2 = f1\<lparr>t_in_renderer_handler := t_in_renderer_handler f1 - 1\<rparr>;
          m2 = (if changed then re_relock r m1 else m1)
      in if handled then (True, f2\<lparr>g_faults_served := g_faults_served f2 + 1\<rparr>, m2)
         else (False, decline addr is_write ''the renderer's caches do not own that page'' f2, m2))"

definition on_fault :: "'m renderer \<Rightarrow> u64 \<Rightarrow> bool \<Rightarrow> fault \<times> 'm \<Rightarrow> bool \<times> fault \<times> 'm" where
  "on_fault r addr is_write s =
     (let no = (\<lambda>why. (False, decline addr is_write why (fst s), snd s))
      in if addr < re_base r \<or> addr - re_base r \<ge> 0x100000000 then no ''outside the guest's 4 GiB view''
         else let vaddr = ucast (addr - re_base r) :: u32
           in case re_handler r of
                None \<Rightarrow> no ''the renderer has installed no handler''
              | Some handler \<Rightarrow>
                  if \<not> re_mapped r vaddr (snd s) then no ''the machine says that address is not mapped''
                  else if inside_cache r vaddr s
                  then (True, (fst s)\<lparr>fa_windows := open_window (unat (vaddr div 4096)) (fa_windows (fst s))\<rparr>, snd s)
                  else ask_renderer handler r addr vaddr is_write s)"

definition fault_count :: "fault \<Rightarrow> u64" where
  "fault_count f = g_faults_served f"

section \<open>The filesystem's figures\<close>

definition memfs_stat :: "int \<Rightarrow> memfs \<Rightarrow> u64 option" where
  "memfs_stat which s =
     (let st = memfs_mirror_report s in
      if which = 0 then map_option of_nat (memfs_bytes s)
      else if which = 1 then Some (ms_mirrors st)
      else if which = 2 then Some (ms_held st)
      else if which = 3 then Some (ms_copied st)
      else if which = 4 then Some (ms_decrypted st)
      else Some 0)"

section \<open>What a fault leaves\<close>

lemma vaddr_page: "unat ((v :: u32) div 4096) < PAGES"
proof -
  have "unat v < 2 ^ 32" using unsigned_less[where w = v] by simp
  then show ?thesis by (simp add: unat_div PAGES_def less_mult_imp_div_less)
qed

text \<open>The access the renderer makes inside its own cache is served by opening exactly the page it needs: it is accessible
  when the access is tried again, the beliefs are what they were, and the renderer, which holds the lock the handler
  would take, is not asked.\<close>

lemma cache_fault_opens_the_page:
  assumes "win_ok (fa_windows f)" "re_handler r = Some handler" "re_base r \<le> addr" "addr - re_base r < 0x100000000"
    "re_mapped r (ucast (addr - re_base r)) m" "inside_cache r (ucast (addr - re_base r)) (f, m)"
    "on_fault r addr is_write (f, m) = (ok, f', m')"
  defines "page \<equiv> unat ((ucast (addr - re_base r) :: u32) div 4096)"
  shows "ok \<and> m' = m \<and> win_ok (fa_windows f') \<and> page_prot (fa_windows f') page = Rw
    \<and> s_page_belief (fa_windows f') = s_page_belief (fa_windows f) \<and> said f' = said f"
proof -
  have f': "ok" "m' = m" "f' = f\<lparr>fa_windows := open_window page (fa_windows f)\<rparr>"
  proof -
    have c: "\<not> (addr < re_base r \<or> 0x100000000 \<le> addr - re_base r)" using assms(3,4) by (simp add: not_le not_less)
    have "on_fault r addr is_write (f, m) = (True, f\<lparr>fa_windows := open_window page (fa_windows f)\<rparr>, m)"
      unfolding on_fault_def Let_def if_not_P[OF c] assms(2) using assms(5,6) by (simp add: page_def)
    then show "ok" "m' = m" "f' = f\<lparr>fa_windows := open_window page (fa_windows f)\<rparr>" using assms(7) by simp_all
  qed
  note W = open_window_spec[OF assms(1), of page, OF vaddr_page[of "ucast (addr - re_base r)", folded page_def]]
  have "page_prot (open_window page (fa_windows f)) page = Rw" using W(1,3) by (simp add: win_ok_def)
  then show ?thesis using f' W(1,2) by simp
qed

text \<open>A declined fault says why, eight times at most, and changes nothing else.\<close>

lemma decline_only_says: "fa_windows (decline a w why f) = fa_windows f" "g_faults_served (decline a w why f) = g_faults_served f"
  "t_in_renderer_handler (decline a w why f) = t_in_renderer_handler f"
  by (simp_all add: decline_def)

lemma says_at_most_eight: "length (said f) = min 8 (s_declines f) \<Longrightarrow> length (said (decline a w why f)) = min 8 (s_declines (decline a w why f))"
  by (auto simp: decline_def)

text \<open>A handler that leaves the count of handlers as it found it, nested faults included, leaves it so after the fault.\<close>

lemma handler_count_balances:
  assumes "\<And>h v w s ok f m. re_handler r = Some h \<Longrightarrow> h v w s = (ok, f, m) \<Longrightarrow> t_in_renderer_handler f = t_in_renderer_handler (fst s)"
    "on_fault r addr is_write s = (ok, f', m')"
  shows "t_in_renderer_handler f' = t_in_renderer_handler (fst s)"
  using assms(2)
  by (auto simp: on_fault_def ask_renderer_def Let_def decline_only_says dest!: assms(1) split: if_splits option.splits prod.splits)

end
