(* ===== verification/DriverLoop.thy ===== *)
theory DriverLoop
  imports DriverFrame
begin

text \<open>
  The driver's loops around the machine (\<open>waterbox/rpcs3-driver.cpp\<close>): a frame, shutting the machine down, and taking
  down one that refused to boot. The emulator and its threads are the parameter \<open>world\<close>: what a wait, a yield
  and a stop do to the driver's queue and to the machine, which holds the pads and the mixed sound.
\<close>

section \<open>State\<close>

record machine_io =
  io_input :: input_state
  io_audio :: audio

type_synonym ('t, 'a) io_state = "('t, 'a machine_io_scheme) main_state"

record ('t, 'a) world =
  w_exec :: "'t \<Rightarrow> 'a machine_io_scheme \<Rightarrow> ('t \<times> bool) list \<times> 'a machine_io_scheme"
  w_now :: "('t, 'a) io_state \<Rightarrow> u64"
  w_wait :: "u32 \<Rightarrow> u64 \<Rightarrow> ('t, 'a) io_state \<Rightarrow> ('t, 'a) io_state"
  w_yield :: "('t, 'a) io_state \<Rightarrow> ('t, 'a) io_state"
  w_stopped :: "bool \<Rightarrow> ('t, 'a) io_state \<Rightarrow> bool"
  w_kill :: "('t, 'a) io_state \<Rightarrow> ('t, 'a) io_state"
  w_clean_up :: "('t, 'a) io_state \<Rightarrow> ('t, 'a) io_state"
  w_join_precompile :: "('t, 'a) io_state \<Rightarrow> ('t, 'a) io_state"
  w_frame_begins :: "('t, 'a) io_state \<Rightarrow> ('t, 'a) io_state"

record ('t, 'a) driver =
  g_booted :: bool
  g_frame_index :: u64
  g_frame_base_ns :: u64
  g_main :: "('t, 'a) io_state"

section \<open>A frame\<close>

text \<open>Frames end on the grid of the vblank thread, in whole microseconds.\<close>

definition frame_end :: "u64 \<Rightarrow> u64 \<Rightarrow> u64" where
  "frame_end base index = base + (index * 1000000 div 60) * 1000"

partial_function (option) frame_loop :: "('t, 'a) world \<Rightarrow> u64 \<Rightarrow> ('t, 'a) io_state \<Rightarrow> ('t, 'a) io_state option" where
  "frame_loop w fin s =
     (if w_now w s < fin
      then (case run_main_queue (w_exec w) s of
              None \<Rightarrow> None
            | Some s1 \<Rightarrow>
                if w_now w s1 \<ge> fin then Some s1
                else frame_loop w fin (w_wait w (g_main_word s) (fin - w_now w s1) s1))
      else Some s)"

definition driver_frame :: "('t, 'a) world \<Rightarrow> ('t, 'a) driver \<Rightarrow> ('t, 'a) driver option" where
  "driver_frame w d =
     (if \<not> g_booted d then Some d
      else
        let s = w_frame_begins w (g_main d);
            index = g_frame_index d + 1;
            s1 = s\<lparr>machine := (machine s)\<lparr>io_input := (io_input (machine s))\<lparr>g_input_read := False\<rparr>\<rparr>\<rparr>
        in (case frame_loop w (frame_end (g_frame_base_ns d) index) s1 of
              None \<Rightarrow> None
            | Some s2 \<Rightarrow>
                map_option (\<lambda>s3. d\<lparr>g_frame_index := index,
                                  g_main := s3\<lparr>machine := (machine s3)\<lparr>io_audio := frame_audio (io_audio (machine s3))\<rparr>\<rparr>\<rparr>)
                  (run_main_queue (w_exec w) s2)))"

section \<open>The end of a machine\<close>

partial_function (option) pump_until_stopped :: "('t, 'a) world \<Rightarrow> u64 \<Rightarrow> ('t, 'a) io_state \<Rightarrow> ('t, 'a) io_state option" where
  "pump_until_stopped w deadline s =
     (if \<not> w_stopped w True s \<and> w_now w s < deadline
      then (case run_main_queue (w_exec w) s of
              None \<Rightarrow> None
            | Some s1 \<Rightarrow> pump_until_stopped w deadline (w_yield w s1))
      else run_main_queue (w_exec w) s)"

definition stop_room :: u64 where "stop_room = 30 * 1000000000"

definition discard_refused_machine :: "('t, 'a) world \<Rightarrow> ('t, 'a) io_state \<Rightarrow> ('t, 'a) io_state option" where
  "discard_refused_machine w s =
     map_option (w_clean_up w)
       (if w_stopped w False s then Some s
        else let s1 = w_kill w s in pump_until_stopped w (w_now w s1 + stop_room) s1)"

text \<open>The flag says that the emulator did not stop in time, which is only logged.\<close>

definition driver_shutdown :: "('t, 'a) world \<Rightarrow> ('t, 'a) driver \<Rightarrow> (bool \<times> ('t, 'a) driver) option" where
  "driver_shutdown w d =
     (if \<not> g_booted d then Some (False, d)
      else
        let s1 = w_kill w (w_join_precompile w (g_main d)) in
        map_option (\<lambda>s2. (\<not> w_stopped w True s2, d\<lparr>g_booted := False, g_main := s2\<rparr>))
          (pump_until_stopped w (w_now w s1 + stop_room) s1))"

section \<open>The grid\<close>

lemma unat_frame_end:
  assumes "unat base + unat index * 1000000000 < 2 ^ 64"
  shows "unat (frame_end base index) = unat base + (unat index * 1000000 div 60) * 1000"
proof -
  have i: "unat index * 1000000 < 2 ^ 64" using assms by simp
  have m: "unat (index * 1000000) = unat index * 1000000"
    using i by (subst unat_mult_lem[THEN iffD1]) simp_all
  have d: "unat (index * 1000000 div 60) = unat index * 1000000 div 60" by (simp add: unat_div m)
  have le: "(unat index * 1000000 div 60) * 1000 \<le> unat index * 1000000000"
    by (rule order_trans[OF mult_le_mono1[OF div_le_dividend]]) simp
  have k: "unat (index * 1000000 div 60 * 1000) = (unat index * 1000000 div 60) * 1000"
    using le assms by (subst unat_mult_lem[THEN iffD1]) (simp_all add: d)
  show ?thesis unfolding frame_end_def
    using le assms by (subst unat_add_lem[THEN iffD1]) (simp_all add: k)
qed

text \<open>Sixty frames are a second, whatever the rounding, and no frame is longer than the next microsecond.\<close>

lemma sixty_frames_a_second:
  assumes "unat base + (unat index + 60) * 1000000000 < 2 ^ 64"
  shows "frame_end base (index + 60) = frame_end base index + 1000000000"
proof -
  have i: "unat (index + 60) = unat index + 60"
    using assms by (subst unat_add_lem[THEN iffD1]) simp_all
  have "unat (frame_end base (index + 60)) = unat (frame_end base index) + 1000000000"
  proof -
    have "(unat index + 60) * 1000000 div 60 = unat index * 1000000 div 60 + 1000000"
      by (simp add: add_mult_distrib div_plus_div_distrib_dvd_right)
    then show ?thesis
      using unat_frame_end[of base "index + 60"] unat_frame_end[of base index] assms by (simp add: i add_mult_distrib)
  qed
  moreover have "unat (frame_end base index) + 1000000000 < 2 ^ 64"
  proof -
    have "unat (frame_end base (index + 60)) < 2 ^ 64" by (rule order_less_le_trans[OF unsigned_less]) simp
    then show ?thesis using calculation by simp
  qed
  ultimately have "unat (frame_end base (index + 60)) = unat (frame_end base index + 1000000000)"
    by (simp add: unat_word_ariths)
  then show ?thesis by (simp only: word_unat_eq_iff)
qed

section \<open>The loops end\<close>

text \<open>What the loops need of the machine up to a moment \<open>lim\<close>: its tasks come to an end, and a wait or a yield takes
  time.\<close>

definition time_passes :: "('t, 'a) world \<Rightarrow> u64 \<Rightarrow> bool" where
  "time_passes w lim \<longleftrightarrow>
     (\<forall>s. \<exists>s1. run_main_queue (w_exec w) s = Some s1 \<and> w_now w s \<le> w_now w s1)
     \<and> (\<forall>seen room s. w_now w s < lim \<longrightarrow> 0 < room \<longrightarrow> w_now w s < w_now w (w_wait w seen room s))
     \<and> (\<forall>s. w_now w s \<le> w_now w (w_yield w s) \<and> (w_now w s < lim \<longrightarrow> w_now w s < w_now w (w_yield w s)))"

text \<open>Such a machine: tasks that do nothing, and a clock that a wait and a yield advance by one.\<close>

definition tick :: "('t, u64) io_state \<Rightarrow> ('t, u64) io_state" where
  "tick s = s\<lparr>machine := (machine s)\<lparr>machine_io.more := (if machine_io.more (machine s) = -1 then -1 else machine_io.more (machine s) + 1)\<rparr>\<rparr>"

definition tick_world :: "('t, u64) world" where
  "tick_world = \<lparr>w_exec = (\<lambda>t m. ([], m)), w_now = (\<lambda>s. machine_io.more (machine s)), w_wait = (\<lambda>_ _. tick), w_yield = tick,
     w_stopped = (\<lambda>_ _. True), w_kill = id, w_clean_up = id, w_join_precompile = id, w_frame_begins = id\<rparr>"

lemma plus_one_grows: "(x :: u64) \<noteq> -1 \<Longrightarrow> x < x + 1"
proof -
  assume "x \<noteq> -1"
  moreover have "unat (-1 :: u64) = 2 ^ 64 - 1" by (simp add: unsigned_minus_1_eq_mask mask_eq_exp_minus_1)
  ultimately have "unat x \<noteq> 2 ^ 64 - 1" by (metis word_unat_eq_iff)
  moreover have "unat x < 2 ^ 64" by (rule order_less_le_trans[OF unsigned_less]) simp
  ultimately have "unat x + 1 < 2 ^ 64" by simp
  then show "x < x + 1" by (simp add: word_less_nat_alt unat_word_ariths)
qed

lemma tick_time_passes: "time_passes (tick_world :: ('t, u64) world) lim"
proof -
  have f: "fold (\<lambda>(t, w) m. m) q m = m" for q :: "('t \<times> bool) list" and m :: "u64 machine_io_scheme"
    by (induction q) auto
  have q: "\<exists>s1. run_main_queue (w_exec tick_world) s = Some s1 \<and> w_now tick_world s \<le> w_now tick_world s1"
    for s :: "('t, u64) io_state"
    using run_main_queue_order[of s "\<lambda>t m. ([], m)"] by (simp add: tick_world_def f)
  have t: "w_now tick_world s \<le> w_now tick_world (tick s)"
    "w_now tick_world s < lim \<longrightarrow> w_now tick_world s < w_now tick_world (tick s)" for s :: "('t, u64) io_state"
  proof -
    have "\<not> (-1 :: u64) < lim" by (simp add: not_less)
    then show "w_now tick_world s \<le> w_now tick_world (tick s)"
      "w_now tick_world s < lim \<longrightarrow> w_now tick_world s < w_now tick_world (tick s)"
      using plus_one_grows[of "machine_io.more (machine s)"] by (auto simp: tick_world_def tick_def)
  qed
  have w: "w_wait tick_world seen room = (tick :: ('t, u64) io_state \<Rightarrow> _)" "w_yield tick_world = (tick :: ('t, u64) io_state \<Rightarrow> _)"
    for seen room by (simp_all add: tick_world_def)
  show ?thesis unfolding time_passes_def w using q t by blast
qed

lemma frame_loop_ends:
  assumes "time_passes w lim" "fin \<le> lim"
  shows "\<exists>s'. frame_loop w fin s = Some s' \<and> fin \<le> w_now w s'"
proof (induction "unat fin - unat (w_now w s)" arbitrary: s rule: less_induct)
  case less
  show ?case
  proof (cases "w_now w s < fin")
    case True
    obtain s1 where s1: "run_main_queue (w_exec w) s = Some s1" "w_now w s \<le> w_now w s1"
      using assms unfolding time_passes_def by blast
    show ?thesis
    proof (cases "w_now w s1 \<ge> fin")
      case late: True
      then show ?thesis using True s1 by (subst frame_loop.simps) simp
    next
      case False
      let ?t = "w_wait w (g_main_word s) (fin - w_now w s1) s1"
      have "0 < fin - w_now w s1" "w_now w s1 < lim" using False assms(2) by (simp_all add: word_gt_0)
      then have t: "w_now w s1 < w_now w ?t" using assms(1) unfolding time_passes_def by blast
      have "unat fin - unat (w_now w ?t) < unat fin - unat (w_now w s)"
        by (rule diff_less_mono2) (use t s1(2) True in \<open>simp_all add: word_less_nat_alt word_le_nat_alt\<close>)
      from less[OF this] show ?thesis using True False s1 by (subst frame_loop.simps) simp
    qed
  next
    case False
    then show ?thesis by (subst frame_loop.simps) simp
  qed
qed

lemma pump_ends:
  assumes "time_passes w lim" "deadline \<le> lim"
  shows "\<exists>s'. pump_until_stopped w deadline s = Some s'"
proof (induction "unat deadline - unat (w_now w s)" arbitrary: s rule: less_induct)
  case less
  obtain s1 where s1: "run_main_queue (w_exec w) s = Some s1" "w_now w s \<le> w_now w s1"
    using assms unfolding time_passes_def by blast
  consider (go) "\<not> w_stopped w True s" "w_now w s < deadline" "w_now w s1 < deadline"
    | (late) "\<not> w_stopped w True s" "w_now w s < deadline" "deadline \<le> w_now w s1"
    | (stop) "\<not> (\<not> w_stopped w True s \<and> w_now w s < deadline)" by force
  then show ?case
  proof cases
    case go
    have "w_now w s1 < w_now w (w_yield w s1)" using assms go(3) unfolding time_passes_def by (meson order_less_le_trans)
    then have "unat deadline - unat (w_now w (w_yield w s1)) < unat deadline - unat (w_now w s)"
      by (intro diff_less_mono2) (use s1(2) go in \<open>simp_all add: word_less_nat_alt word_le_nat_alt\<close>)
    from less[OF this] show ?thesis using go s1(1) by (subst pump_until_stopped.simps) simp
  next
    case late
    have "w_now w s1 \<le> w_now w (w_yield w s1)" using assms(1) unfolding time_passes_def by blast
    then have "\<not> w_now w (w_yield w s1) < deadline" using late(3) by simp
    moreover obtain s2 where "run_main_queue (w_exec w) (w_yield w s1) = Some s2"
      using assms(1) unfolding time_passes_def by blast
    ultimately have "pump_until_stopped w deadline (w_yield w s1) = Some s2" by (subst pump_until_stopped.simps) simp
    then show ?thesis using late(1,2) s1(1) by (subst pump_until_stopped.simps) simp
  next
    case stop
    then have "pump_until_stopped w deadline s = Some s1" using s1(1) by (subst pump_until_stopped.simps) auto
    then show ?thesis by blast
  qed
qed

text \<open>A frame of a booted machine ends, one frame further on, with a whole frame of sound; and a shutdown ends.\<close>

lemma driver_frame_ends:
  assumes "time_passes w lim" "frame_end (g_frame_base_ns d) (g_frame_index d + 1) \<le> lim" "g_booted d"
  shows "\<exists>d'. driver_frame w d = Some d' \<and> g_frame_index d' = g_frame_index d + 1
    \<and> length (g_audio_frame (io_audio (machine (g_main d')))) = 1600"
proof -
  let ?s = "w_frame_begins w (g_main d)"
  let ?s1 = "?s\<lparr>machine := (machine ?s)\<lparr>io_input := (io_input (machine ?s))\<lparr>g_input_read := False\<rparr>\<rparr>\<rparr>"
  obtain s2 where s2: "frame_loop w (frame_end (g_frame_base_ns d) (g_frame_index d + 1)) ?s1 = Some s2"
    using frame_loop_ends[OF assms(1,2)] by blast
  obtain s3 where s3: "run_main_queue (w_exec w) s2 = Some s3" using assms(1) unfolding time_passes_def by blast
  have "length (g_audio_frame (frame_audio a)) = 1600" for a
    using frame_audio_parts[of a] by (auto simp: frame_of_def)
  then show ?thesis using assms(3) s2 s3 by (simp add: driver_frame_def Let_def)
qed

lemma driver_shutdown_ends:
  assumes "time_passes w (-1)"
  shows "\<exists>late d'. driver_shutdown w d = Some (late, d') \<and> \<not> g_booted d'"
proof (cases "g_booted d")
  case True
  let ?s = "w_kill w (w_join_precompile w (g_main d))"
  obtain s' where "pump_until_stopped w (w_now w ?s + stop_room) ?s = Some s'"
    using pump_ends[OF assms, of "w_now w ?s + stop_room" ?s] by auto
  then show ?thesis using True by (simp add: driver_shutdown_def Let_def)
qed (simp add: driver_shutdown_def exI[of _ False])

end
