(* ===== verification/CacheHost.thy ===== *)
theory CacheHost
  imports Prelude
begin

text \<open>
  The host's side of the compile cache: \<open>waterbox/cache-host.c\<close>, a directory of files named by the guest. Paths are
  C strings, so what follows a NUL in a name is not part of its path. The host's disk is the map
  \<open>ch_files\<close>; which of its calls succeed is \<open>host_disk\<close>.
\<close>

record host_disk =
  hd_opens :: "string \<Rightarrow> bool"
  hd_creates :: "string \<Rightarrow> bool"
  hd_reads :: "string \<Rightarrow> bool"
  hd_writes :: "string \<Rightarrow> bytes \<Rightarrow> bool"
  hd_renames :: "string \<Rightarrow> string \<Rightarrow> bool"

record cache_host =
  s_dir :: string
  s_fetched :: u64
  s_stored :: u64
  ch_files :: "string \<Rightarrow> bytes option"
  ch_dirs :: "string list"

definition cstr :: "string \<Rightarrow> string" where
  "cstr s = takeWhile (\<lambda>c. c \<noteq> CHR 0x00) s"

section \<open>Directories\<close>

text \<open>The prefixes of a path that end before one of its slashes, from position \<open>from\<close> on.\<close>

definition slash_prefixes :: "nat \<Rightarrow> string \<Rightarrow> string list" where
  "slash_prefixes from p = map (\<lambda>i. take i p) (filter (\<lambda>i. p ! i = CHR ''/'') [from..<length p])"

definition cache_host_init :: "string option \<Rightarrow> cache_host \<Rightarrow> int \<times> cache_host" where
  "cache_host_init dir s =
     (case dir of
        None \<Rightarrow> (-1, s)
      | Some d \<Rightarrow>
          if length d \<ge> 4095 then (-1, s)
          else (0, s\<lparr>s_dir := d, ch_dirs := ch_dirs s @ slash_prefixes 1 d @ [d]\<rparr>))"

definition make_dirs :: "string \<Rightarrow> cache_host \<Rightarrow> cache_host" where
  "make_dirs full s = s\<lparr>ch_dirs := ch_dirs s @ slash_prefixes (length (s_dir s) + 1) full\<rparr>"

section \<open>Names\<close>

text \<open>The loop over the segments of a name: false at a segment that is empty or \<open>..\<close>, true at the end of the string.\<close>

function segments_ok :: "string \<Rightarrow> bool" where
  "segments_ok p =
     (if p = [] then True
      else let seg = takeWhile (\<lambda>c. c \<noteq> CHR ''/'') p in
        if seg = ''..'' \<or> seg = [] then False
        else if CHR ''/'' \<notin> set p then True
        else segments_ok (drop (length seg + 1) p))"
  by auto
termination by (relation "measure length") auto

declare segments_ok.simps [simp del]

definition safe_path :: "cache_host \<Rightarrow> string option \<Rightarrow> string option" where
  "safe_path s name =
     (case name of
        None \<Rightarrow> None
      | Some n \<Rightarrow>
          if n = [] \<or> length n > 1024 \<or> hd n = CHR ''/'' then None
          else if segments_ok (cstr n) then Some (s_dir s @ ''/'' @ cstr n) else None)"

section \<open>The bridge\<close>

text \<open>A fetch says the size of the object, and copies it when there is room for it.\<close>

definition host_fetch :: "host_disk \<Rightarrow> string option \<Rightarrow> nat option \<Rightarrow> cache_host \<Rightarrow> (nat \<times> bytes option) \<times> cache_host" where
  "host_fetch d name room s =
     (case safe_path s name of
        None \<Rightarrow> ((0, None), s)
      | Some full \<Rightarrow>
          (case ch_files s full of
             None \<Rightarrow> ((0, None), s)
           | Some b \<Rightarrow>
               if \<not> hd_opens d full \<or> b = [] then ((0, None), s)
               else (case room of
                       None \<Rightarrow> ((length b, None), s)
                     | Some cap \<Rightarrow>
                         if cap < length b then ((length b, None), s)
                         else if \<not> hd_reads d full then ((0, None), s)
                         else ((length b, Some b), s\<lparr>s_fetched := s_fetched s + 1\<rparr>))))"

definition host_store :: "host_disk \<Rightarrow> string option \<Rightarrow> bytes \<Rightarrow> cache_host \<Rightarrow> bool \<times> cache_host" where
  "host_store d name data s =
     (case safe_path s name of
        None \<Rightarrow> (False, s)
      | Some full \<Rightarrow>
          if data = [] then (False, s)
          else
            let s1 = make_dirs full s; tmp = full @ ''.part'' in
            if \<not> hd_creates d tmp then (False, s1)
            else if \<not> hd_writes d tmp data \<or> \<not> hd_renames d tmp full
            then (False, s1\<lparr>ch_files := (ch_files s1)(tmp := None)\<rparr>)
            else (True, s1\<lparr>ch_files := (ch_files s1)(tmp := None, full := Some data), s_stored := s_stored s1 + 1\<rparr>))"

text \<open>The bridge's other operations are not served here.\<close>

datatype cache_op = CACHE_FETCH "string option" "nat option" | CACHE_STORE "string option" bytes | CACHE_OTHER

definition cache_host_dispatch :: "host_disk \<Rightarrow> cache_op \<Rightarrow> cache_host \<Rightarrow> (nat \<times> bytes option) \<times> cache_host" where
  "cache_host_dispatch d oper s =
     (case oper of
        CACHE_FETCH name room \<Rightarrow> host_fetch d name room s
      | CACHE_STORE name data \<Rightarrow> (case host_store d name data s of (ok, s') \<Rightarrow> ((if ok then 1 else 0, None), s'))
      | CACHE_OTHER \<Rightarrow> ((0, None), s))"

section \<open>Where the files are\<close>

text \<open>The segments between the slashes of a path.\<close>

fun segments :: "string \<Rightarrow> string list" where
  "segments [] = [[]]"
| "segments (c # cs) = (if c = CHR ''/'' then [] # segments cs else (c # hd (segments cs)) # tl (segments cs))"

lemma segments_ne [simp]: "segments p \<noteq> []"
  by (cases p) auto

lemma segments_step:
  "segments p = (let seg = takeWhile (\<lambda>c. c \<noteq> CHR ''/'') p in
     if CHR ''/'' \<in> set p then seg # segments (drop (length seg + 1) p) else [p])"
proof (induction p)
  case (Cons c p)
  show ?case
  proof (cases "c = CHR ''/''")
    case False
    then have "hd (segments p) # tl (segments p) = segments p" by simp
    then show ?thesis using False Cons.IH by (auto simp: Let_def)
  qed simp
qed simp

text \<open>A name that passes has no segment \<open>..\<close>, and no empty one but for a slash at its end.\<close>

lemma segments_ok_iff:
  "segments_ok p \<Longrightarrow> ''..'' \<notin> set (segments p) \<and> (\<forall>q \<in> set (butlast (segments p)). q \<noteq> [])"
proof (induction p rule: segments_ok.induct)
  case (1 p)
  let ?seg = "takeWhile (\<lambda>c. c \<noteq> CHR ''/'') p"
  show ?case
  proof (cases "CHR ''/'' \<in> set p")
    case True
    then have p: "p \<noteq> []" by auto
    have q: "?seg \<noteq> ''..''" "?seg \<noteq> []" "segments_ok (drop (length ?seg + 1) p)"
      using 1(2) True p unfolding segments_ok.simps[of p] Let_def by (auto split: if_splits)
    have s: "segments p = ?seg # segments (drop (length ?seg + 1) p)"
      using True by (subst segments_step) (simp add: Let_def)
    have "''..'' \<notin> set (segments (drop (length ?seg + 1) p)) \<and> (\<forall>q \<in> set (butlast (segments (drop (length ?seg + 1) p))). q \<noteq> [])"
      by (rule 1(1)[OF p refl]) (use q True in auto)
    then show ?thesis unfolding s using q(1,2) by auto
  next
    case False
    have t: "?seg = p" unfolding takeWhile_eq_all_conv using False by blast
    have s: "segments p = [p]" using False by (subst segments_step) (simp add: Let_def)
    have "p \<noteq> ''..''" using 1(2) unfolding segments_ok.simps[of p] Let_def t by (cases "p = []") (simp_all split: if_splits)
    then show ?thesis unfolding s by simp
  qed
qed

lemma safe_path_below:
  assumes "safe_path s name = Some full"
  shows "\<exists>rel. full = s_dir s @ ''/'' @ rel \<and> ''..'' \<notin> set (segments rel) \<and> (\<forall>q \<in> set (butlast (segments rel)). q \<noteq> [])"
  using assms segments_ok_iff by (auto simp: safe_path_def split: option.splits if_splits)

lemma store_then_fetch:
  assumes "host_store d name data s = (True, s')" "safe_path s name = Some full"
    "hd_opens d full" "hd_reads d full" "length data \<le> cap"
  shows "host_fetch d name None s' = ((length data, None), s')"
    "fst (host_fetch d name (Some cap) s') = (length data, Some data)"
  using assms by (auto simp: host_store_def host_fetch_def safe_path_def make_dirs_def Let_def
      split: if_splits option.splits)

lemma store_touches:
  "safe_path s name = Some full \<Longrightarrow> q \<noteq> full \<Longrightarrow> q \<noteq> full @ ''.part''
     \<Longrightarrow> ch_files (snd (host_store d name data s)) q = ch_files s q"
  "safe_path s name = None \<Longrightarrow> snd (host_store d name data s) = s"
  by (auto simp: host_store_def make_dirs_def Let_def split: option.split)

end
