(* ===== verification/DriverCache.thy ===== *)
theory DriverCache
  imports CacheHost MemfsList
begin

text \<open>
  The machine's side of the compile cache and of a precompile session (\<open>waterbox/rpcs3-driver.cpp\<close>), composed with
  the host's side and with the memory filesystem. The bridge is a function of its operation and the
  host's state \<open>'h\<close>; the emulator's file functions are the parameters \<open>is_file\<close> and \<open>read_file\<close>.
\<close>

section \<open>The cache\<close>

record driver_cache =
  dc_fs :: memfs
  g_cache_fetched :: u64
  g_cache_stored :: u64

type_synonym 'h cache_bridge = "cache_op \<Rightarrow> 'h \<Rightarrow> (nat \<times> bytes option) \<times> 'h"

definition cache_prefix :: string where "cache_prefix = memfs_root @ ''/cache/''"

definition cache_key :: "string \<Rightarrow> string" where
  "cache_key path =
     (if take (length cache_prefix) path \<noteq> cache_prefix then [] else drop (length cache_prefix) path)"

text \<open>What the guest's buffer holds after the bridge copied into it.\<close>

definition fetched_into :: "nat \<Rightarrow> bytes option \<Rightarrow> bytes" where
  "fetched_into n b = (case b of None \<Rightarrow> replicate n 0 | Some x \<Rightarrow> take n x @ replicate (n - length x) 0)"

text \<open>\<open>None\<close> is the null directory of \<open>memfs_put\<close>, or a vector that cannot be had.\<close>

definition cache_fetch ::
  "'h cache_bridge option \<Rightarrow> (nat \<Rightarrow> bool) \<Rightarrow> (string \<Rightarrow> memfs \<Rightarrow> bool) \<Rightarrow> string \<Rightarrow> driver_cache \<Rightarrow> 'h
     \<Rightarrow> (driver_cache \<times> 'h) option" where
  "cache_fetch bridge fits is_file path s h =
     (case bridge of
        None \<Rightarrow> Some (s, h)
      | Some call \<Rightarrow>
          let key = cache_key path in
          if key = [] \<or> is_file path (dc_fs s) then Some (s, h)
          else (case call (CACHE_FETCH (Some key) None) h of
            ((sz, _), h1) \<Rightarrow>
              if sz = 0 then Some (s, h1)
              else if \<not> fits sz then None
              else (case call (CACHE_FETCH (Some key) (Some sz)) h1 of
                ((got, b), h2) \<Rightarrow>
                  if got \<noteq> sz then Some (s, h2)
                  else (case memfs_put (''cache/'' @ key) (fetched_into sz b) (dc_fs s) of
                          None \<Rightarrow> None
                        | Some fs \<Rightarrow> Some (s\<lparr>dc_fs := fs, g_cache_fetched := g_cache_fetched s + 1\<rparr>, h2)))))"

definition cache_store ::
  "'h cache_bridge option \<Rightarrow> (string \<Rightarrow> memfs \<Rightarrow> bytes option) \<Rightarrow> string \<Rightarrow> driver_cache \<Rightarrow> 'h \<Rightarrow> driver_cache \<times> 'h" where
  "cache_store bridge read_file path s h =
     (case bridge of
        None \<Rightarrow> (s, h)
      | Some call \<Rightarrow>
          let key = cache_key path in
          if key = [] then (s, h)
          else (case read_file path (dc_fs s) of
                  None \<Rightarrow> (s, h)
                | Some data \<Rightarrow>
                    if data = [] then (s, h)
                    else (case call (CACHE_STORE (Some key) data) h of
                      ((r, _), h1) \<Rightarrow> (if r \<noteq> 0 then s\<lparr>g_cache_stored := g_cache_stored s + 1\<rparr> else s, h1))))"

section \<open>Precompile sessions\<close>

record precompile =
  pc_count :: int
  g_precompile_done :: u32
  g_precompile_total :: u32
  s_last_done :: u32
  s_last_total :: u32

definition fresh_precompile :: "int \<Rightarrow> precompile" where
  "fresh_precompile n = \<lparr>pc_count = n, g_precompile_done = 0, g_precompile_total = 0, s_last_done = -1, s_last_total = -1\<rparr>"

text \<open>The report, when there is one: through the bridge, or a line when there is none.\<close>

datatype progress = Over_bridge u32 u32 | As_line u32 u32

definition precompile_changed :: "bool \<Rightarrow> precompile \<Rightarrow> progress option \<times> precompile" where
  "precompile_changed bridge s =
     (if pc_count s \<le> 0 then (None, s)
      else if g_precompile_done s = s_last_done s \<and> g_precompile_total s = s_last_total s then (None, s)
      else (Some ((if bridge then Over_bridge else As_line) (g_precompile_done s) (g_precompile_total s)),
            s\<lparr>s_last_done := g_precompile_done s, s_last_total := g_precompile_total s\<rparr>))"

definition precompile_progress :: "precompile \<Rightarrow> u32 \<times> u32" where
  "precompile_progress s = (g_precompile_done s, g_precompile_total s)"

text \<open>A change is said once.\<close>

lemma precompile_said_once: "fst (precompile_changed b (snd (precompile_changed b s))) = None"
  by (simp add: precompile_changed_def)

section \<open>What was stored is what is fetched\<close>

lemma cache_key_path: "cache_key path \<noteq> [] \<Longrightarrow> path = cache_prefix @ cache_key path"
  unfolding cache_key_def by (metis append_take_drop_id)

lemma cache_fetch_gives:
  assumes "cache_key path = key" "key \<noteq> []" "\<not> is_file path (dc_fs s)" "fits (length data)" "data \<noteq> []"
    and "host_fetch d (Some key) None h = ((length data, None), h)"
    and "host_fetch d (Some key) (Some (length data)) h = ((length data, Some data), h2)"
    and "memfs_put (''cache/'' @ key) data (dc_fs s) = Some fs"
  shows "cache_fetch (Some (cache_host_dispatch d)) fits is_file path s h
    = Some (s\<lparr>dc_fs := fs, g_cache_fetched := g_cache_fetched s + 1\<rparr>, h2)"
  using assms by (simp add: cache_fetch_def cache_host_dispatch_def fetched_into_def)

text \<open>C37. A compiled object comes back as it was stored. When a machine stores an object and the host keeps it, a
  later machine that lacks the file and asks for it by the same path has, in its memory filesystem, a file of
  exactly those bytes, whatever else it holds unchanged; and on the host the object lies below the cache's
  directory: no segment of its path there is \<open>..\<close>, and no file was touched but the object's and the one it was
  written to first, which has \<open>.part\<close> behind its name and is gone (even if it was another object's).\<close>

theorem compiled_objects_come_back:
  assumes "cache_key path = key" "read_file path (dc_fs m1) = Some data"
    "cache_store (Some (cache_host_dispatch d)) read_file path m1 h = (m1', h')" "g_cache_stored m1' \<noteq> g_cache_stored m1"
    and "fs_inv env (dc_fs m2)" "\<not> is_file path (dc_fs m2)" "fits (length data)"
    "memfs_put (''cache/'' @ key) data (dc_fs m2) = Some fs"
    and "\<forall>full. hd_opens d full \<and> hd_reads d full"
  shows "(\<exists>h2 m2' k. cache_fetch (Some (cache_host_dispatch d)) fits is_file path m2 h' = Some (m2', h2)
      \<and> tree (dc_fs m2') (split_path (''cache/'' @ key)) = Some k \<and> content env (dc_fs m2') k = data
      \<and> (\<forall>i < fs_next (dc_fs m2). content env (dc_fs m2') i = content env (dc_fs m2) i))
    \<and> (\<exists>rel. ch_files h' (s_dir h @ ''/'' @ rel) = Some data \<and> ''..'' \<notin> set (segments rel)
        \<and> ch_files h' (s_dir h @ ''/'' @ rel @ ''.part'') = None
        \<and> (\<forall>q. q \<noteq> s_dir h @ ''/'' @ rel \<longrightarrow> q \<noteq> s_dir h @ ''/'' @ rel @ ''.part'' \<longrightarrow> ch_files h' q = ch_files h q))"
proof -
  have st: "host_store d (Some key) data h = (True, h')" "key \<noteq> []" "data \<noteq> []"
    using assms(1-4) by (auto simp: cache_store_def cache_host_dispatch_def split: if_splits prod.splits)
  obtain full where f: "safe_path h (Some key) = Some full"
    using st(1) by (auto simp: host_store_def split: option.splits)
  have o: "hd_opens d full" "hd_reads d full" using assms(9) by auto
  note S = store_then_fetch[OF st(1) f o]
  obtain h2 where h2: "host_fetch d (Some key) (Some (length data)) h' = ((length data, Some data), h2)"
    using S(2)[OF order_refl] by (cases "host_fetch d (Some key) (Some (length data)) h'") auto
  note F = cache_fetch_gives[where is_file = is_file and fits = fits and s = m2, OF assms(1) st(2) assms(6,7) st(3) S(1)[OF order_refl] h2 assms(8)]
  obtain rel where rel: "full = s_dir h @ ''/'' @ rel" "''..'' \<notin> set (segments rel)" using safe_path_below[OF f] by blast
  have "ch_files h' full = Some data" "ch_files h' (full @ ''.part'') = None"
    using st(1) f by (auto simp: host_store_def make_dirs_def Let_def split: if_splits)
  then show ?thesis
    using F put_spec(1,2)[OF assms(5,8)] rel store_touches(1)[OF f, of _ d data] st(1) by auto
qed

text \<open>Two machines, the second fresh, and a host whose calls all succeed.\<close>

definition open_disk :: host_disk where
  "open_disk = \<lparr>hd_opens = (\<lambda>_. True), hd_creates = (\<lambda>_. True), hd_reads = (\<lambda>_. True), hd_writes = (\<lambda>_ _. True),
     hd_renames = (\<lambda>_ _. True)\<rparr>"

definition new_host :: cache_host where
  "new_host = \<lparr>s_dir = ''c'', s_fetched = 0, s_stored = 0, ch_files = (\<lambda>_. None), ch_dirs = []\<rparr>"

definition new_machine :: driver_cache where
  "new_machine = \<lparr>dc_fs = memfs_install 0, g_cache_fetched = 0, g_cache_stored = 0\<rparr>"

theorem compiled_objects_come_back_witness:
  "\<exists>h' m1'. cache_store (Some (cache_host_dispatch open_disk)) (\<lambda>_ _. Some [1, 2]) (cache_prefix @ ''x'') new_machine new_host = (m1', h')
     \<and> (\<exists>h2 m2' k. cache_fetch (Some (cache_host_dispatch open_disk)) (\<lambda>_. True) (\<lambda>_ _. False) (cache_prefix @ ''x'') new_machine h'
           = Some (m2', h2) \<and> content demo_env (dc_fs m2') k = [1, 2])"
proof -
  let ?store = "cache_store (Some (cache_host_dispatch open_disk)) (\<lambda>_ _. Some [1, 2]) (cache_prefix @ ''x'') new_machine new_host"
  have key: "cache_key (cache_prefix @ ''x'') = ''x''" by (simp add: cache_key_def)
  have "segments_ok ''x''" by (subst segments_ok.simps) simp
  then have st: "fst (host_store open_disk (Some ''x'') [1, 2] new_host)"
    by (simp add: host_store_def safe_path_def cstr_def open_disk_def Let_def)
  obtain m1' h' where m: "?store = (m1', h')" by fastforce
  have c: "g_cache_stored m1' \<noteq> g_cache_stored new_machine"
    using m st by (auto simp: cache_store_def key cache_host_dispatch_def split: prod.splits)
  have "split_path (''cache/'' @ ''x'') \<noteq> []" by (simp add: split_path_def is_slash_def keep_part_def)
  then obtain fs where p: "memfs_put (''cache/'' @ ''x'') [1, 2] (dc_fs new_machine) = Some fs"
    unfolding new_machine_def driver_cache.simps using put_into_new by blast
  have inv: "fs_inv demo_env (dc_fs new_machine)" by (simp add: new_machine_def install_inv)
  show ?thesis
    using compiled_objects_come_back[where fits = "\<lambda>_. True" and is_file = "\<lambda>_ _. False", OF key _ m c inv _ _ p] m
    by (auto simp: open_disk_def)
qed

end
