(* ===== verification/GuestCalls.thy ===== *)
theory GuestCalls
  imports Prelude
begin

unbundle bit_operations_syntax

text \<open>
  The guest's own versions of libc's calls, \<open>waterbox/guest-syscalls.cpp\<close>: the directory calls that are refused, the
  one processor, the fixed stream of random bytes, and the table a static program's \<open>dlsym\<close> looks names up in.
  A call gives its result and what it leaves in \<open>errno\<close>; a pointer that is null is \<open>None\<close>.
\<close>

section \<open>Refusals\<close>

datatype errno = EROFS | EINVAL | ERANGE | EFAULT

definition refused :: "errno \<Rightarrow> int \<times> errno option" where
  "refused e = (-1, Some e)"

definition guest_mkdir :: "string \<Rightarrow> int \<times> errno option" where "guest_mkdir path = refused EROFS"
definition guest_rmdir :: "string \<Rightarrow> int \<times> errno option" where "guest_rmdir path = refused EROFS"
definition guest_unlink :: "string \<Rightarrow> int \<times> errno option" where "guest_unlink path = refused EROFS"
definition guest_rename :: "string \<Rightarrow> string \<Rightarrow> int \<times> errno option" where "guest_rename a b = refused EROFS"
definition guest_chmod :: "string \<Rightarrow> nat \<Rightarrow> int \<times> errno option" where "guest_chmod path mode = refused EROFS"
definition guest_fchmod :: "int \<Rightarrow> nat \<Rightarrow> int \<times> errno option" where "guest_fchmod fd mode = (0, None)"

section \<open>One processor\<close>

text \<open>A mask is its bytes, \<open>cpusetsize\<close> of them; the set holds processor 0, the lowest bit of the first.\<close>

definition sched_getaffinity :: "nat \<Rightarrow> bytes option \<Rightarrow> (int \<times> errno option) \<times> bytes option" where
  "sched_getaffinity cpusetsize m =
     (case m of
        None \<Rightarrow> (refused EINVAL, None)
      | Some b \<Rightarrow> if cpusetsize < 8 then (refused EINVAL, Some b)
                  else ((0, None), Some (1 # replicate (cpusetsize - 1) 0 @ drop cpusetsize b)))"

definition sched_setaffinity :: "nat \<Rightarrow> bytes \<Rightarrow> int" where "sched_setaffinity n m = 0"
definition pthread_setaffinity :: "nat \<Rightarrow> bytes \<Rightarrow> int" where "pthread_setaffinity n m = 0"
definition pthread_getaffinity :: "nat \<Rightarrow> bytes option \<Rightarrow> (int \<times> errno option) \<times> bytes option" where
  "pthread_getaffinity n m = sched_getaffinity n m"

definition cpu_in_set :: "nat \<Rightarrow> bytes \<Rightarrow> bool" where
  "cpu_in_set k m \<longleftrightarrow> k div 8 < length m \<and> bit (m ! (k div 8)) (k mod 8)"

lemma one_processor:
  assumes "sched_getaffinity n (Some b) = ((0, None), Some m)" "length b = n"
  shows "length m = n \<and> (\<forall>k. cpu_in_set k m \<longleftrightarrow> k = 0)"
proof -
  have m: "m = 1 # replicate (n - 1) 0" "8 \<le> n"
    using assms by (auto simp: sched_getaffinity_def refused_def split: if_splits)
  have "cpu_in_set k m \<longleftrightarrow> k = 0" for k
  proof (cases "k div 8")
    case 0
    then have "k = k mod 8" by (metis add.left_neutral div_mult_mod_eq mult_zero_left)
    then show ?thesis using 0 by (simp add: m cpu_in_set_def bit_1_iff)
  next
    case (Suc i)
    then have "k \<noteq> 0" by auto
    then show ?thesis using Suc by (auto simp: m cpu_in_set_def)
  qed
  then show ?thesis using m by simp
qed

section \<open>Names\<close>

definition getcwd :: "nat \<Rightarrow> string option \<Rightarrow> string option \<times> errno option" where
  "getcwd room buf = (if buf = None \<or> room < 2 then (None, Some ERANGE) else (Some ''/'', None))"

record utsname =
  sysname :: string
  nodename :: string
  release :: string
  version :: string
  machine_name :: string

definition uname :: "utsname option \<Rightarrow> (int \<times> errno option) \<times> utsname option" where
  "uname u =
     (case u of
        None \<Rightarrow> (refused EFAULT, None)
      | Some _ \<Rightarrow> ((0, None), Some \<lparr>sysname = ''Chimera'', nodename = ''waterbox'', release = ''1'', version = ''1'',
                                   machine_name = ''x86_64''\<rparr>))"

section \<open>Priorities\<close>

definition pthread_setschedparam :: "int \<Rightarrow> int" where "pthread_setschedparam policy = 0"

definition pthread_getschedparam :: "int option \<Rightarrow> int option \<Rightarrow> int \<times> int option \<times> int option" where
  "pthread_getschedparam policy priority = (0, map_option (\<lambda>_. 0) policy, map_option (\<lambda>_. 0) priority)"

definition sched_get_priority_max :: "int \<Rightarrow> int" where "sched_get_priority_max policy = 0"
definition sched_get_priority_min :: "int \<Rightarrow> int" where "sched_get_priority_min policy = 0"

section \<open>Random bytes\<close>

definition random_seed :: u64 where "random_seed = 0x9E3779B97F4A7C15"

definition xorshift :: "u64 \<Rightarrow> u64" where
  "xorshift x =
     (let x1 = x XOR push_bit 13 x; x2 = x1 XOR drop_bit 7 x1 in x2 XOR push_bit 17 x2)"

fun getrandom :: "nat \<Rightarrow> u64 \<Rightarrow> bytes \<times> u64" where
  "getrandom 0 x = ([], x)"
| "getrandom (Suc n) x =
     (let x' = xorshift x; (b, y) = getrandom n x' in (ucast x' # b, y))"

lemma getrandom_state: "snd (getrandom n x) = (xorshift ^^ n) x"
  by (induction n arbitrary: x) (simp_all add: Let_def split_beta funpow_swap1)

lemma getrandom_stream: "fst (getrandom n x) = map (\<lambda>i. ucast ((xorshift ^^ Suc i) x)) [0..<n]"
proof (induction n arbitrary: x)
  case (Suc n)
  have "map (\<lambda>i. ucast ((xorshift ^^ Suc i) x) :: u8) [0..<Suc n]
      = ucast (xorshift x) # map (\<lambda>i. ucast ((xorshift ^^ Suc i) (xorshift x))) [0..<n]"
    by (simp add: upt_conv_Cons map_Suc_upt[symmetric] funpow_swap1 del: upt_Suc)
  then show ?case using Suc by (simp add: Let_def split_beta)
qed simp

text \<open>Asking twice is asking once for both.\<close>

lemma getrandom_append:
  "getrandom (m + n) x = (fst (getrandom m x) @ fst (getrandom n (snd (getrandom m x))), snd (getrandom n (snd (getrandom m x))))"
  by (induction m arbitrary: x) (simp_all add: Let_def split_beta)

lemma push_fixed: "push_bit n x = (x :: u64) \<Longrightarrow> 64 \<le> n * k \<Longrightarrow> x = 0"
proof -
  assume a: "push_bit n x = x" "64 \<le> n * k"
  have "push_bit (n * j) x = x" for j
  proof (induction j)
    case (Suc j)
    have "push_bit (n * Suc j) x = push_bit n (push_bit (n * j) x)" by (simp add: push_bit_push_bit add.commute)
    then show ?case using Suc a(1) by simp
  qed simp
  then have "push_bit (n * k) x = x" .
  moreover have "push_bit (n * k) x = 0" using a(2) by (intro bit_word_eqI) (auto simp: bit_simps)
  ultimately show "x = 0" by simp
qed

lemma drop_fixed: "drop_bit n x = (x :: u64) \<Longrightarrow> 64 \<le> n * k \<Longrightarrow> x = 0"
proof -
  assume a: "drop_bit n x = x" "64 \<le> n * k"
  have "drop_bit (n * j) x = x" for j
  proof (induction j)
    case (Suc j)
    have "drop_bit (n * Suc j) x = drop_bit n (drop_bit (n * j) x)" by (simp add: drop_bit_drop_bit add.commute)
    then show ?case using Suc a(1) by simp
  qed simp
  then have "drop_bit (n * k) x = x" .
  moreover have "drop_bit (n * k) x = 0"
    using a(2) by (intro bit_word_eqI) (auto simp: bit_simps dest: bit_imp_le_length)
  ultimately show "x = 0" by simp
qed

lemma xor_zero: "(x :: u64) XOR y = 0 \<longleftrightarrow> y = x"
  by (metis bit.xor_self xor.left_neutral xor.assoc)

text \<open>The generator never falls into its fixed point, so the stream never dies out.\<close>

lemma xorshift_nonzero: "x \<noteq> 0 \<Longrightarrow> xorshift x \<noteq> 0"
  unfolding xorshift_def Let_def xor_zero
  using push_fixed[of 13 x 5] drop_fixed[of 7 "x XOR push_bit 13 x" 10]
    push_fixed[of 17 "(x XOR push_bit 13 x) XOR drop_bit 7 (x XOR push_bit 13 x)" 4] xor_zero
  by auto

lemma random_never_zero: "snd (getrandom n random_seed) \<noteq> 0"
proof -
  have "(xorshift ^^ n) random_seed \<noteq> 0" by (induction n) (simp_all add: random_seed_def xorshift_nonzero)
  then show ?thesis by (simp add: getrandom_state)
qed

section \<open>The dynamic loader\<close>

definition g_guest_symbols :: "string list" where
  "g_guest_symbols =
     [''memcpy'', ''memset'', ''memmove'', ''memcmp'', ''strlen'', ''fmod'', ''fmodf'', ''sqrt'', ''sqrtf'', ''floor'', ''floorf'',
      ''ceil'', ''ceilf'', ''trunc'', ''truncf'', ''round'', ''roundf'', ''rint'', ''rintf'', ''nearbyint'', ''nearbyintf'',
      ''fma'', ''fmaf'', ''exp2'', ''exp2f'', ''log2'', ''log2f'']"

text \<open>A handle is unit, and an address the name of the function at it.\<close>

definition dlopen :: "string option \<Rightarrow> unit option" where
  "dlopen file = (if file = None then Some () else None)"

definition dlsym :: "string \<Rightarrow> string option" where
  "dlsym name = find (\<lambda>s. s = name) g_guest_symbols"

definition dlclose :: "unit option \<Rightarrow> int" where "dlclose h = 0"
definition dlerror :: string where "dlerror = ''no dynamic loading in a sandbox''"

lemma find_equal: "find (\<lambda>s. s = name) xs = (if name \<in> set xs then Some name else None)"
  by (induction xs) auto

lemma dlsym_iff: "dlsym name = (if name \<in> set g_guest_symbols then Some name else None)"
  unfolding dlsym_def by (rule find_equal)

end
