(* ===== verification/Spec2Isabelle.thy ===== *)
theory Spec2Isabelle
  imports VschedTime MemfsList WindowsLeave ZipProps SevenZipNames SevenZipProps SevenZipStream DriverText DriverTitle
    DriverFrame DriverMemory DriverVideo DriverInstall DriverConfig DriverBoot WbxEntry DriverFault DriverLoop DriverCache
    GuestCalls GpuShims
begin

text \<open>
  A verification of the RPCS3 core for Chimera: the code under \<open>src/waterbox\<close> that turns the PlayStation 3 emulator
  rpcs3 into a deterministic machine in a sandbox. The emulator is not in this repository; what is verified is the
  core around it.

  \<^bold>\<open>The program.\<close> All of the emulator's threads run under one scheduler in virtual time (\<open>vsched.cpp\<close>): one at a time,
  handing a baton on at yields, waits and the end of a budget of instructions. Its files are a filesystem in memory
  (\<open>memfs.cpp\<close>) that also stands read-only sources in for files: the host's files, entries of zip and 7z archives
  (\<open>archive.cpp\<close>, \<open>sevenzip.cpp\<close>), disc images and packages read through their decryption. A file the game copies from
  its disc is kept as a mirror of the disc. The driver (\<open>rpcs3-driver.cpp\<close>) builds the machine, gives it a frame at a
  time, and carries pads, audio, the picture, saves and settings in and out; \<open>wbx-entry.cpp\<close> is what the frontend
  calls. The RSX reads pages its texture cache has locked through windows, which a hook of the scheduler closes before
  another thread has the machine. \<open>guest-syscalls.cpp\<close> answers for libc in the sandbox, the shims
  (\<open>vk-shim.cpp\<close>, \<open>gl-shim.cpp\<close>, \<open>gl-host.c\<close>) carry GPU calls out of it, and \<open>cache-host.c\<close> keeps compiled objects on
  the host.

  \<^bold>\<open>Where each part is.\<close>
  \<^item> \<open>Prelude\<close>: machine integers, results, structures behind pointers (\<open>upd_by\<close>, \<open>find_by\<close>), slices of bytes.
    \<open>ByteSource\<close>: the interface of everything that is read at an offset. \<open>OrdMap\<close>: \<open>std::map\<close>.
  \<^item> \<open>vsched.cpp\<close>: \<open>VschedState\<close> (threads, the ring, the clock, slots of thread-local variables), \<open>VschedOps\<close> (one
    definition for each entry point, and \<open>vstep\<close>, any call or resumption). \<open>VschedRing\<close>, \<open>VschedInv\<close>, \<open>VschedCalls\<close>,
    \<open>VschedPick\<close>, \<open>VschedReach\<close>, \<open>VschedSafety\<close>: the invariant and that everything keeps it. \<open>VschedTurns\<close>,
    \<open>VschedProps\<close>, \<open>VschedTime\<close>: mutual exclusion, that scheduling settles, fairness, waits and notifies, the clock, the
    aside, budgets, thread-local slots.
  \<^item> \<open>memfs.cpp\<close>: \<open>MemfsState\<close>, \<open>MemfsFile\<close> (open files, mirrors, kept handles), \<open>MemfsTree\<close> (directories), \<open>PkgDecrypt\<close>
    (\<open>struct pkg_decryption\<close>). \<open>MemfsContent\<close> and \<open>MemfsWrite\<close> show that a mirror cannot be told from a copy;
    \<open>MemfsWalk\<close>, \<open>MemfsDevice\<close> and \<open>MemfsReach\<close> give every operation as an update of the map from paths to nodes and the
    invariant of all that is reachable; \<open>MemfsProps\<close>, \<open>MemfsNames\<close> and \<open>MemfsList\<close> hold the properties.
  \<^item> Page windows of \<open>rpcs3-driver.cpp\<close>: \<open>PageWindows\<close>, \<open>WindowsProps\<close>, \<open>WindowsLeave\<close> (with the scheduler), and
    \<open>DriverFault\<close> (\<open>chimera_rpcs3_on_fault\<close>).
  \<^item> \<open>archive.cpp\<close>: \<open>ZipIndex\<close>, \<open>ZipProps\<close> (\<open>zip_open\<close>), \<open>ZipStream\<close> (\<open>zip_stream\<close>). \<open>sevenzip.cpp\<close>: \<open>SevenZip\<close>,
    \<open>SevenZipNames\<close>, \<open>SevenZipProps\<close>, \<open>SevenZipStream\<close>. What both do around a decoder that only goes forward is
    \<open>StreamCursor\<close>.
  \<^item> \<open>rpcs3-driver.cpp\<close>: \<open>DriverText\<close> (messages, JSON, names), \<open>DriverTitle\<close> (which game a file is, suggestions),
    \<open>DriverInstall\<close> (saves, packages, licences), \<open>DriverNodes\<close> and \<open>DriverConfig\<close> (settings and pins), \<open>DriverBoot\<close>
    (\<open>chimera_rpcs3_init\<close>), \<open>DriverFrame\<close> (pads, the main thread's queue, audio), \<open>DriverVideo\<close> (the picture, Raw SPU
    registers), \<open>DriverMemory\<close> (views of the guest's memory, digests), \<open>DriverLoop\<close> (a frame, shutting down, saves out),
    \<open>DriverCache\<close> (compiled objects, with \<open>CacheHost\<close>, which is \<open>cache-host.c\<close>).
  \<^item> \<open>wbx-entry.cpp\<close>: \<open>WbxEntry\<close>, composed with \<open>DriverBoot\<close>, \<open>DriverConfig\<close>, \<open>DriverInstall\<close> and \<open>DriverFrame\<close>.
    \<open>guest-syscalls.cpp\<close>: \<open>GuestCalls\<close>. \<open>vk-shim.cpp\<close>, \<open>gl-shim.cpp\<close>, \<open>gl-host.c\<close>: \<open>GpuShims\<close>.

  \<^bold>\<open>Interfaces.\<close> \<open>byte_source\<close> says that a reader with a state of its own gives stretches of one sequence of bytes,
  whatever was read before; it is interpreted on a node's read-only source (\<open>src\<close>, in \<open>MemfsWrite\<close>), an open zip entry
  (\<open>zip\<close>) and an open 7z entry (\<open>sz\<close>), so a file of the machine reads alike over all of them. \<open>ordered_map\<close> is
  interpreted on the children of a directory (\<open>kids\<close>).

  \<^bold>\<open>How the code is rendered.\<close> A global state is a record, an operation a function on it; pointers are keys, errors
  are values, words keep their width. \<open>None\<close> stands for a call the C++ would not survive (a null pointer, an index out
  of range) or, for a loop, for not ending. Log lines and messages on the error output are left out, except where a
  count or a message is the operation's point.

  \<^bold>\<open>Loops.\<close> A loop whose end is plain is structural or has a measure. The scheduler's two loops that look for a thread
  have fuel for three rounds: the first finds nobody and gives an aside up or moves time to the earliest deadline, and
  then somebody can run (\<open>scheduling_settles\<close>). The traversals of the filesystem have one unit for each node ever made,
  and no node is taken from the stack twice (\<open>list_loop_ends\<close>, \<open>bytes_loop_ends\<close>). Loops that need something of the
  world to end (the decoders' feeding loops, the main thread's queue, a frame, shutting down) are
  \<open>partial_function\<close>s; that they end is shown from what they need: decoders that make progress, time that passes.

  \<^bold>\<open>Parameters.\<close> What is not in the repository is an argument: the host's files (what a read at a position gives, and
  whether a handle fails), zlib's and the LZMA SDK's decoders and the SDK's database, AES-128, SHA-1 and the disc's
  sector decryption, rpcs3 itself (its parsers of settings and firmware, its package reader, its renderer, the guest's
  memory, and its boot, which is a script of what it changes in the filesystem and asks of the driver's callbacks), the project's slots and settings, and the GPU drivers. Properties about them name what they rely on:
  that a decoder, fed an entry, gives that entry; that a source does not change.

  \<^bold>\<open>Not modelled.\<close> The log's listeners and channels and the diagnostic dumps and disassembly, which no machine state
  depends on; the copy probe, which runs through the emulator's own file layer; the threads of a precompile session,
  which are the emulator's; making and binding a GL context, which is the platform's; the blocks of memory mapped for
  the GPU's copies; the entry points that only hand a call on; the test runners \<open>run-wbx.c\<close> and \<open>run-native.cpp\<close>; the
  calls answered with a fixed error in \<open>host-plumbing.cpp\<close> and \<open>host-stubs.cpp\<close>; glad, volk and the guest's C headers,
  which are third-party.
\<close>

end
